(* ===== verification/Prelude.thy ===== *)
theory Prelude
  imports Main "HOL-Library.Char_ord"
begin

text \<open>
  Shared vocabulary of the development: byte strings, the result type of fallible Go
  functions, and the generic lemmas on lists and results the component theories use.

  A Go \<^verbatim>\<open>string\<close> or \<^verbatim>\<open>[]byte\<close> is a list of characters, each of which is one
  byte (an Isabelle \<open>char\<close> has 8 bits). A Go function that returns \<open>(T, error)\<close> returns
  \<open>'e + 'a\<close>: \<open>Inl e\<close> for a non-nil error, \<open>Inr v\<close> for a value with a nil error.
\<close>

type_synonym bytes = "char list"

named_theorems go_simps \<open>evaluation rules for the model's small operations\<close>

named_theorems wf_intros \<open>introduction rules for the model's well-formedness predicates\<close>

subsection \<open>Results\<close>

definition rbind :: "'e + 'a \<Rightarrow> ('a \<Rightarrow> 'e + 'b) \<Rightarrow> 'e + 'b" where
  "rbind m f = (case m of Inl e \<Rightarrow> Inl e | Inr x \<Rightarrow> f x)"

definition rmap :: "('a \<Rightarrow> 'b) \<Rightarrow> 'e + 'a \<Rightarrow> 'e + 'b" where
  "rmap f m = (case m of Inl e \<Rightarrow> Inl e | Inr x \<Rightarrow> Inr (f x))"

lemma rbind_simps [simp]:
  "rbind (Inl e) f = Inl e"
  "rbind (Inr x) f = f x"
  by (simp_all add: rbind_def)

lemma rmap_simps [simp]:
  "rmap f (Inl e) = Inl e"
  "rmap f (Inr x) = Inr (f x)"
  by (simp_all add: rmap_def)

lemma rbind_Inr_iff: "rbind m f = Inr y \<longleftrightarrow> (\<exists>x. m = Inr x \<and> f x = Inr y)"
  by (cases m) auto

lemma rmap_Inr_iff: "rmap f m = Inr y \<longleftrightarrow> (\<exists>x. m = Inr x \<and> y = f x)"
  by (cases m) auto

lemma rbind_cong [fundef_cong]:
  "m = m' \<Longrightarrow> (\<And>x. m' = Inr x \<Longrightarrow> f x = f' x) \<Longrightarrow> rbind m f = rbind m' f'"
  by (cases m') auto

text \<open>A nil error joined with another: the value type of a Go \<^verbatim>\<open>error\<close> result is an option.\<close>

definition isErr :: "'e + 'a \<Rightarrow> bool" where
  "isErr m = (case m of Inl _ \<Rightarrow> True | Inr _ \<Rightarrow> False)"

lemma isErr_simps [simp]: "isErr (Inl e)" "\<not> isErr (Inr x)"
  by (simp_all add: isErr_def)

subsection \<open>Sequencing over a list, stopping at the first error\<close>

fun mapM :: "('a \<Rightarrow> 'e + 'b) \<Rightarrow> 'a list \<Rightarrow> 'e + 'b list" where
  "mapM f [] = Inr []"
| "mapM f (x # xs) = rbind (f x) (\<lambda>y. rmap (\<lambda>ys. y # ys) (mapM f xs))"

lemma mapM_length: "mapM f xs = Inr ys \<Longrightarrow> length ys = length xs"
  by (induction xs arbitrary: ys) (auto simp: rbind_Inr_iff rmap_Inr_iff)

lemma mapM_all: "(\<And>x. x \<in> set xs \<Longrightarrow> f x = Inr (g x)) \<Longrightarrow> mapM f xs = Inr (map g xs)"
  by (induction xs) auto

lemma mapM_Inr_iff: "mapM f xs = Inr ys \<longleftrightarrow> list_all2 (\<lambda>x y. f x = Inr y) xs ys"
proof (induction xs arbitrary: ys)
  case Nil
  show ?case by auto
next
  case (Cons x xs)
  show ?case
    by (cases ys) (auto simp: rbind_Inr_iff rmap_Inr_iff Cons.IH)
qed

lemma mapM_cong [fundef_cong]:
  "xs = ys \<Longrightarrow> (\<And>x. x \<in> set ys \<Longrightarrow> f x = g x) \<Longrightarrow> mapM f xs = mapM g ys"
proof (induction ys arbitrary: xs)
  case (Cons y ys)
  then show ?case by (auto intro: rbind_cong)
qed simp

subsection \<open>Step relations that drain\<close>

text \<open>A relation whose every step lowers a weight, and which can step until the weight is zero:
  every run ends, and it ends there.\<close>


locale draining_within =
  fixes step :: "'s \<Rightarrow> 's \<Rightarrow> bool"
    and weight :: "'s \<Rightarrow> nat"
    and good :: "'s \<Rightarrow> bool"
  assumes good_step: "good s \<Longrightarrow> step s t \<Longrightarrow> good t"
    and good_lowers: "good s \<Longrightarrow> step s t \<Longrightarrow> weight t < weight s"
    and good_enabled: "good s \<Longrightarrow> weight s \<noteq> 0 \<Longrightarrow> \<exists>t. step s t"
begin

lemma drains_within: "good s \<Longrightarrow> \<exists>t. step\<^sup>*\<^sup>* s t \<and> weight t = 0 \<and> good t"
proof (induction s rule: measure_induct_rule [of weight])
  case (less s)
  show ?case
  proof (cases "weight s = 0")
    case False
    then obtain u where u: "step s u" using good_enabled [OF less.prems] by blast
    with less.IH [OF good_lowers [OF less.prems u] good_step [OF less.prems u]] show ?thesis
      by (meson converse_rtranclp_into_rtranclp)
  qed (use less.prems in auto)
qed

lemma run_bounded_within: "good s \<Longrightarrow> (step ^^ n) s t \<Longrightarrow> n + weight t \<le> weight s \<and> good t"
proof (induction n arbitrary: t)
  case (Suc n)
  then obtain u where u: "(step ^^ n) s u" "step u t" by auto
  with Suc.IH [OF Suc.prems(1), of u] good_lowers [of u t] good_step [of u t] show ?case by simp
qed auto

end

text \<open>The same without an invariant.\<close>

locale draining =
  fixes step :: "'s \<Rightarrow> 's \<Rightarrow> bool"
    and weight :: "'s \<Rightarrow> nat"
  assumes step_lowers: "step s t \<Longrightarrow> weight t < weight s"
    and step_enabled: "weight s \<noteq> 0 \<Longrightarrow> \<exists>t. step s t"

sublocale draining \<subseteq> draining_within step weight "\<lambda>_. True"
  by unfold_locales (simp_all add: step_lowers step_enabled)

context draining
begin

lemma stuck_iff: "(\<nexists>t. step s t) \<longleftrightarrow> weight s = 0"
  using step_lowers step_enabled by fastforce

lemma drains: "\<exists>t. step\<^sup>*\<^sup>* s t \<and> weight t = 0"
  using drains_within by simp

lemma run_bounded: "(step ^^ n) s t \<Longrightarrow> n + weight t \<le> weight s"
  using run_bounded_within by simp

end

subsection \<open>Joining byte strings with a separator\<close>

fun join_with :: "bytes \<Rightarrow> bytes list \<Rightarrow> bytes" where
  "join_with sep [] = []"
| "join_with sep [x] = x"
| "join_with sep (x # y # xs) = x @ sep @ join_with sep (y # xs)"

lemma join_with_Cons:
  "xs \<noteq> [] \<Longrightarrow> join_with sep (x # xs) = x @ sep @ join_with sep xs"
  by (cases xs) auto

subsection \<open>Characters\<close>

abbreviation bval :: "char \<Rightarrow> nat" where
  "bval c \<equiv> of_char c"

definition is_digit :: "char \<Rightarrow> bool" where
  "is_digit c \<longleftrightarrow> 48 \<le> bval c \<and> bval c \<le> 57"

definition digit_val :: "char \<Rightarrow> nat" where
  "digit_val c = bval c - 48"

definition hex_digit :: "nat \<Rightarrow> char" where
  "hex_digit n = ''0123456789abcdef'' ! n"

subsection \<open>Strings: prefixes and suffixes (package strings)\<close>

fun has_prefix :: "bytes \<Rightarrow> bytes \<Rightarrow> bool" where
  "has_prefix s [] = True"
| "has_prefix [] (p # ps) = False"
| "has_prefix (c # cs) (p # ps) = (c = p \<and> has_prefix cs ps)"

definition has_suffix :: "bytes \<Rightarrow> bytes \<Rightarrow> bool" where
  "has_suffix s p = has_prefix (rev s) (rev p)"

definition trim_prefix :: "bytes \<Rightarrow> bytes \<Rightarrow> bytes" where
  "trim_prefix s p = (if has_prefix s p then drop (length p) s else s)"

lemma has_prefix_iff: "has_prefix s p \<longleftrightarrow> (\<exists>t. s = p @ t)"
  by (induction s p rule: has_prefix.induct) auto

lemma trim_prefix_append [simp]: "trim_prefix (p @ s) p = s"
  by (auto simp: trim_prefix_def has_prefix_iff)

end
