(* ===== verification/JsonScan.thy ===== *)
theory JsonScan
  imports Prelude
begin

text \<open>
  The scanner of Go's \<^verbatim>\<open>encoding/json\<close> package, on which every decoder and encoder of
  the repository rests: a pushdown automaton that is fed one byte at a time. The states are
  the step functions of the library's scanner, the stack is its \<^verbatim>\<open>parseState\<close>, and each
  step returns the scan code that tells the caller what the byte was. \<open>StError\<close> carries the text
  of the \<^verbatim>\<open>SyntaxError\<close>; \<open>StEndTop\<close> is the state in which the library's \<^verbatim>\<open>endTop\<close> flag is set.

  On top of it: the validity check, \<^verbatim>\<open>appendCompact\<close>, and the cutting of an array or
  object into the raw texts of its members.
\<close>

subsection \<open>States and scan codes\<close>

datatype pstate = ParseObjectKey | ParseObjectValue | ParseArrayValue

datatype scancode =
    ScanContinue | ScanBeginLiteral | ScanBeginObject | ScanObjectKey | ScanObjectValue
  | ScanEndObject | ScanBeginArray | ScanArrayValue | ScanEndArray | ScanSkipSpace | ScanEnd
  | ScanError

datatype sstep =
    StBeginValue | StBeginValueOrEmpty | StBeginStringOrEmpty | StBeginString
  | StEndValue | StEndTop | StInString | StInStringEsc | StInStringEscU nat
  | StNeg | St1 | St0 | StDot | StDot0 | StE | StESign | StE0
  | StLit bytes bytes
  | StError bytes

type_synonym scanner = "sstep \<times> pstate list"

definition max_depth :: int where
  "max_depth = 10000"

definition is_space :: "char \<Rightarrow> bool" where
  "is_space c \<longleftrightarrow> bval c = 32 \<or> bval c = 9 \<or> bval c = 13 \<or> bval c = 10"

definition is_hex :: "char \<Rightarrow> bool" where
  "is_hex c \<longleftrightarrow> is_digit c \<or> 97 \<le> bval c \<and> bval c \<le> 102 \<or> 65 \<le> bval c \<and> bval c \<le> 70"

subsection \<open>The text of a syntax error\<close>

definition quote_rune :: "char \<Rightarrow> bytes" where
  "quote_rune c =
     (let n = bval c in
      if c = CHR 0x27 then [CHR 0x5C, CHR 0x27]
      else if c = CHR 0x22 then [CHR 0x22]
      else if c = CHR 0x5C then [CHR 0x5C, CHR 0x5C]
      else if n = 7 then [CHR 0x5C, CHR ''a''] else if n = 8 then [CHR 0x5C, CHR ''b'']
      else if n = 9 then [CHR 0x5C, CHR ''t''] else if n = 10 then [CHR 0x5C, CHR ''n'']
      else if n = 11 then [CHR 0x5C, CHR ''v''] else if n = 12 then [CHR 0x5C, CHR ''f'']
      else if n = 13 then [CHR 0x5C, CHR ''r'']
      else if n < 32 \<or> n = 127 then [CHR 0x5C, CHR ''x'', hex_digit (n div 16), hex_digit (n mod 16)]
      else if n < 127 then [c]
      else if n < 161 \<or> n = 173
        then [CHR 0x5C, CHR ''u'', CHR ''0'', CHR ''0'', hex_digit (n div 16), hex_digit (n mod 16)]
      else [char_of (192 + n div 64), char_of (128 + n mod 64)])"

definition quote_char :: "char \<Rightarrow> bytes" where
  "quote_char c = CHR 0x27 # quote_rune c @ [CHR 0x27]"

definition serror :: "pstate list \<Rightarrow> char \<Rightarrow> bytes \<Rightarrow> scanner \<times> scancode" where
  "serror ps c context =
     ((StError (''invalid character '' @ quote_char c @ '' '' @ context), ps), ScanError)"

subsection \<open>One step\<close>

definition pop_state :: "pstate list \<Rightarrow> scanner" where
  "pop_state ps = (if tl ps = [] then StEndTop else StEndValue, tl ps)"

definition push_state :: "char \<Rightarrow> sstep \<Rightarrow> pstate \<Rightarrow> pstate list \<Rightarrow> scancode \<Rightarrow> scanner \<times> scancode" where
  "push_state c st p ps code =
     (if int (length ps) + 1 \<le> max_depth then ((st, p # ps), code)
      else serror (p # ps) c ''exceeded max depth'')"

definition end_top :: "char \<Rightarrow> pstate list \<Rightarrow> scanner \<times> scancode" where
  "end_top c ps = (if is_space c then ((StEndTop, ps), ScanEnd)
                   else serror ps c ''after top-level value'')"

fun end_value :: "char \<Rightarrow> pstate list \<Rightarrow> scanner \<times> scancode" where
  "end_value c [] = end_top c []"
| "end_value c (p # ps) =
     (if is_space c then ((StEndValue, p # ps), ScanSkipSpace)
      else case p of
        ParseObjectKey \<Rightarrow>
          if c = CHR '':'' then ((StBeginValue, ParseObjectValue # ps), ScanObjectKey)
          else serror (p # ps) c ''after object key''
      | ParseObjectValue \<Rightarrow>
          if c = CHR '','' then ((StBeginString, ParseObjectKey # ps), ScanObjectValue)
          else if c = CHR ''}'' then (pop_state (p # ps), ScanEndObject)
          else serror (p # ps) c ''after object key:value pair''
      | ParseArrayValue \<Rightarrow>
          if c = CHR '','' then ((StBeginValue, p # ps), ScanArrayValue)
          else if c = CHR '']'' then (pop_state (p # ps), ScanEndArray)
          else serror (p # ps) c ''after array element'')"

definition begin_value :: "char \<Rightarrow> pstate list \<Rightarrow> scanner \<times> scancode" where
  "begin_value c ps =
     (if is_space c then ((StBeginValue, ps), ScanSkipSpace)
      else if c = CHR ''{'' then push_state c StBeginStringOrEmpty ParseObjectKey ps ScanBeginObject
      else if c = CHR ''['' then push_state c StBeginValueOrEmpty ParseArrayValue ps ScanBeginArray
      else if c = CHR 0x22 then ((StInString, ps), ScanBeginLiteral)
      else if c = CHR ''-'' then ((StNeg, ps), ScanBeginLiteral)
      else if c = CHR ''0'' then ((St0, ps), ScanBeginLiteral)
      else if c = CHR ''t'' then ((StLit ''true'' ''rue'', ps), ScanBeginLiteral)
      else if c = CHR ''f'' then ((StLit ''false'' ''alse'', ps), ScanBeginLiteral)
      else if c = CHR ''n'' then ((StLit ''null'' ''ull'', ps), ScanBeginLiteral)
      else if is_digit c then ((St1, ps), ScanBeginLiteral)
      else serror ps c ''looking for beginning of value'')"

definition begin_string :: "char \<Rightarrow> pstate list \<Rightarrow> scanner \<times> scancode" where
  "begin_string c ps =
     (if is_space c then ((StBeginString, ps), ScanSkipSpace)
      else if c = CHR 0x22 then ((StInString, ps), ScanBeginLiteral)
      else serror ps c ''looking for beginning of object key string'')"

fun to_object_value :: "pstate list \<Rightarrow> pstate list" where
  "to_object_value [] = []"
| "to_object_value (p # ps) = ParseObjectValue # ps"

fun sc_step :: "scanner \<Rightarrow> char \<Rightarrow> scanner \<times> scancode" where
  "sc_step (StBeginValue, ps) c = begin_value c ps"
| "sc_step (StBeginValueOrEmpty, ps) c =
     (if is_space c then ((StBeginValueOrEmpty, ps), ScanSkipSpace)
      else if c = CHR '']'' then end_value c ps
      else begin_value c ps)"
| "sc_step (StBeginStringOrEmpty, ps) c =
     (if is_space c then ((StBeginStringOrEmpty, ps), ScanSkipSpace)
      else if c = CHR ''}'' then end_value c (to_object_value ps)
      else begin_string c ps)"
| "sc_step (StBeginString, ps) c = begin_string c ps"
| "sc_step (StEndValue, ps) c = end_value c ps"
| "sc_step (StEndTop, ps) c = end_top c ps"
| "sc_step (StInString, ps) c =
     (if c = CHR 0x22 then ((StEndValue, ps), ScanContinue)
      else if c = CHR 0x5C then ((StInStringEsc, ps), ScanContinue)
      else if bval c < 32 then serror ps c ''in string literal''
      else ((StInString, ps), ScanContinue))"
| "sc_step (StInStringEsc, ps) c =
     (if c \<in> set ''bfnrt/'' \<or> c = CHR 0x5C \<or> c = CHR 0x22 then ((StInString, ps), ScanContinue)
      else if c = CHR ''u'' then ((StInStringEscU 3, ps), ScanContinue)
      else serror ps c ''in string escape code'')"
| "sc_step (StInStringEscU n, ps) c =
     (if is_hex c then ((if n = 0 then StInString else StInStringEscU (n - 1), ps), ScanContinue)
      else serror ps c (''in '' @ [CHR 0x5C] @ ''u hexadecimal character escape''))"
| "sc_step (StNeg, ps) c =
     (if c = CHR ''0'' then ((St0, ps), ScanContinue)
      else if is_digit c then ((St1, ps), ScanContinue)
      else serror ps c ''in numeric literal'')"
| "sc_step (St1, ps) c =
     (if is_digit c then ((St1, ps), ScanContinue)
      else if c = CHR ''.'' then ((StDot, ps), ScanContinue)
      else if c = CHR ''e'' \<or> c = CHR ''E'' then ((StE, ps), ScanContinue)
      else end_value c ps)"
| "sc_step (St0, ps) c =
     (if c = CHR ''.'' then ((StDot, ps), ScanContinue)
      else if c = CHR ''e'' \<or> c = CHR ''E'' then ((StE, ps), ScanContinue)
      else end_value c ps)"
| "sc_step (StDot, ps) c =
     (if is_digit c then ((StDot0, ps), ScanContinue)
      else serror ps c ''after decimal point in numeric literal'')"
| "sc_step (StDot0, ps) c =
     (if is_digit c then ((StDot0, ps), ScanContinue)
      else if c = CHR ''e'' \<or> c = CHR ''E'' then ((StE, ps), ScanContinue)
      else end_value c ps)"
| "sc_step (StE, ps) c =
     (if c = CHR ''+'' \<or> c = CHR ''-'' then ((StESign, ps), ScanContinue)
      else if is_digit c then ((StE0, ps), ScanContinue)
      else serror ps c ''in exponent of numeric literal'')"
| "sc_step (StESign, ps) c =
     (if is_digit c then ((StE0, ps), ScanContinue)
      else serror ps c ''in exponent of numeric literal'')"
| "sc_step (StE0, ps) c =
     (if is_digit c then ((StE0, ps), ScanContinue) else end_value c ps)"
| "sc_step (StLit w [], ps) c = end_value c ps"
| "sc_step (StLit w (x # xs), ps) c =
     (if c = x then ((if xs = [] then StEndValue else StLit w xs, ps), ScanContinue)
      else serror ps c (''in literal '' @ w @ '' (expecting '' @ quote_char x @ '')''))"
| "sc_step (StError m, ps) c = ((StError m, ps), ScanError)"

subsection \<open>Runs, the end of the input, validity\<close>

definition sc_reset :: scanner where
  "sc_reset = (StBeginValue, [])"

fun sc_run :: "scanner \<Rightarrow> bytes \<Rightarrow> scanner" where
  "sc_run s [] = s"
| "sc_run s (c # cs) = sc_run (fst (sc_step s c)) cs"

lemma sc_run_append [simp]: "sc_run s (xs @ ys) = sc_run (sc_run s xs) ys"
  by (induction xs arbitrary: s) auto

lemma sc_run_error [simp]: "sc_run (StError m, ps) xs = (StError m, ps)"
  by (induction xs) auto

definition sc_eof :: "scanner \<Rightarrow> bytes option" where
  "sc_eof s =
     (case fst s of
        StError m \<Rightarrow> Some m
      | StEndTop \<Rightarrow> None
      | _ \<Rightarrow> (case fst (fst (sc_step s CHR '' '')) of
                StEndTop \<Rightarrow> None
              | _ \<Rightarrow> Some ''unexpected end of JSON input''))"

definition check_valid :: "bytes \<Rightarrow> bytes option" where
  "check_valid d = sc_eof (sc_run sc_reset d)"

definition json_valid :: "bytes \<Rightarrow> bool" where
  "json_valid d \<longleftrightarrow> check_valid d = None"

subsection \<open>Compacting\<close>

text \<open>\<^verbatim>\<open>appendCompact\<close> with HTML escaping: white space between tokens is dropped, and the
  three HTML characters and the line separators U+2028 and U+2029 are written as escapes.\<close>

definition html_escape :: "char \<Rightarrow> bytes" where
  "html_escape c = (if c = CHR ''<'' \<or> c = CHR ''>'' \<or> c = CHR ''&''
     then CHR 0x5C # ''u00'' @ [hex_digit (bval c div 16), hex_digit (bval c mod 16)] else [c])"

definition is_line_sep :: "bytes \<Rightarrow> bool" where
  "is_line_sep s = (case s of a # b # c # _ \<Rightarrow>
     a = CHR 0xE2 \<and> b = CHR 0x80 \<and> (c = CHR 0xA8 \<or> c = CHR 0xA9) | _ \<Rightarrow> False)"

definition skips :: "scancode \<Rightarrow> bool" where
  "skips k \<longleftrightarrow> k = ScanSkipSpace \<or> k = ScanEnd"

fun compact_from :: "scanner \<Rightarrow> nat \<Rightarrow> bytes \<Rightarrow> bytes" where
  "compact_from s drp [] = []"
| "compact_from s drp (c # cs) =
     (let (s', k) = sc_step s c in
      if skips k then compact_from s' drp cs
      else if 0 < drp then compact_from s' (drp - 1) cs
      else if is_line_sep (c # cs)
        then CHR 0x5C # ''u202'' @ [hex_digit (bval (cs ! 1) mod 16)] @ compact_from s' 2 cs
      else html_escape c @ compact_from s' 0 cs)"

text \<open>The result of compacting, or the text of the syntax error.\<close>

definition compact :: "bytes \<Rightarrow> bytes + bytes" where
  "compact d = (case check_valid d of Some m \<Rightarrow> Inl m | None \<Rightarrow> Inr (compact_from sc_reset 0 d))"

subsection \<open>Cutting a value into its members\<close>

definition ltrim :: "bytes \<Rightarrow> bytes" where
  "ltrim d = dropWhile is_space d"

definition jtrim :: "bytes \<Rightarrow> bytes" where
  "jtrim d = rev (dropWhile is_space (rev (ltrim d)))"

text \<open>\<open>cut_array s cur ds\<close>: the raw texts of the elements of the array whose opening bracket has
  been read, from scanner state \<open>s\<close>, with the bytes of the current element in \<open>cur\<close> (reversed).\<close>

definition flush :: "bytes \<Rightarrow> bytes list" where
  "flush cur = (let t = jtrim (rev cur) in if t = [] then [] else [t])"

fun cut_array :: "scanner \<Rightarrow> bytes \<Rightarrow> bytes \<Rightarrow> bytes list" where
  "cut_array s cur [] = []"
| "cut_array s cur (c # cs) =
     (let (s', k) = sc_step s c in
      if k = ScanEndArray \<and> snd s' = [] then flush cur
      else if k = ScanArrayValue \<and> length (snd s') = 1 then flush cur @ cut_array s' [] cs
      else cut_array s' (c # cur) cs)"

text \<open>\<open>cut_object s key cur ds\<close>: the members (raw key text, raw value text) of an object.\<close>

fun cut_object :: "scanner \<Rightarrow> bytes \<Rightarrow> bytes \<Rightarrow> bytes \<Rightarrow> (bytes \<times> bytes) list" where
  "cut_object s key cur [] = []"
| "cut_object s key cur (c # cs) =
     (let (s', k) = sc_step s c in
      if k = ScanEndObject \<and> snd s' = [] then map (\<lambda>v. (key, v)) (flush cur)
      else if k = ScanObjectKey \<and> length (snd s') = 1 then cut_object s' (jtrim (rev cur)) [] cs
      else if k = ScanObjectValue \<and> length (snd s') = 1
        then map (\<lambda>v. (key, v)) (flush cur) @ cut_object s' [] [] cs
      else cut_object s' key (c # cur) cs)"

definition array_elems :: "bytes \<Rightarrow> bytes list" where
  "array_elems d = (case ltrim d of [] \<Rightarrow> [] | c # cs \<Rightarrow> cut_array (fst (sc_step sc_reset c)) [] cs)"

definition object_members :: "bytes \<Rightarrow> (bytes \<times> bytes) list" where
  "object_members d =
     (case ltrim d of [] \<Rightarrow> [] | c # cs \<Rightarrow> cut_object (fst (sc_step sc_reset c)) [] [] cs)"

subsection \<open>Runs inside one member\<close>

text \<open>The steps at which a member of an outermost object or array ends, and runs without one.\<close>

definition cuts :: "scanner \<times> scancode \<Rightarrow> bool" where
  "cuts r \<longleftrightarrow> (snd r = ScanEndObject \<or> snd r = ScanEndArray) \<and> snd (fst r) = []
     \<or> (snd r = ScanObjectKey \<or> snd r = ScanObjectValue \<or> snd r = ScanArrayValue) \<and> length (snd (fst r)) = 1"

fun quiet_run :: "scanner \<Rightarrow> bytes \<Rightarrow> scanner option" where
  "quiet_run s [] = Some s"
| "quiet_run s (c # cs) = (if cuts (sc_step s c) then None else quiet_run (fst (sc_step s c)) cs)"

lemma quiet_run_append:
  "quiet_run s (xs @ ys) = (case quiet_run s xs of None \<Rightarrow> None | Some s' \<Rightarrow> quiet_run s' ys)"
  by (induction xs arbitrary: s) auto

lemma quiet_sc_run: "quiet_run s xs = Some s' \<Longrightarrow> sc_run s xs = s'"
  by (induction xs arbitrary: s) (auto split: if_splits)

lemma cuts_simps [simp]:
  "\<not> cuts (s, ScanContinue)" "\<not> cuts (s, ScanBeginLiteral)" "\<not> cuts (s, ScanSkipSpace)"
  "\<not> cuts (s, ScanError)" "\<not> cuts (s, ScanBeginArray)" "\<not> cuts (s, ScanBeginObject)" "\<not> cuts (s, ScanEnd)"
  by (simp_all add: cuts_def)

lemma cut_object_quiet:
  "quiet_run s xs = Some s' \<Longrightarrow> cut_object s key cur (xs @ ys) = cut_object s' key (rev xs @ cur) ys"
proof (induction xs arbitrary: s cur)
  case (Cons c xs)
  obtain s1 k where s1: "sc_step s c = (s1, k)" by fastforce
  with Cons.prems have "\<not> cuts (s1, k)" "quiet_run s1 xs = Some s'"
    by (auto split: if_splits)
  with Cons.IH [of s1 "c # cur"] s1 show ?case
    by (auto simp: cuts_def)
qed simp

lemma cut_array_quiet:
  "quiet_run s xs = Some s' \<Longrightarrow> cut_array s cur (xs @ ys) = cut_array s' (rev xs @ cur) ys"
proof (induction xs arbitrary: s cur)
  case (Cons c xs)
  obtain s1 k where s1: "sc_step s c = (s1, k)" by fastforce
  with Cons.prems have "\<not> cuts (s1, k)" "quiet_run s1 xs = Some s'"
    by (auto split: if_splits)
  with Cons.IH [of s1 "c # cur"] s1 show ?case
    by (auto simp: cuts_def)
qed simp

end
