(* ===== verification/JsonString.thy ===== *)
theory JsonString
  imports JsonScan
begin

text \<open>
  JSON string literals as \<^verbatim>\<open>encoding/json\<close> reads and writes them: UTF-8 decoding with the
  ranges of Go's \<^verbatim>\<open>unicode/utf8\<close>, \<^verbatim>\<open>unquote\<close> (escapes, surrogate pairs, invalid bytes
  replaced by U+FFFD) and \<^verbatim>\<open>appendString\<close> (with HTML escaping), and decimal integers
  as \<^verbatim>\<open>strconv\<close> prints and parses them. Two round trips close the theory: a valid UTF-8
  string survives quoting and unquoting, and a 64-bit integer survives printing and parsing.
\<close>

subsection \<open>UTF-8\<close>

definition cont :: "char \<Rightarrow> bool" where
  "cont c \<longleftrightarrow> 128 \<le> bval c \<and> bval c < 192"

text \<open>The size of the well-formed rune at the head of a byte string; 0 for an empty string or an
  ill-formed sequence (which \<^verbatim>\<open>DecodeRune\<close> reports as \<^verbatim>\<open>RuneError\<close> of size 1).\<close>

definition rune2 :: "bytes \<Rightarrow> bool" where
  "rune2 s = (case s of a # b # _ \<Rightarrow> 194 \<le> bval a \<and> bval a < 224 \<and> cont b | _ \<Rightarrow> False)"

definition rune3 :: "bytes \<Rightarrow> bool" where
  "rune3 s = (case s of a # b # c # _ \<Rightarrow>
     224 \<le> bval a \<and> bval a < 240 \<and> cont b \<and> cont c
       \<and> (bval a = 224 \<longrightarrow> 160 \<le> bval b) \<and> (bval a = 237 \<longrightarrow> bval b < 160) | _ \<Rightarrow> False)"

definition rune4 :: "bytes \<Rightarrow> bool" where
  "rune4 s = (case s of a # b # c # d # _ \<Rightarrow>
     240 \<le> bval a \<and> bval a < 245 \<and> cont b \<and> cont c \<and> cont d
       \<and> (bval a = 240 \<longrightarrow> 144 \<le> bval b) \<and> (bval a = 244 \<longrightarrow> bval b < 144) | _ \<Rightarrow> False)"

definition rune_len :: "bytes \<Rightarrow> nat" where
  "rune_len s =
     (case s of [] \<Rightarrow> 0
      | a # _ \<Rightarrow> if bval a < 128 then 1 else if rune2 s then 2 else if rune3 s then 3
                 else if rune4 s then 4 else 0)"

definition replacement :: bytes where
  "replacement = [CHR 0xEF, CHR 0xBF, CHR 0xBD]"

definition encode_rune :: "nat \<Rightarrow> bytes" where
  "encode_rune r =
     (if r < 128 then [char_of r]
      else if r < 2048 then [char_of (192 + r div 64), char_of (128 + r mod 64)]
      else if r < 65536
        then [char_of (224 + r div 4096), char_of (128 + r div 64 mod 64), char_of (128 + r mod 64)]
      else [char_of (240 + r div 262144), char_of (128 + r div 4096 mod 64),
            char_of (128 + r div 64 mod 64), char_of (128 + r mod 64)])"

lemma rune_len_le: "rune_len s \<le> length s"
  by (auto simp: rune_len_def rune2_def rune3_def rune4_def split: list.splits if_splits)

lemma rune_simps [simp]:
  "rune2 (a # b # t) = (194 \<le> bval a \<and> bval a < 224 \<and> cont b)"
  "rune3 (a # b # c # t) = (224 \<le> bval a \<and> bval a < 240 \<and> cont b \<and> cont c
       \<and> (bval a = 224 \<longrightarrow> 160 \<le> bval b) \<and> (bval a = 237 \<longrightarrow> bval b < 160))"
  "rune4 (a # b # c # d # t) = (240 \<le> bval a \<and> bval a < 245 \<and> cont b \<and> cont c \<and> cont d
       \<and> (bval a = 240 \<longrightarrow> 144 \<le> bval b) \<and> (bval a = 244 \<longrightarrow> bval b < 144))"
  by (simp_all add: rune2_def rune3_def rune4_def)

lemma rune2_E: "rune2 s \<Longrightarrow> (\<And>a b t. s = a # b # t \<Longrightarrow> 194 \<le> bval a \<Longrightarrow> bval a < 224 \<Longrightarrow> P) \<Longrightarrow> P"
  by (auto simp: rune2_def split: list.splits)

lemma rune3_E: "rune3 s \<Longrightarrow> (\<And>a b c t. s = a # b # c # t \<Longrightarrow> 224 \<le> bval a \<Longrightarrow> bval a < 240 \<Longrightarrow> P) \<Longrightarrow> P"
  by (auto simp: rune3_def split: list.splits)

lemma rune4_E: "rune4 s \<Longrightarrow> (\<And>a b c d t. s = a # b # c # d # t \<Longrightarrow> 240 \<le> bval a \<Longrightarrow> P) \<Longrightarrow> P"
  by (auto simp: rune4_def split: list.splits)

lemma rune_len_cases:
  "rune_len s = 0 \<or> rune_len s = 1 \<and> s \<noteq> [] \<and> bval (hd s) < 128
   \<or> rune_len s = 2 \<and> rune2 s \<or> rune_len s = 3 \<and> rune3 s \<or> rune_len s = 4 \<and> rune4 s"
  by (cases s) (simp_all add: rune_len_def)

lemma rune2_not_34: "bval a < 224 \<Longrightarrow> \<not> rune3 (a # s) \<and> \<not> rune4 (a # s)"
  by (auto elim!: rune3_E rune4_E)

lemma rune3_not_2: "224 \<le> bval a \<Longrightarrow> \<not> rune2 (a # s)"
  by (auto elim!: rune2_E)

lemma rune4_not_3: "240 \<le> bval a \<Longrightarrow> \<not> rune3 (a # s)"
  by (auto elim!: rune3_E)

lemma rune_len_append:
  assumes "rune_len s = n" and "0 < n"
  shows "rune_len (take n s @ t) = n"
  using rune_len_cases [of s]
proof (elim disjE conjE)
  assume "rune_len s = 1" and r: "s \<noteq> []" "bval (hd s) < 128"
  then have n: "n = Suc 0" using assms by simp
  with r show ?thesis
    by (cases s) (simp_all add: rune_len_def)
next
  assume "rune_len s = 2" and r: "rune2 s"
  then have n: "n = Suc (Suc 0)" using assms by simp
  from r obtain a b t' where "s = a # b # t'" by (elim rune2_E)
  with r n show ?thesis
    by (simp add: rune_len_def)
next
  assume "rune_len s = 3" and r: "rune3 s"
  then have n: "n = Suc (Suc (Suc 0))" using assms by simp
  from r obtain a b c t' where "s = a # b # c # t'" "224 \<le> bval a" "bval a < 240" by (elim rune3_E)
  with r n show ?thesis
    by (simp add: rune_len_def rune3_not_2)
next
  assume "rune_len s = 4" and r: "rune4 s"
  then have n: "n = Suc (Suc (Suc (Suc 0)))" using assms by simp
  from r obtain a b c d t' where "s = a # b # c # d # t'" "240 \<le> bval a" by (elim rune4_E)
  with r n show ?thesis
    by (simp add: rune_len_def rune3_not_2 rune4_not_3)
qed (use assms in simp)

function valid_utf8 :: "bytes \<Rightarrow> bool" where
  "valid_utf8 s = (if s = [] then True else if rune_len s = 0 then False
     else valid_utf8 (drop (rune_len s) s))"
  by pat_completeness auto
termination
  by (relation "measure length") auto

declare valid_utf8.simps [simp del]

subsection \<open>Unquoting\<close>

definition hex_val :: "char \<Rightarrow> nat" where
  "hex_val c = (if is_digit c then bval c - 48
                else if bval c < 97 then bval c - 55 else bval c - 87)"

text \<open>\<^verbatim>\<open>getu4\<close>: the code unit of a \<^verbatim>\<open>uXXXX\<close> escape (its backslash included) at the head.\<close>

definition getu4 :: "bytes \<Rightarrow> nat option" where
  "getu4 s = (case s of
     e # u # a # b # c # d # _ \<Rightarrow>
       if e = CHR 0x5C \<and> u = CHR ''u'' \<and> is_hex a \<and> is_hex b \<and> is_hex c \<and> is_hex d
       then Some (((hex_val a * 16 + hex_val b) * 16 + hex_val c) * 16 + hex_val d) else None
   | _ \<Rightarrow> None)"

definition is_surrogate :: "nat \<Rightarrow> bool" where
  "is_surrogate r \<longleftrightarrow> 55296 \<le> r \<and> r < 57344"

definition decode_surrogates :: "nat \<Rightarrow> nat option \<Rightarrow> nat option" where
  "decode_surrogates r1 r2 = (case r2 of None \<Rightarrow> None | Some r2 \<Rightarrow>
     if 55296 \<le> r1 \<and> r1 < 56320 \<and> 56320 \<le> r2 \<and> r2 < 57344
     then Some ((r1 - 55296) * 1024 + (r2 - 56320) + 65536) else None)"

definition simple_escape :: "char \<Rightarrow> bytes option" where
  "simple_escape e =
     (if e = CHR 0x22 \<or> e = CHR 0x5C \<or> e = CHR ''/'' \<or> e = CHR 0x27 then Some [e]
      else if e = CHR ''b'' then Some [CHR 0x08] else if e = CHR ''f'' then Some [CHR 0x0C]
      else if e = CHR ''n'' then Some [CHR 0x0A] else if e = CHR ''r'' then Some [CHR 0x0D]
      else if e = CHR ''t'' then Some [CHR 0x09] else None)"

text \<open>The body of the literal, between its quotes.\<close>

function unquote_body :: "bytes \<Rightarrow> bytes option" where
  "unquote_body [] = Some []"
| "unquote_body (c # cs) =
     (if c = CHR 0x5C then
        (case cs of [] \<Rightarrow> None
         | e # es \<Rightarrow>
           if e = CHR ''u'' then
             (case getu4 (c # cs) of None \<Rightarrow> None
              | Some r \<Rightarrow>
                if is_surrogate r then
                  (case decode_surrogates r (getu4 (drop 4 es)) of
                     Some rr \<Rightarrow> map_option ((@) (encode_rune rr)) (unquote_body (drop 10 es))
                   | None \<Rightarrow> map_option ((@) replacement) (unquote_body (drop 4 es)))
                else map_option ((@) (encode_rune r)) (unquote_body (drop 4 es)))
           else (case simple_escape e of None \<Rightarrow> None
                 | Some x \<Rightarrow> map_option ((@) x) (unquote_body es)))
      else if c = CHR 0x22 \<or> bval c < 32 then None
      else if 1 < rune_len (c # cs) then
        map_option ((@) (take (rune_len (c # cs)) (c # cs)))
          (unquote_body (drop (rune_len (c # cs) - 1) cs))
      else map_option ((@) (if bval c < 128 then [c] else replacement)) (unquote_body cs))"
  by pat_completeness auto
termination
  by (relation "measure length") auto

declare unquote_body.simps [simp del]

definition unquote :: "bytes \<Rightarrow> bytes option" where
  "unquote s = (if 2 \<le> length s \<and> hd s = CHR 0x22 \<and> last s = CHR 0x22
                then unquote_body (butlast (tl s)) else None)"

subsection \<open>Quoting\<close>

definition quote_ascii :: "char \<Rightarrow> bytes" where
  "quote_ascii c =
     (if c = CHR 0x5C \<or> c = CHR 0x22 then [CHR 0x5C, c]
      else if c = CHR 0x08 then [CHR 0x5C, CHR ''b''] else if c = CHR 0x0C then [CHR 0x5C, CHR ''f'']
      else if c = CHR 0x0A then [CHR 0x5C, CHR ''n''] else if c = CHR 0x0D then [CHR 0x5C, CHR ''r'']
      else if c = CHR 0x09 then [CHR 0x5C, CHR ''t'']
      else if bval c < 32 \<or> c = CHR ''<'' \<or> c = CHR ''>'' \<or> c = CHR ''&''
        then CHR 0x5C # ''u00'' @ [hex_digit (bval c div 16), hex_digit (bval c mod 16)]
      else [c])"

function quote_body :: "bytes \<Rightarrow> bytes" where
  "quote_body [] = []"
| "quote_body (c # cs) =
     (if bval c < 128 then quote_ascii c @ quote_body cs
      else if rune_len (c # cs) = 0 then CHR 0x5C # ''ufffd'' @ quote_body cs
      else if is_line_sep (c # cs)
        then CHR 0x5C # ''u202'' @ [hex_digit (bval (cs ! 1) mod 16)] @ quote_body (drop 2 cs)
      else take (rune_len (c # cs)) (c # cs) @ quote_body (drop (rune_len (c # cs) - 1) cs))"
  by pat_completeness auto
termination
  by (relation "measure length") auto

declare quote_body.simps [simp del]

definition quote :: "bytes \<Rightarrow> bytes" where
  "quote s = CHR 0x22 # quote_body s @ [CHR 0x22]"

subsection \<open>Quoting and unquoting are inverse on valid UTF-8\<close>

lemma unquote_body_simple:
  "simple_escape e = Some x \<Longrightarrow> e \<noteq> CHR ''u'' \<Longrightarrow>
   unquote_body (CHR 0x5C # e # t) = map_option ((@) x) (unquote_body t)"
  by (simp add: unquote_body.simps)

lemma unquote_body_u00:
  assumes "is_hex a" "is_hex b" and "hex_val a * 16 + hex_val b < 128"
  shows "unquote_body (CHR 0x5C # CHR ''u'' # CHR ''0'' # CHR ''0'' # a # b # t)
    = map_option ((@) [char_of (hex_val a * 16 + hex_val b)]) (unquote_body t)"
proof -
  have "getu4 (CHR 0x5C # CHR ''u'' # CHR ''0'' # CHR ''0'' # a # b # t)
      = Some (hex_val a * 16 + hex_val b)"
    using assms by (simp add: getu4_def is_hex_def is_digit_def hex_val_def)
  then show ?thesis
    using assms(3) by (subst unquote_body.simps) (simp add: is_surrogate_def encode_rune_def)
qed

lemma hex_digit_cases:
  "(n::nat) < 16 \<Longrightarrow> n \<in> {0, 1, 2, 3, 4, 5, 6, 7, 8, 9, 10, 11, 12, 13, 14, 15}"
  by simp arith

lemma hex_digit_props:
  assumes "n < 16"
  shows "is_hex (hex_digit n) \<and> hex_val (hex_digit n) = n"
  using hex_digit_cases [OF assms]
  by (auto simp: hex_digit_def is_hex_def is_digit_def hex_val_def)

lemma unquote_quote_ascii:
  assumes "bval c < 128"
  shows "unquote_body (quote_ascii c @ t) = map_option ((@) [c]) (unquote_body t)"
proof -
  consider (esc) "c \<in> {CHR 0x5C, CHR 0x22, CHR 0x08, CHR 0x0C, CHR 0x0A, CHR 0x0D, CHR 0x09}"
    | (uni) "c \<notin> {CHR 0x5C, CHR 0x22, CHR 0x08, CHR 0x0C, CHR 0x0A, CHR 0x0D, CHR 0x09}"
        "bval c < 32 \<or> c = CHR ''<'' \<or> c = CHR ''>'' \<or> c = CHR ''&''"
    | (plain) "c \<notin> {CHR 0x5C, CHR 0x22, CHR 0x08, CHR 0x0C, CHR 0x0A, CHR 0x0D, CHR 0x09}"
        "32 \<le> bval c" "c \<noteq> CHR ''<''" "c \<noteq> CHR ''>''" "c \<noteq> CHR ''&''"
    by fastforce
  then show ?thesis
  proof cases
    case esc
    then show ?thesis
      by (auto simp: quote_ascii_def unquote_body_simple simple_escape_def)
  next
    case uni
    have h: "is_hex (hex_digit (bval c div 16))" "hex_val (hex_digit (bval c div 16)) = bval c div 16"
      "is_hex (hex_digit (bval c mod 16))" "hex_val (hex_digit (bval c mod 16)) = bval c mod 16"
      using hex_digit_props [of "bval c div 16"] hex_digit_props [of "bval c mod 16"] assms by auto
    have "quote_ascii c = CHR 0x5C # ''u00'' @ [hex_digit (bval c div 16), hex_digit (bval c mod 16)]"
      using uni by (auto simp: quote_ascii_def)
    then show ?thesis
      using assms h by (simp add: unquote_body_u00)
  next
    case plain
    then have "quote_ascii c = [c]"
      by (auto simp: quote_ascii_def)
    then show ?thesis
      using plain assms by (simp add: unquote_body.simps rune_len_def)
  qed
qed

lemma unquote_body_rune:
  assumes "rune_len (c # cs) = n" "1 < n" "128 \<le> bval c"
  shows "unquote_body (take n (c # cs) @ t) = map_option ((@) (take n (c # cs))) (unquote_body t)"
proof -
  obtain m where m: "n = Suc m" using assms(2) by (cases n) auto
  have le: "m \<le> length cs"
    using rune_len_le [of "c # cs"] assms(1) m by simp
  have r: "rune_len (c # take m cs @ t) = Suc m"
    using rune_len_append [of "c # cs" n t] assms(1,2) m by simp
  have c: "c \<noteq> CHR 0x5C" "c \<noteq> CHR 0x22" "\<not> bval c < 32"
    using assms(3) by auto
  have "unquote_body (c # take m cs @ t)
      = map_option ((@) (take (Suc m) (c # take m cs @ t))) (unquote_body (drop m (take m cs @ t)))"
    using c r assms(2) m by (subst unquote_body.simps) simp
  then show ?thesis
    using le m by simp
qed

lemma encode_line_sep:
  "encode_rune 8232 = [CHR 0xE2, CHR 0x80, CHR 0xA8]"
  "encode_rune 8233 = [CHR 0xE2, CHR 0x80, CHR 0xA9]"
  by (simp_all add: encode_rune_def char_of_def bit_0)

lemma unquote_line_sep:
  assumes "c = CHR 0xA8 \<or> c = CHR 0xA9"
  shows "unquote_body (CHR 0x5C # ''u202'' @ [hex_digit (bval c mod 16)] @ t)
    = map_option ((@) [CHR 0xE2, CHR 0x80, c]) (unquote_body t)"
proof -
  have "unquote_body (CHR 0x5C # ''u2028'' @ t) = map_option ((@) [CHR 0xE2, CHR 0x80, CHR 0xA8]) (unquote_body t)"
    by (subst unquote_body.simps)
       (simp add: getu4_def is_hex_def is_digit_def hex_val_def is_surrogate_def encode_line_sep)
  moreover
  have "unquote_body (CHR 0x5C # ''u2029'' @ t) = map_option ((@) [CHR 0xE2, CHR 0x80, CHR 0xA9]) (unquote_body t)"
    by (subst unquote_body.simps)
       (simp add: getu4_def is_hex_def is_digit_def hex_val_def is_surrogate_def encode_line_sep)
  ultimately show ?thesis
    using assms by (auto simp: hex_digit_def char_of_def bit_0)
qed

lemma unquote_quote_body: "valid_utf8 s \<Longrightarrow> unquote_body (quote_body s) = Some s"
proof (induction s rule: quote_body.induct)
  case 1
  show ?case by (simp add: quote_body.simps unquote_body.simps)
next
  case (2 c cs)
  have pos: "0 < rune_len (c # cs)" and rest: "valid_utf8 (drop (rune_len (c # cs)) (c # cs))"
    using "2.prems" valid_utf8.simps [of "c # cs"] by (simp_all split: if_splits)
  show ?case
  proof (cases "bval c < 128")
    case True
    then have "valid_utf8 cs" using rest by (simp add: rune_len_def)
    with True "2.IH"(1) show ?thesis
      by (simp add: quote_body.simps unquote_quote_ascii)
  next
    case big: False
    have n1: "1 < rune_len (c # cs)"
      using big pos by (auto simp: rune_len_def split: if_splits)
    show ?thesis
    proof (cases "is_line_sep (c # cs)")
      case True
      then obtain d ds where cs: "c = CHR 0xE2" "cs = CHR 0x80 # d # ds" and d: "d = CHR 0xA8 \<or> d = CHR 0xA9"
        by (auto simp: is_line_sep_def split: list.splits)
      have "rune_len (c # cs) = 3"
        using cs d by (auto simp: rune_len_def rune2_def rune3_def cont_def)
      then have "valid_utf8 (drop 2 cs)"
        using rest cs by (simp add: eval_nat_numeral)
      then have "unquote_body (quote_body (drop 2 cs)) = Some (drop 2 cs)"
        using "2.IH"(3) big pos True by simp
      moreover have "quote_body (c # cs)
          = CHR 0x5C # ''u202'' @ [hex_digit (bval d mod 16)] @ quote_body (drop 2 cs)"
        using big pos True cs by (simp add: quote_body.simps)
      ultimately show ?thesis
        using unquote_line_sep [OF d, of "quote_body (drop 2 cs)"] cs by simp
    next
      case False
      have "valid_utf8 (drop (rune_len (c # cs) - 1) cs)"
        using rest pos by (simp add: drop_Cons' )
      then have "unquote_body (quote_body (drop (rune_len (c # cs) - 1) cs))
          = Some (drop (rune_len (c # cs) - 1) cs)"
        using "2.IH"(2,4) big pos False by simp
      moreover have "quote_body (c # cs) = take (rune_len (c # cs)) (c # cs)
          @ quote_body (drop (rune_len (c # cs) - 1) cs)"
        using big pos False by (simp add: quote_body.simps)
      ultimately show ?thesis
        using unquote_body_rune [OF refl n1, of "quote_body (drop (rune_len (c # cs) - 1) cs)"] big pos
        by (simp add: take_Cons')
    qed
  qed
qed

lemma unquote_quote: "valid_utf8 s \<Longrightarrow> unquote (quote s) = Some s"
  by (simp add: unquote_def quote_def unquote_quote_body)

subsection \<open>Decimal integers (package strconv)\<close>

definition digit_char :: "nat \<Rightarrow> char" where
  "digit_char n = ''0123456789'' ! n"

fun show_nat :: "nat \<Rightarrow> bytes" where
  "show_nat n = (if n < 10 then [digit_char n] else show_nat (n div 10) @ [digit_char (n mod 10)])"

declare show_nat.simps [simp del]

definition show_int :: "int \<Rightarrow> bytes" where
  "show_int i = (if i < 0 then CHR ''-'' # show_nat (nat (- i)) else show_nat (nat i))"

text \<open>\<^verbatim>\<open>ParseInt(s, 10, 64)\<close>: an optional sign, at least one digit, digits only, and a value
  that fits in 64 bits.\<close>

datatype num_error = NumSyntax | NumRange

definition digits_val :: "bytes \<Rightarrow> nat" where
  "digits_val s = foldl (\<lambda>a c. a * 10 + digit_val c) 0 s"

definition parse_uint :: "bytes \<Rightarrow> nat option" where
  "parse_uint s = (if s \<noteq> [] \<and> list_all is_digit s then Some (digits_val s) else None)"

definition in_int64 :: "int \<Rightarrow> bool" where
  "in_int64 i \<longleftrightarrow> - (2 ^ 63) \<le> i \<and> i < 2 ^ 63"

definition check_range :: "int \<Rightarrow> num_error + int" where
  "check_range i = (if in_int64 i then Inr i else Inl NumRange)"

definition parse_int64 :: "bytes \<Rightarrow> num_error + int" where
  "parse_int64 s =
     (case s of
        [] \<Rightarrow> Inl NumSyntax
      | c # cs \<Rightarrow>
        if c = CHR ''-'' then (case parse_uint cs of None \<Rightarrow> Inl NumSyntax | Some n \<Rightarrow> check_range (- int n))
        else case parse_uint (if c = CHR ''+'' then cs else s) of
               None \<Rightarrow> Inl NumSyntax | Some n \<Rightarrow> check_range (int n))"

lemma digit_char_props:
  assumes "n < 10"
  shows "is_digit (digit_char n) \<and> digit_val (digit_char n) = n"
proof -
  have "n \<in> {0, 1, 2, 3, 4, 5, 6, 7, 8, 9}"
    using assms by (auto simp: numeral_eq_Suc less_Suc_eq)
  then show ?thesis
    by (auto simp: digit_char_def is_digit_def digit_val_def)
qed

lemma show_nat_digits: "show_nat n \<noteq> [] \<and> list_all is_digit (show_nat n)"
proof (induction n rule: show_nat.induct)
  case (1 n)
  then show ?case
    by (cases "n < 10") (simp_all add: show_nat.simps [of n] digit_char_props)
qed

lemma digits_val_snoc: "digits_val (s @ [c]) = digits_val s * 10 + digit_val c"
  by (simp add: digits_val_def)

lemma digits_val_show_nat: "digits_val (show_nat n) = n"
proof (induction n rule: show_nat.induct)
  case (1 n)
  show ?case
  proof (cases "n < 10")
    case True
    then show ?thesis
      using digit_char_props [of n] by (simp add: show_nat.simps [of n] digits_val_def)
  next
    case False
    then show ?thesis
      using "1.IH" digit_char_props [of "n mod 10"]
      by (simp add: show_nat.simps [of n] digits_val_snoc)
  qed
qed

lemma parse_uint_show_nat [simp]: "parse_uint (show_nat n) = Some n"
  using show_nat_digits [of n] by (simp add: parse_uint_def digits_val_show_nat)

lemma is_digit_not_sign: "is_digit c \<Longrightarrow> c \<noteq> CHR ''-'' \<and> c \<noteq> CHR ''+''"
  by (auto simp: is_digit_def)

lemma parse_show_int:
  assumes "in_int64 i"
  shows "parse_int64 (show_int i) = Inr i"
proof (cases "i < 0")
  case True
  then show ?thesis
    using assms by (simp add: parse_int64_def show_int_def check_range_def)
next
  case False
  obtain c cs where s: "show_nat (nat i) = c # cs"
    using show_nat_digits [of "nat i"] by (cases "show_nat (nat i)") auto
  then have "is_digit c" using show_nat_digits [of "nat i"] by simp
  then show ?thesis
    using False assms s parse_uint_show_nat [of "nat i"] is_digit_not_sign [of c]
    by (simp add: parse_int64_def show_int_def check_range_def)
qed

lemma parse_int64_range: "parse_int64 s = Inr i \<Longrightarrow> in_int64 i"
  by (auto simp: parse_int64_def check_range_def split: list.splits option.splits if_splits)

end
