(* ===== verification/GoErrors.thy ===== *)
theory GoErrors
  imports JsonString
begin

text \<open>
  Go values and Go errors.

  \<open>gval\<close> is the universe of values the package stores in an \<^verbatim>\<open>any\<close> and hands to
  \<^verbatim>\<open>Marshal\<close>: nil, booleans, 64-bit integers, strings, \<^verbatim>\<open>json.Number\<close>,
  \<^verbatim>\<open>json.RawMessage\<close>, slices, string-keyed maps (and structs) in their output order, and
  values \<^verbatim>\<open>encoding/json\<close> refuses (functions, channels).

  \<open>go_error\<close> is the tree a Go \<^verbatim>\<open>error\<close> forms under wrapping: the package's sentinel
  errors, the errors of the libraries, the JSON-RPC error object itself (which implements
  \<^verbatim>\<open>error\<close>), \<^verbatim>\<open>fmt.Errorf\<close> with its \<^verbatim>\<open>%w\<close> children, and \<^verbatim>\<open>errors.Join\<close>.
  \<^verbatim>\<open>errors.Is\<close>, \<^verbatim>\<open>errors.As\<close> and \<^verbatim>\<open>Error()\<close> walk it.
\<close>

subsection \<open>Values\<close>

datatype gval =
    GNil
  | GBool bool
  | GInt int
  | GStr bytes
  | GNumber bytes
  | GRaw bytes
  | GSlice "gval list"
  | GMap "(bytes \<times> gval) list"
  | GUnsupported bytes

text \<open>The struct \<^verbatim>\<open>Data\<close> of data.go, of which \<^verbatim>\<open>Result\<close> and \<^verbatim>\<open>ErrorData\<close> are aliases,
  and the struct \<^verbatim>\<open>Error\<close> of error.go.\<close>

record data =
  data_value :: gval
  data_present :: bool

record rpc_error =
  err_present :: bool
  err_code :: int
  err_message :: bytes
  err_data :: data

definition zero_data :: data where
  "zero_data = \<lparr>data_value = GNil, data_present = False\<rparr>"

definition zero_error :: rpc_error where
  "zero_error = \<lparr>err_present = False, err_code = 0, err_message = [], err_data = zero_data\<rparr>"

subsection \<open>Errors\<close>

datatype sentinel =
    ErrDecoding | ErrEncoding | ErrJSONTooLarge | ErrIDNotANumber | ErrEmptyData
  | ErrNotRawMessage | ErrInvalidParameters | ErrWrongProtocolVersion | ErrResponseIsError
  | ErrResponseNotError | ErrMethodAlreadyExists | ErrInvalidParamsType | ErrRetriesExceeded
  | ErrUnknownScheme | ErrHTTPEmptyResponse | ErrHTTPResponse | ErrHTTPNotJSON | ErrUnreachable
  | EOF | ErrUnexpectedEOF | NetErrClosed | OSErrClosed | Canceled | DeadlineExceeded

datatype go_error =
    Sentinel sentinel
  | SyntaxErr bytes
  | TypeErr bytes
  | NumErr bytes
  | UnsupportedErr bytes
  | RpcErr rpc_error
  | RpcErrPtr rpc_error
  | Wrapf "frag list"
  | Joined "go_error list"
  | MaxBytesErr
  | OtherErr bytes
and frag = Txt bytes | Wrap go_error

fun sentinel_text :: "sentinel \<Rightarrow> bytes" where
  "sentinel_text ErrDecoding = ''jsonrpc2: decoding error''"
| "sentinel_text ErrEncoding = ''jsonrpc2: encoding error''"
| "sentinel_text ErrJSONTooLarge = ''jsonrpc2: JSON payload larger than configured read limit''"
| "sentinel_text ErrIDNotANumber = ''ID is not a number''"
| "sentinel_text ErrEmptyData = ''data is empty''"
| "sentinel_text ErrNotRawMessage = ''value is it not a raw message''"
| "sentinel_text ErrInvalidParameters = ''invalid parameters''"
| "sentinel_text ErrWrongProtocolVersion = ''wrong protocol version for jsonrpc2''"
| "sentinel_text ErrResponseIsError = ''response is an error''"
| "sentinel_text ErrResponseNotError = ''response is a response''"
| "sentinel_text ErrMethodAlreadyExists = ''method already exists in mux''"
| "sentinel_text ErrInvalidParamsType = ''jsonrpc2: params must marshal to a JSON object or array''"
| "sentinel_text ErrRetriesExceeded = ''retries exceeded''"
| "sentinel_text ErrUnknownScheme = ''jsonrpc2: unknown scheme in uri''"
| "sentinel_text ErrHTTPEmptyResponse = ''jsonrpc2/httpbridge: empty JSON response body''"
| "sentinel_text ErrHTTPResponse = ''jsonrpc2/httpbridge: HTTP response error''"
| "sentinel_text ErrHTTPNotJSON =
     ''jsonrpc2/httpbridge: response Content-Type was not application/json''"
| "sentinel_text ErrUnreachable = ''jsonrpc2: bad type for BatchBuilder, should be unreachable''"
| "sentinel_text EOF = ''EOF''"
| "sentinel_text ErrUnexpectedEOF = ''unexpected EOF''"
| "sentinel_text NetErrClosed = ''use of closed network connection''"
| "sentinel_text OSErrClosed = ''file already closed''"
| "sentinel_text Canceled = ''context canceled''"
| "sentinel_text DeadlineExceeded = ''context deadline exceeded''"

text \<open>The method \<^verbatim>\<open>Error()\<close>. \<^verbatim>\<open>errors.Join\<close> separates its texts by a newline.\<close>

fun error_text :: "go_error \<Rightarrow> bytes" and frag_text :: "frag \<Rightarrow> bytes" where
  "error_text (Sentinel s) = sentinel_text s"
| "error_text (SyntaxErr m) = m"
| "error_text (TypeErr m) = m"
| "error_text (NumErr m) = m"
| "error_text (UnsupportedErr m) = m"
| "error_text (RpcErr e) = err_message e"
| "error_text (RpcErrPtr e) = err_message e"
| "error_text (Wrapf fs) = concat (map frag_text fs)"
| "error_text (Joined es) = join_with [CHR 0x0A] (map error_text es)"
| "error_text MaxBytesErr = ''http: request body too large''"
| "error_text (OtherErr m) = m"
| "frag_text (Txt m) = m"
| "frag_text (Wrap e) = error_text e"

text \<open>The method \<^verbatim>\<open>Is\<close> of the JSON-RPC error (error.go): codes are compared, between errors that
  are both present; any other target is not equivalent.\<close>

definition Error_Is :: "rpc_error \<Rightarrow> go_error \<Rightarrow> bool" where
  "Error_Is e t =
     (case t of
        RpcErr j \<Rightarrow> err_present e \<and> err_present j \<and> err_code e = err_code j
      | RpcErrPtr j \<Rightarrow> err_present e \<and> err_present j \<and> err_code e = err_code j
      | _ \<Rightarrow> False)"

text \<open>\<^verbatim>\<open>errors.Is\<close>: equality, then the node's own \<^verbatim>\<open>Is\<close> method, then its children.\<close>

fun errors_is :: "go_error \<Rightarrow> go_error \<Rightarrow> bool" and frag_is :: "frag \<Rightarrow> go_error \<Rightarrow> bool" where
  "errors_is (RpcErr e) t = (RpcErr e = t \<or> Error_Is e t)"
| "errors_is (RpcErrPtr e) t = (RpcErrPtr e = t \<or> Error_Is e t)"
| "errors_is (Wrapf fs) t = (Wrapf fs = t \<or> (\<exists>f \<in> set fs. frag_is f t))"
| "errors_is (Joined es) t = (Joined es = t \<or> (\<exists>e \<in> set es. errors_is e t))"
| "errors_is (Sentinel s) t = (Sentinel s = t)"
| "errors_is (SyntaxErr m) t = (SyntaxErr m = t)"
| "errors_is (TypeErr m) t = (TypeErr m = t)"
| "errors_is (NumErr m) t = (NumErr m = t)"
| "errors_is (UnsupportedErr m) t = (UnsupportedErr m = t)"
| "errors_is MaxBytesErr t = (MaxBytesErr = t)"
| "errors_is (OtherErr m) t = (OtherErr m = t)"
| "frag_is (Txt m) t = False"
| "frag_is (Wrap e) t = errors_is e t"

text \<open>\<^verbatim>\<open>errors.As\<close> with a target of type \<^verbatim>\<open>Error\<close>: the first node, in preorder, that is one
  (a pointer to an \<^verbatim>\<open>Error\<close> is of another type and does not match).\<close>

fun first_some :: "'a option list \<Rightarrow> 'a option" where
  "first_some [] = None"
| "first_some (Some x # xs) = Some x"
| "first_some (None # xs) = first_some xs"

fun errors_as_rpc :: "go_error \<Rightarrow> rpc_error option"
  and frag_as_rpc :: "frag \<Rightarrow> rpc_error option" where
  "errors_as_rpc (RpcErr e) = Some e"
| "errors_as_rpc (Wrapf fs) = first_some (map frag_as_rpc fs)"
| "errors_as_rpc (Joined es) = first_some (map errors_as_rpc es)"
| "errors_as_rpc _ = None"
| "frag_as_rpc (Txt m) = None"
| "frag_as_rpc (Wrap e) = errors_as_rpc e"

text \<open>\<^verbatim>\<open>errors.As\<close> for the library's error types, as a search for a matching node.\<close>

fun errors_any :: "(go_error \<Rightarrow> bool) \<Rightarrow> go_error \<Rightarrow> bool"
  and frag_any :: "(go_error \<Rightarrow> bool) \<Rightarrow> frag \<Rightarrow> bool" where
  "errors_any p (Wrapf fs) = (p (Wrapf fs) \<or> (\<exists>f \<in> set fs. frag_any p f))"
| "errors_any p (Joined es) = (p (Joined es) \<or> (\<exists>e \<in> set es. errors_any p e))"
| "errors_any p (Sentinel s) = p (Sentinel s)"
| "errors_any p (SyntaxErr m) = p (SyntaxErr m)"
| "errors_any p (TypeErr m) = p (TypeErr m)"
| "errors_any p (NumErr m) = p (NumErr m)"
| "errors_any p (UnsupportedErr m) = p (UnsupportedErr m)"
| "errors_any p (RpcErr e) = p (RpcErr e)"
| "errors_any p (RpcErrPtr e) = p (RpcErrPtr e)"
| "errors_any p MaxBytesErr = p MaxBytesErr"
| "errors_any p (OtherErr m) = p (OtherErr m)"
| "frag_any p (Txt m) = False"
| "frag_any p (Wrap e) = errors_any p e"

definition is_syntax_error :: "go_error \<Rightarrow> bool" where
  "is_syntax_error = errors_any (\<lambda>e. case e of SyntaxErr _ \<Rightarrow> True | _ \<Rightarrow> False)"

definition is_type_error :: "go_error \<Rightarrow> bool" where
  "is_type_error = errors_any (\<lambda>e. case e of TypeErr _ \<Rightarrow> True | _ \<Rightarrow> False)"

definition is_maxbytes_error :: "go_error \<Rightarrow> bool" where
  "is_maxbytes_error = errors_any (\<lambda>e. e = MaxBytesErr)"

text \<open>\<^verbatim>\<open>errors.Join\<close> on possibly nil errors: nil arguments are dropped, and the result is nil
  when all are.\<close>

definition errors_join :: "go_error option list \<Rightarrow> go_error option" where
  "errors_join es =
     (let xs = List.map_filter (\<lambda>x. x) es in if xs = [] then None else Some (Joined xs))"

text \<open>The errors a context can have.\<close>

definition ctx_error :: "go_error option \<Rightarrow> bool" where
  "ctx_error e \<longleftrightarrow> e = Some (Sentinel Canceled) \<or> e = Some (Sentinel DeadlineExceeded)"

definition is_err :: "go_error option \<Rightarrow> sentinel \<Rightarrow> bool" where
  "is_err e s = (case e of None \<Rightarrow> False | Some x \<Rightarrow> errors_is x (Sentinel s))"

lemma errors_is_refl [simp]: "errors_is e e"
  by (cases e) auto

lemma map_filter_id_simps [simp]:
  "List.map_filter (\<lambda>x. x) [] = []"
  "List.map_filter (\<lambda>x. x) (None # es) = List.map_filter (\<lambda>x. x) es"
  "List.map_filter (\<lambda>x. x) (Some e # es) = e # List.map_filter (\<lambda>x. x) es"
  by (simp_all add: map_filter_simps)

lemma set_map_filter_id: "set (List.map_filter (\<lambda>x. x) es) = {e. Some e \<in> set es}"
  by (force simp: List.map_filter_def)

lemma errors_join_None: "errors_join es = None \<longleftrightarrow> (\<forall>e \<in> set es. e = None)"
proof (induction es)
  case (Cons e es)
  then show ?case by (cases e) (simp_all add: errors_join_def Let_def split: if_splits)
qed (simp add: errors_join_def)

lemma errors_join_is:
  "errors_join es = Some x \<Longrightarrow> x \<noteq> t \<Longrightarrow> errors_is x t \<longleftrightarrow> (\<exists>e. Some e \<in> set es \<and> errors_is e t)"
  by (auto simp: errors_join_def Let_def set_map_filter_id split: if_splits)

lemma is_err_join:
  "is_err (errors_join es) s \<longleftrightarrow> (\<exists>e \<in> set es. is_err e s)"
proof (cases "errors_join es")
  case None
  then have "\<forall>e \<in> set es. e = None" by (simp add: errors_join_None)
  with None show ?thesis by (auto simp: is_err_def)
next
  case (Some x)
  then have "x \<noteq> Sentinel s"
    by (auto simp: errors_join_def Let_def split: if_splits)
  with Some show ?thesis
    by (fastforce simp: is_err_def errors_join_is split: option.splits)
qed

end
