(* ===== verification/Json.thy ===== *)
theory Json
  imports GoErrors
begin

text \<open>
  \<^verbatim>\<open>json.Marshal\<close> and \<^verbatim>\<open>json.Unmarshal\<close> at the types the package uses them at
  (its default \<^verbatim>\<open>Marshal\<close> and \<^verbatim>\<open>Unmarshal\<close> variables): raw messages, strings,
  numbers, slices of raw messages, and structs, whose members are decoded in order of
  appearance by a setter that finds the field by exact name and then by case folding. An
  \<^verbatim>\<open>UnmarshalTypeError\<close> is saved and decoding goes on; an error returned by a type's
  own \<^verbatim>\<open>UnmarshalJSON\<close> stops it.
\<close>

subsection \<open>Kinds of JSON values\<close>

datatype jkind = KObject | KArray | KString | KNumber | KBool | KNull

definition kind_of :: "bytes \<Rightarrow> jkind" where
  "kind_of raw = (case raw of [] \<Rightarrow> KNull | c # _ \<Rightarrow>
     if c = CHR ''{'' then KObject else if c = CHR ''['' then KArray
     else if c = CHR 0x22 then KString
     else if c = CHR ''t'' \<or> c = CHR ''f'' then KBool
     else if c = CHR ''n'' then KNull else KNumber)"

fun kind_text :: "jkind \<Rightarrow> bytes" where
  "kind_text KObject = ''object''"
| "kind_text KArray = ''array''"
| "kind_text KString = ''string''"
| "kind_text KNumber = ''number''"
| "kind_text KBool = ''bool''"
| "kind_text KNull = ''null''"

text \<open>The text of an \<^verbatim>\<open>UnmarshalTypeError\<close>; the field part is present inside a struct.\<close>

definition type_error :: "bytes \<Rightarrow> (bytes \<times> bytes) option \<Rightarrow> bytes \<Rightarrow> go_error" where
  "type_error what field ty = TypeErr
     (''json: cannot unmarshal '' @ what @
      (case field of None \<Rightarrow> '' into Go value of type ''
       | Some (struct, f) \<Rightarrow> '' into Go struct field '' @ struct @ ''.'' @ f @ '' of type '') @ ty)"

subsection \<open>Unmarshalling basic targets\<close>

definition checked :: "bytes \<Rightarrow> go_error + bytes" where
  "checked d = (case check_valid d of Some m \<Rightarrow> Inl (SyntaxErr m) | None \<Rightarrow> Inr (jtrim d))"

definition unmarshal_raw :: "bytes \<Rightarrow> go_error + bytes" where
  "unmarshal_raw d = checked d"

text \<open>One decoded value: the new content of the target and the saved type error, if any.\<close>

definition set_string :: "(bytes \<times> bytes) option \<Rightarrow> bytes \<Rightarrow> bytes \<Rightarrow> bytes \<times> go_error option" where
  "set_string field raw old =
     (case kind_of raw of
        KString \<Rightarrow> (case unquote raw of Some s \<Rightarrow> (s, None) | None \<Rightarrow> (old, None))
      | KNull \<Rightarrow> (old, None)
      | k \<Rightarrow> (old, Some (type_error (kind_text k) field ''string'')))"

definition set_int64 :: "(bytes \<times> bytes) option \<Rightarrow> bytes \<Rightarrow> int \<Rightarrow> int \<times> go_error option" where
  "set_int64 field raw old =
     (case kind_of raw of
        KNumber \<Rightarrow> (case parse_int64 raw of Inr i \<Rightarrow> (i, None)
                   | Inl _ \<Rightarrow> (old, Some (type_error (''number '' @ raw) field ''int64'')))
      | KNull \<Rightarrow> (old, None)
      | k \<Rightarrow> (old, Some (type_error (kind_text k) field ''int64'')))"

definition saved :: "'a \<times> go_error option \<Rightarrow> go_error + 'a" where
  "saved r = (case snd r of None \<Rightarrow> Inr (fst r) | Some e \<Rightarrow> Inl e)"

definition unmarshal_string :: "bytes \<Rightarrow> go_error + bytes" where
  "unmarshal_string d = rbind (checked d) (\<lambda>raw. saved (set_string None raw []))"

definition unmarshal_number :: "bytes \<Rightarrow> go_error + bytes" where
  "unmarshal_number d = rbind (checked d) (\<lambda>raw.
     case kind_of raw of
       KNumber \<Rightarrow> Inr raw
     | KNull \<Rightarrow> Inr []
     | k \<Rightarrow> Inl (type_error (kind_text k) None ''json.Number''))"

definition unmarshal_raws :: "bytes \<Rightarrow> go_error + bytes list" where
  "unmarshal_raws d = rbind (checked d) (\<lambda>raw.
     case kind_of raw of
       KArray \<Rightarrow> Inr (array_elems raw)
     | KNull \<Rightarrow> Inr []
     | k \<Rightarrow> Inl (type_error (kind_text k) None ''[]json.RawMessage''))"

subsection \<open>Structs\<close>

text \<open>Field names are matched exactly, then without regard to case (with the two letters beyond
  ASCII that fold into it).\<close>

fun fold_name :: "bytes \<Rightarrow> bytes" where
  "fold_name [] = []"
| "fold_name (c # cs) =
     (if 65 \<le> bval c \<and> bval c \<le> 90 then char_of (bval c + 32) # fold_name cs
      else case cs of
        d # ds \<Rightarrow>
          if c = CHR 0xC5 \<and> d = CHR 0xBF then CHR ''s'' # fold_name ds
          else (case ds of
              e # es \<Rightarrow> if c = CHR 0xE2 \<and> d = CHR 0x84 \<and> e = CHR 0xAA then CHR ''k'' # fold_name es
                        else c # fold_name cs
            | [] \<Rightarrow> c # fold_name cs)
      | [] \<Rightarrow> [c])"

definition find_field :: "bytes list \<Rightarrow> bytes \<Rightarrow> bytes option" where
  "find_field names key =
     (if key \<in> set names then Some key else find (\<lambda>n. fold_name key = n) names)"

text \<open>A field setter: the field's name, the member's raw value and the struct give the new struct
  and a saved type error, or the error of the field's own \<^verbatim>\<open>UnmarshalJSON\<close>.\<close>

type_synonym 's setter = "bytes \<Rightarrow> bytes \<Rightarrow> 's \<Rightarrow> go_error + 's \<times> go_error option"

definition or_first :: "'a option \<Rightarrow> 'a option \<Rightarrow> 'a option" where
  "or_first a b = (case a of Some _ \<Rightarrow> a | None \<Rightarrow> b)"

fun set_members :: "bytes list \<Rightarrow> 's setter \<Rightarrow> (bytes \<times> bytes) list \<Rightarrow> 's \<times> go_error option
    \<Rightarrow> go_error + 's \<times> go_error option" where
  "set_members names f [] s = Inr s"
| "set_members names f ((k, v) # ms) s =
     (case unquote k of
        None \<Rightarrow> set_members names f ms s
      | Some key \<Rightarrow>
        (case find_field names key of
           None \<Rightarrow> set_members names f ms s
         | Some n \<Rightarrow> rbind (f n v (fst s))
             (\<lambda>s'. set_members names f ms (fst s', or_first (snd s) (snd s')))))"

definition set_struct ::
  "bytes list \<Rightarrow> 's setter \<Rightarrow> bytes \<Rightarrow> bytes \<Rightarrow> 's \<Rightarrow> go_error + 's \<times> go_error option" where
  "set_struct names f ty raw s =
     (case kind_of raw of
        KObject \<Rightarrow> set_members names f (object_members raw) (s, None)
      | KNull \<Rightarrow> Inr (s, None)
      | k \<Rightarrow> Inr (s, Some (type_error (kind_text k) None ty)))"

definition unmarshal_struct ::
  "bytes list \<Rightarrow> 's setter \<Rightarrow> bytes \<Rightarrow> 's \<Rightarrow> bytes \<Rightarrow> go_error + 's" where
  "unmarshal_struct names f ty s d =
     rbind (checked d) (\<lambda>raw. rbind (set_struct names f ty raw s) saved)"

subsection \<open>Marshalling\<close>

definition marshaler_error :: "bytes \<Rightarrow> go_error \<Rightarrow> go_error" where
  "marshaler_error ty e =
     Wrapf [Txt (''json: error calling MarshalJSON for type '' @ ty @ '': ''), Wrap e]"

text \<open>The output of a type's own \<^verbatim>\<open>MarshalJSON\<close> is compacted into the stream.\<close>

definition via_marshaler :: "bytes \<Rightarrow> go_error + bytes \<Rightarrow> go_error + bytes" where
  "via_marshaler ty r =
     (case r of
        Inl e \<Rightarrow> Inl (marshaler_error ty e)
      | Inr b \<Rightarrow> (case compact b of Inl m \<Rightarrow> Inl (marshaler_error ty (SyntaxErr m)) | Inr c \<Rightarrow> Inr c))"

definition json_array :: "bytes list \<Rightarrow> bytes" where
  "json_array xs = ''['' @ join_with '','' xs @ '']''"

definition json_object :: "(bytes \<times> bytes) list \<Rightarrow> bytes" where
  "json_object kvs = ''{'' @ join_with '','' (map (\<lambda>(k, v). quote k @ '':'' @ v) kvs) @ ''}''"

text \<open>\<^verbatim>\<open>isValidNumber\<close>: a JSON number and nothing else.\<close>

definition valid_number :: "bytes \<Rightarrow> bool" where
  "valid_number s \<longleftrightarrow> json_valid s \<and> jtrim s = s \<and> kind_of s = KNumber"

fun marshal :: "gval \<Rightarrow> go_error + bytes" where
  "marshal GNil = Inr ''null''"
| "marshal (GBool b) = Inr (if b then ''true'' else ''false'')"
| "marshal (GInt i) = Inr (show_int i)"
| "marshal (GStr s) = Inr (quote s)"
| "marshal (GNumber n) =
     (if n = [] then Inr ''0''
      else if valid_number n then Inr n
      else Inl (OtherErr (''json: invalid number literal '' @ quote n)))"
| "marshal (GRaw b) = via_marshaler ''json.RawMessage'' (Inr b)"
| "marshal (GSlice vs) = rmap json_array (mapM marshal vs)"
| "marshal (GMap kvs) =
     rmap (\<lambda>vs. json_object (zip (map fst kvs) vs)) (mapM (\<lambda>kv. marshal (snd kv)) kvs)"
| "marshal (GUnsupported ty) = Inl (UnsupportedErr (''json: unsupported type: '' @ ty))"

lemma checked_raw: "checked d = Inr raw \<Longrightarrow> json_valid d \<and> raw = jtrim d"
  by (auto simp: checked_def json_valid_def split: option.splits)

lemma saved_Inr [simp]: "saved (x, None) = Inr x"
  by (simp add: saved_def)

lemma saved_Inl [simp]: "saved (x, Some e) = Inl e"
  by (simp add: saved_def)

end
