(* ===== verification/TypeHints.thy ===== *)
theory TypeHints
  imports Json
begin

text \<open>
  typehint.go: the classification of a raw message by its first non-space byte.
  \<^verbatim>\<open>bytes.TrimSpace\<close> trims Unicode white space, which is more than JSON's.
\<close>

datatype TypeHint =
  TypeUnknown | TypeArray | TypeObject | TypeBool | TypeNumber | TypeString | TypeNull
| TypeEmpty | TypeNotJSON

subsection \<open>bytes.TrimSpace\<close>

definition ascii_space :: "char \<Rightarrow> bool" where
  "ascii_space c \<longleftrightarrow> bval c = 32 \<or> 9 \<le> bval c \<and> bval c \<le> 13"

text \<open>The UTF-8 encodings of the white space runes beyond ASCII.\<close>

definition wide_spaces :: "bytes list" where
  "wide_spaces =
     [[CHR 0xC2, CHR 0x85], [CHR 0xC2, CHR 0xA0], [CHR 0xE1, CHR 0x9A, CHR 0x80]]
     @ map (\<lambda>c. [CHR 0xE2, CHR 0x80, c])
         [CHR 0x80, CHR 0x81, CHR 0x82, CHR 0x83, CHR 0x84, CHR 0x85, CHR 0x86, CHR 0x87,
          CHR 0x88, CHR 0x89, CHR 0x8A, CHR 0xA8, CHR 0xA9, CHR 0xAF]
     @ [[CHR 0xE2, CHR 0x81, CHR 0x9F], [CHR 0xE3, CHR 0x80, CHR 0x80]]"

definition space_len :: "bytes \<Rightarrow> nat" where
  "space_len s = (case s of [] \<Rightarrow> 0 | c # _ \<Rightarrow> if ascii_space c then 1
     else case find (has_prefix s) wide_spaces of Some w \<Rightarrow> length w | None \<Rightarrow> 0)"

definition space_len_end :: "bytes \<Rightarrow> nat" where
  "space_len_end r = (case r of [] \<Rightarrow> 0 | c # _ \<Rightarrow> if ascii_space c then 1
     else case find (has_prefix r) (map rev wide_spaces) of Some w \<Rightarrow> length w | None \<Rightarrow> 0)"

function trim_left :: "(bytes \<Rightarrow> nat) \<Rightarrow> bytes \<Rightarrow> bytes" where
  "trim_left f s = (if s = [] then [] else if f s = 0 then s else trim_left f (drop (f s) s))"
  by pat_completeness auto
termination
  by (relation "measure (\<lambda>(f, s). length s)") auto

declare trim_left.simps [simp del]

definition TrimSpace :: "bytes \<Rightarrow> bytes" where
  "TrimSpace m = rev (trim_left space_len_end (rev (trim_left space_len m)))"

subsection \<open>HintType\<close>

definition HintType :: "bytes \<Rightarrow> TypeHint" where
  "HintType m =
     (case TrimSpace m of
        [] \<Rightarrow> TypeEmpty
      | c # _ \<Rightarrow>
        if c = CHR ''['' then TypeArray
        else if c = CHR ''{'' then TypeObject
        else if c = CHR ''t'' \<or> c = CHR ''f'' then TypeBool
        else if c = CHR ''-'' \<or> is_digit c then TypeNumber
        else if c = CHR 0x22 then TypeString
        else if c = CHR ''n'' then TypeNull
        else TypeUnknown)"

subsection \<open>Facts\<close>

lemma wide_spaces_bytes: "w \<in> set wide_spaces \<Longrightarrow> w \<noteq> [] \<and> (\<forall>x \<in> set w. 128 \<le> bval x)"
  by (simp add: wide_spaces_def) (elim disjE; simp)

lemma has_prefix_hd: "has_prefix (c # s) w \<Longrightarrow> w \<noteq> [] \<Longrightarrow> c \<in> set w"
  by (cases w) auto

lemma ascii_not_wide:
  assumes "bval c < 128"
  shows "find (has_prefix (c # s)) wide_spaces = None"
    and "find (has_prefix (c # s)) (map rev wide_spaces) = None"
  using assms wide_spaces_bytes has_prefix_hd [of c s]
  by (fastforce simp: find_None_iff)+

text \<open>A message that starts with a non-space ASCII byte keeps that byte in front.\<close>

lemma trim_left_id: "f s = 0 \<Longrightarrow> trim_left f s = s"
  by (subst trim_left.simps) simp

lemma trim_left_Nil [simp]: "trim_left f [] = []"
  by (subst trim_left.simps) simp

lemma space_len_0: "bval c < 128 \<Longrightarrow> \<not> ascii_space c \<Longrightarrow> space_len (c # s) = 0"
  by (simp add: space_len_def ascii_not_wide)

lemma trim_left_end_hd:
  assumes "bval c < 128" "\<not> ascii_space c"
  shows "\<exists>t. trim_left space_len_end (s @ [c]) = t @ [c]"
proof (induction s rule: length_induct)
  case (1 s)
  let ?n = "space_len_end (s @ [c])"
  show ?case
  proof (cases "?n = 0")
    case True
    then show ?thesis by (auto simp: trim_left_id)
  next
    case False
    have "?n \<le> length s"
    proof (cases s)
      case Nil
      then show ?thesis
        using False assms by (simp add: space_len_end_def ascii_not_wide)
    next
      case (Cons x xs)
      show ?thesis
      proof (cases "ascii_space x")
        case True
        then show ?thesis using Cons by (simp add: space_len_end_def)
      next
        case nsp: False
        then obtain w where w: "find (has_prefix (s @ [c])) (map rev wide_spaces) = Some w"
          using False Cons by (auto simp: space_len_end_def split: option.splits)
        then have len: "?n = length w"
          using nsp Cons by (simp add: space_len_end_def)
        have pre: "has_prefix (s @ [c]) w" and mem: "w \<in> set (map rev wide_spaces)"
          using w by (auto simp: find_Some_iff)
        obtain t where t: "s @ [c] = w @ t"
          using pre by (auto simp: has_prefix_iff)
        have "\<forall>x \<in> set w. 128 \<le> bval x"
          using mem wide_spaces_bytes by auto
        then have "c \<notin> set w" using assms(1) by auto
        with t have "t \<noteq> []" by (metis append_Nil2 in_set_conv_decomp)
        with t have "length w < length (s @ [c])" by (simp add: t)
        with len show ?thesis by simp
      qed
    qed
    then have "drop ?n (s @ [c]) = drop ?n s @ [c]" by simp
    moreover have "length (drop ?n s) < length s"
      using False \<open>?n \<le> length s\<close> by simp
    ultimately show ?thesis
      using "1" False by (subst trim_left.simps) auto
  qed
qed

lemma TrimSpace_hd:
  assumes "bval c < 128" "\<not> ascii_space c"
  shows "\<exists>t. TrimSpace (c # s) = c # t"
proof -
  obtain t where "trim_left space_len_end (rev s @ [c]) = t @ [c]"
    using trim_left_end_hd [OF assms] by blast
  then show ?thesis
    by (simp add: TrimSpace_def trim_left_id space_len_0 assms)
qed

text \<open>HintType on a message whose first byte is not white space.\<close>

lemma HintType_Cons:
  assumes "bval c < 128" "\<not> ascii_space c"
  shows "HintType (c # s) =
       (if c = CHR ''['' then TypeArray
        else if c = CHR ''{'' then TypeObject
        else if c = CHR ''t'' \<or> c = CHR ''f'' then TypeBool
        else if c = CHR ''-'' \<or> is_digit c then TypeNumber
        else if c = CHR 0x22 then TypeString
        else if c = CHR ''n'' then TypeNull
        else TypeUnknown)"
proof -
  obtain t where "TrimSpace (c # s) = c # t"
    using TrimSpace_hd [OF assms, of s] by blast
  then show ?thesis by (simp add: HintType_def del: One_nat_def)
qed

lemma HintType_simps [simp]:
  "HintType (CHR ''['' # s) = TypeArray"
  "HintType (CHR ''{'' # s) = TypeObject"
  "HintType (CHR ''t'' # s) = TypeBool"
  "HintType (CHR ''f'' # s) = TypeBool"
  "HintType (CHR ''-'' # s) = TypeNumber"
  "HintType (CHR 0x22 # s) = TypeString"
  "HintType (CHR ''n'' # s) = TypeNull"
  "HintType [] = TypeEmpty"
  by (subst HintType_Cons; simp add: ascii_space_def is_digit_def)+
     (simp add: HintType_def TrimSpace_def)

lemma HintType_digit [simp]: "is_digit c \<Longrightarrow> HintType (c # s) = TypeNumber"
  by (subst HintType_Cons) (auto simp: is_digit_def ascii_space_def)

end
