(* ===== verification/JsonValid.thy ===== *)
theory JsonValid
  imports TypeHints
begin

text \<open>
  The texts the package writes for strings and integers are valid JSON values of their kind,
  with nothing to trim: what the round trips of the component theories rest on.
\<close>

subsection \<open>Quoted strings\<close>

lemma quiet_quote_ascii:
  assumes "bval c < 128"
  shows "quiet_run (StInString, ps) (quote_ascii c) = Some (StInString, ps)"
proof -
  have h: "is_hex (hex_digit (bval c div 16))" "is_hex (hex_digit (bval c mod 16))"
    using hex_digit_props [of "bval c div 16"] hex_digit_props [of "bval c mod 16"] assms by auto
  have z: "is_hex CHR ''0''" by (simp add: is_hex_def is_digit_def)
  show ?thesis
    by (auto simp: quote_ascii_def h z)
qed

lemma quiet_high:
  "\<forall>x \<in> set s. 128 \<le> bval x \<Longrightarrow> quiet_run (StInString, ps) s = Some (StInString, ps)"
proof (induction s)
  case (Cons x xs)
  then have "128 \<le> bval x" by simp
  then have "x \<noteq> CHR 0x22" "x \<noteq> CHR 0x5C" "\<not> bval x < 32" by auto
  with Cons show ?case by simp
qed simp

lemma rune_bytes_high:
  assumes "1 < rune_len s"
  shows "\<forall>x \<in> set (take (rune_len s) s). 128 \<le> bval x"
  using rune_len_cases [of s]
proof (elim disjE conjE)
  assume n: "rune_len s = 2" and "rune2 s"
  then obtain a b t where "s = a # b # t" by (elim rune2_E)
  with n \<open>rune2 s\<close> show ?thesis by (simp add: cont_def eval_nat_numeral)
next
  assume n: "rune_len s = 3" and "rune3 s"
  then obtain a b c t where "s = a # b # c # t" by (elim rune3_E)
  with n \<open>rune3 s\<close> show ?thesis by (simp add: cont_def eval_nat_numeral)
next
  assume n: "rune_len s = 4" and "rune4 s"
  then obtain a b c d t where "s = a # b # c # d # t" by (elim rune4_E)
  with n \<open>rune4 s\<close> show ?thesis by (simp add: cont_def eval_nat_numeral)
qed (use assms in simp_all)

lemma quiet_quote_body: "quiet_run (StInString, ps) (quote_body s) = Some (StInString, ps)"
proof (induction s rule: quote_body.induct)
  case 1
  show ?case by (simp add: quote_body.simps)
next
  case (2 c cs)
  consider "bval c < 128" | "128 \<le> bval c" "rune_len (c # cs) = 0"
    | "128 \<le> bval c" "rune_len (c # cs) \<noteq> 0" "is_line_sep (c # cs)"
    | "128 \<le> bval c" "rune_len (c # cs) \<noteq> 0" "\<not> is_line_sep (c # cs)"
    by fastforce
  then show ?case
  proof cases
    case 1
    then show ?thesis
      using "2.IH"(1) by (simp add: quote_body.simps quiet_run_append quiet_quote_ascii)
  next
    case 2
    have "is_hex CHR ''f''" "is_hex CHR ''d''" by (simp_all add: is_hex_def)
    then show ?thesis
      using 2 "2.IH"(2) by (simp add: quote_body.simps)
  next
    case 3
    have "is_hex (hex_digit (bval (cs ! 1) mod 16))" "is_hex CHR ''2''" "is_hex CHR ''0''"
      using hex_digit_props [of "bval (cs ! 1) mod 16"] by (simp_all add: is_hex_def is_digit_def)
    then show ?thesis
      using 3 "2.IH"(3) by (simp add: quote_body.simps)
  next
    case 4
    then have "1 < rune_len (c # cs)"
      using rune_len_cases [of "c # cs"] by auto
    then show ?thesis
      using 4 "2.IH"(4) rune_bytes_high [of "c # cs"]
      by (simp add: quote_body.simps quiet_run_append quiet_high del: quiet_run.simps)
  qed
qed

lemma sc_run_quote_body: "sc_run (StInString, ps) (quote_body s) = (StInString, ps)"
  by (rule quiet_sc_run) (rule quiet_quote_body)

lemma quote_valid: "json_valid (quote s)"
  by (simp add: json_valid_def check_valid_def quote_def sc_reset_def begin_value_def is_space_def
      sc_run_quote_body sc_eof_def end_top_def)

lemma kind_quote [simp]: "kind_of (quote s) = KString"
  by (simp add: kind_of_def quote_def)

lemma HintType_quote [simp]: "HintType (quote s) = TypeString"
  by (simp add: quote_def)

lemma jtrim_id:
  assumes "s \<noteq> []" "\<not> is_space (hd s)" "\<not> is_space (last s)"
  shows "jtrim s = s"
proof -
  have "ltrim s = s"
    using assms(1,2) by (cases s) (simp_all add: ltrim_def)
  moreover have "dropWhile is_space (rev s) = rev s"
    using assms(1,3) by (cases "rev s") (simp_all add: last_rev flip: hd_rev)
  ultimately show ?thesis by (simp add: jtrim_def)
qed

lemma jtrim_quote [simp]: "jtrim (quote s) = quote s"
  by (rule jtrim_id) (simp_all add: quote_def is_space_def)

lemma checked_quote [simp]: "checked (quote s) = Inr (quote s)"
  using quote_valid [of s] by (simp add: checked_def json_valid_def)

lemma unmarshal_string_quote: "valid_utf8 s \<Longrightarrow> unmarshal_string (quote s) = Inr s"
  by (simp add: unmarshal_string_def set_string_def unquote_quote)

subsection \<open>Integers\<close>

lemma quiet_St1_digits: "list_all is_digit s \<Longrightarrow> quiet_run (St1, ps) s = Some (St1, ps)"
  by (induction s) auto

lemma show_nat_first:
  "n \<noteq> 0 \<Longrightarrow> \<exists>c cs. show_nat n = c # cs \<and> is_digit c \<and> c \<noteq> CHR ''0'' \<and> list_all is_digit cs"
proof (induction n rule: show_nat.induct)
  case (1 n)
  show ?case
  proof (cases "n < 10")
    case True
    then have "digit_char n \<noteq> CHR ''0''"
      using digit_char_props [of n] "1.prems" by (auto simp: digit_val_def)
    with True show ?thesis
      by (simp add: show_nat.simps [of n] digit_char_props)
  next
    case False
    then have "n div 10 \<noteq> 0" by simp
    with False "1.IH" obtain c cs where "show_nat (n div 10) = c # cs \<and> is_digit c
        \<and> c \<noteq> CHR ''0'' \<and> list_all is_digit cs" by blast
    with False show ?thesis
      by (simp add: show_nat.simps [of n] digit_char_props)
  qed
qed

lemma show_nat_0: "show_nat 0 = ''0''"
  by (simp add: show_nat.simps digit_char_def)

lemma digit_not_space: "is_digit c \<Longrightarrow> \<not> is_space c"
  by (auto simp: is_digit_def is_space_def)

text \<open>From the state after an optional minus sign, the digits of a number reach a number state.\<close>

lemma quiet_show_nat:
  assumes "st = StBeginValue \<or> st = StNeg"
  shows "\<exists>s. quiet_run (st, ps) (show_nat n) = Some (s, ps) \<and> (s = St0 \<or> s = St1)"
proof (cases "n = 0")
  case True
  then show ?thesis
    using assms by (auto simp: show_nat_0 begin_value_def is_space_def)
next
  case False
  then obtain c cs where c: "show_nat n = c # cs" "is_digit c" "c \<noteq> CHR ''0''" "list_all is_digit cs"
    using show_nat_first by blast
  have "c \<noteq> CHR ''{''" "c \<noteq> CHR ''[''" "c \<noteq> CHR 0x22" "c \<noteq> CHR ''-''" "c \<noteq> CHR ''t''"
    "c \<noteq> CHR ''f''" "c \<noteq> CHR ''n''"
    using c(2) by (auto simp: is_digit_def)
  then show ?thesis
    using assms c by (auto simp: begin_value_def digit_not_space quiet_St1_digits)
qed

lemma quiet_show_int:
  "\<exists>s. quiet_run (StBeginValue, ps) (show_int i) = Some (s, ps) \<and> (s = St0 \<or> s = St1)"
  using quiet_show_nat [of StBeginValue ps "nat i"] quiet_show_nat [of StNeg ps "nat (- i)"]
  by (simp add: show_int_def begin_value_def is_space_def)

lemma show_int_valid: "json_valid (show_int i)"
proof -
  obtain s where "sc_run (StBeginValue, []) (show_int i) = (s, [])" "s = St0 \<or> s = St1"
    using quiet_show_int [of "[]" i] quiet_sc_run by blast
  then show ?thesis
    by (auto simp: json_valid_def check_valid_def sc_reset_def sc_eof_def end_top_def is_space_def is_digit_def)
qed

lemma show_nat_ends: "show_nat n \<noteq> [] \<and> is_digit (hd (show_nat n)) \<and> is_digit (last (show_nat n))"
  using show_nat_digits [of n] by (auto simp: list_all_iff)

lemma jtrim_show_int [simp]: "jtrim (show_int i) = show_int i"
  using show_nat_ends [of "nat i"] show_nat_ends [of "nat (- i)"]
  by (intro jtrim_id) (auto simp: show_int_def digit_not_space, simp_all add: is_space_def)

lemma kind_digit:
  assumes "is_digit c"
  shows "kind_of (c # cs) = KNumber"
proof -
  from assms have "c \<noteq> CHR ''{''" "c \<noteq> CHR ''[''" "c \<noteq> CHR 0x22" "c \<noteq> CHR ''t''" "c \<noteq> CHR ''f''" "c \<noteq> CHR ''n''"
    by (auto simp: is_digit_def)
  then show ?thesis by (simp add: kind_of_def)
qed

lemma kind_show_int [simp]: "kind_of (show_int i) = KNumber"
proof (cases "i < 0")
  case True
  then show ?thesis by (simp add: show_int_def kind_of_def)
next
  case False
  then show ?thesis
    using show_nat_ends [of "nat i"] by (cases "show_nat (nat i)") (simp_all add: show_int_def kind_digit)
qed

lemma HintType_show_int [simp]: "HintType (show_int i) = TypeNumber"
proof (cases "i < 0")
  case True
  then show ?thesis by (simp add: show_int_def)
next
  case False
  then show ?thesis
    using show_nat_ends [of "nat i"] by (cases "show_nat (nat i)") (simp_all add: show_int_def)
qed

lemma checked_show_int [simp]: "checked (show_int i) = Inr (show_int i)"
  using show_int_valid [of i] by (simp add: checked_def json_valid_def)

lemma unmarshal_number_show_int: "unmarshal_number (show_int i) = Inr (show_int i)"
  by (simp add: unmarshal_number_def)

lemma valid_number_show_int [simp]: "valid_number (show_int i)"
  by (simp add: valid_number_def show_int_valid)

subsection \<open>Number literals\<close>

lemma unmarshal_number_valid: "valid_number n \<Longrightarrow> unmarshal_number n = Inr n"
  by (auto simp: valid_number_def unmarshal_number_def checked_def json_valid_def)

text \<open>A valid number literal starts with a digit or a minus sign.\<close>

lemma valid_number_first:
  assumes "valid_number n"
  shows "\<exists>c cs. n = c # cs \<and> (c = CHR ''-'' \<or> is_digit c)"
proof -
  obtain c cs where n: "n = c # cs"
    using assms by (cases n) (simp_all add: valid_number_def kind_of_def)
  have nsp: "\<not> is_space c"
  proof
    assume "is_space c"
    have "length (dropWhile is_space cs) < length n"
      using length_dropWhile_le [of is_space cs] n by simp
    then have "length (jtrim n) < length n"
      using \<open>is_space c\<close> n length_dropWhile_le [of is_space "rev (dropWhile is_space cs)"]
      by (simp add: jtrim_def ltrim_def)
    with assms show False by (simp add: valid_number_def)
  qed
  have "c \<noteq> CHR ''{''" "c \<noteq> CHR ''[''" "c \<noteq> CHR 0x22" "c \<noteq> CHR ''t''" "c \<noteq> CHR ''f''" "c \<noteq> CHR ''n''"
    using assms n by (auto simp: valid_number_def kind_of_def)
  moreover have "\<exists>s ps. fst (sc_step sc_reset c) = (s, ps) \<and> \<not> (\<exists>m. s = StError m)"
  proof (rule ccontr)
    assume "\<not> ?thesis"
    then obtain m ps where "fst (sc_step sc_reset c) = (StError m, ps)"
      by (cases "fst (sc_step sc_reset c)") auto
    with assms n show False
      by (simp add: valid_number_def json_valid_def check_valid_def sc_eof_def)
  qed
  ultimately show ?thesis
    using nsp n by (auto simp: sc_reset_def begin_value_def serror_def is_digit_def split: if_splits)
qed

lemma HintType_valid_number: "valid_number n \<Longrightarrow> HintType n = TypeNumber"
  using valid_number_first by fastforce

subsection \<open>The type hint of a valid text is its kind\<close>

fun hint_kind :: "TypeHint \<Rightarrow> jkind option" where
  "hint_kind TypeObject = Some KObject"
| "hint_kind TypeArray = Some KArray"
| "hint_kind TypeString = Some KString"
| "hint_kind TypeNumber = Some KNumber"
| "hint_kind TypeBool = Some KBool"
| "hint_kind TypeNull = Some KNull"
| "hint_kind h = None"

lemma space_ascii: "is_space c \<Longrightarrow> ascii_space c"
  by (auto simp: is_space_def ascii_space_def)

lemma HintType_space: "is_space c \<Longrightarrow> HintType (c # s) = HintType s"
  by (simp add: HintType_def TrimSpace_def trim_left.simps [of space_len "c # s"] space_len_def space_ascii)

lemma HintType_ltrim: "HintType (ltrim d) = HintType d"
  by (induction d) (simp_all add: ltrim_def HintType_space)

definition value_start :: "char \<Rightarrow> bool" where
  "value_start c \<longleftrightarrow> c \<in> set ''{[-tfn'' \<or> c = CHR 0x22 \<or> is_digit c"

lemma begin_value_start:
  "\<not> is_space c \<Longrightarrow> \<not> value_start c \<Longrightarrow> \<exists>m. fst (begin_value c ps) = (StError m, ps)"
  by (cases "c = CHR ''0''") (simp_all add: begin_value_def value_start_def serror_def is_digit_def)

lemma valid_start:
  "json_valid d \<Longrightarrow> \<exists>c s. ltrim d = c # s \<and> value_start c"
proof (induction d)
  case Nil
  then show ?case
    by (simp add: json_valid_def check_valid_def sc_reset_def sc_eof_def begin_value_def is_space_def)
next
  case (Cons c d)
  show ?case
  proof (cases "is_space c")
    case True
    then have "json_valid d"
      using Cons.prems by (simp add: json_valid_def check_valid_def sc_reset_def begin_value_def)
    with True Cons.IH show ?thesis by (simp add: ltrim_def)
  next
    case False
    have "value_start c"
    proof (rule ccontr)
      assume "\<not> value_start c"
      from begin_value_start [OF False this, of "[]"] Cons.prems
      show False by (auto simp: json_valid_def check_valid_def sc_reset_def sc_eof_def)
    qed
    with False show ?thesis by (simp add: ltrim_def)
  qed
qed

lemma start_not_space: "value_start c \<Longrightarrow> \<not> is_space c"
  by (auto simp: value_start_def is_space_def is_digit_def)

lemma jtrim_first: "ltrim d = c # s \<Longrightarrow> \<not> is_space c \<Longrightarrow> \<exists>t. jtrim d = c # t"
proof -
  assume d: "ltrim d = c # s" "\<not> is_space c"
  then have "jtrim d = rev (dropWhile is_space (rev s @ [c]))" by (simp add: jtrim_def)
  also have "dropWhile is_space (rev s @ [c]) = dropWhile is_space (rev s) @ [c]"
    using d(2) by (simp add: dropWhile_append)
  finally show ?thesis by simp
qed

lemma HintType_start: "value_start c \<Longrightarrow> hint_kind (HintType (c # s)) = Some (kind_of (c # t))"
proof (cases "is_digit c")
  case True
  then show ?thesis by (simp add: kind_digit)
next
  case False
  assume "value_start c"
  with False have "c = CHR ''{'' \<or> c = CHR ''['' \<or> c = CHR ''-'' \<or> c = CHR ''t'' \<or> c = CHR ''f''
      \<or> c = CHR ''n'' \<or> c = CHR 0x22"
    by (simp add: value_start_def)
  then show ?thesis
    by (elim disjE) (simp_all add: kind_of_def)
qed

lemma HintType_kind:
  assumes "json_valid d"
  shows "hint_kind (HintType d) = Some (kind_of (jtrim d))"
proof -
  obtain c s where c: "ltrim d = c # s" "value_start c" using valid_start [OF assms] by blast
  obtain t where "jtrim d = c # t" using jtrim_first [OF c(1) start_not_space [OF c(2)]] by blast
  then show ?thesis
    using HintType_start [OF c(2), of s t] HintType_ltrim [of d] c(1) by simp
qed

end
