(* ===== verification/Ids.thy ===== *)
theory Ids
  imports JsonValid
begin

text \<open>
  id.go: the request identifier. The struct's \<^verbatim>\<open>value\<close> holds nil, an int64, a string or a
  \<^verbatim>\<open>json.Number\<close>; \<^verbatim>\<open>present\<close> tells an identifier that was set from the zero
  value. The lemmas show when two identifiers are equal, that equality is symmetric and
  reflexive on present identifiers, and that an identifier survives the wire.
\<close>

datatype idval = IdNil | IdInt int | IdStr bytes | IdNum bytes

record ID =
  id_value :: idval
  id_present :: bool

definition zero_ID :: ID where
  "zero_ID = \<lparr>id_value = IdNil, id_present = False\<rparr>"

definition NewID :: "idval \<Rightarrow> ID" where
  "NewID v = \<lparr>id_value = v, id_present = True\<rparr>"

definition NewNullID :: ID where
  "NewNullID = \<lparr>id_value = IdNil, id_present = True\<rparr>"

definition ID_IsZero :: "ID \<Rightarrow> bool" where
  "ID_IsZero i \<longleftrightarrow> \<not> id_present i"

definition ID_IsNull :: "ID \<Rightarrow> bool" where
  "ID_IsNull i \<longleftrightarrow> id_present i \<and> id_value i = IdNil"

definition ID_Value :: "ID \<Rightarrow> idval" where
  "ID_Value i = (if \<not> id_present i then IdNil else id_value i)"

text \<open>The accessors return a value and an \<^verbatim>\<open>ok\<close> flag.\<close>

definition ID_String :: "ID \<Rightarrow> bytes \<times> bool" where
  "ID_String i = (if \<not> id_present i then ([], False)
     else case id_value i of IdStr s \<Rightarrow> (s, True) | _ \<Rightarrow> ([], False))"

definition ID_Number :: "ID \<Rightarrow> bytes \<times> bool" where
  "ID_Number i = (if \<not> id_present i \<or> id_value i = IdNil then ([], False)
     else case id_value i of IdNum n \<Rightarrow> (n, True) | _ \<Rightarrow> ([], False))"

text \<open>\<^verbatim>\<open>json.Number.Int64\<close> with the text of its \<^verbatim>\<open>strconv\<close> error.\<close>

definition num_error_text :: "bytes \<Rightarrow> num_error \<Rightarrow> bytes" where
  "num_error_text s e = ''strconv.ParseInt: parsing '' @ [CHR 0x22] @ s @ [CHR 0x22] @
     (case e of NumSyntax \<Rightarrow> '': invalid syntax'' | NumRange \<Rightarrow> '': value out of range'')"

definition number_Int64 :: "bytes \<Rightarrow> go_error + int" where
  "number_Int64 n = (case parse_int64 n of
     Inl e \<Rightarrow> Inl (NumErr (num_error_text n e)) | Inr i \<Rightarrow> Inr i)"

definition ID_Int64 :: "ID \<Rightarrow> go_error + int" where
  "ID_Int64 i = (if \<not> id_present i then Inl (Sentinel ErrIDNotANumber)
     else case id_value i of
       IdInt n \<Rightarrow> Inr n
     | IdNum n \<Rightarrow> number_Int64 n
     | _ \<Rightarrow> Inl (Sentinel ErrIDNotANumber))"

definition ID_Equal :: "ID \<Rightarrow> ID \<Rightarrow> bool" where
  "ID_Equal i t =
     (if ID_IsZero i \<or> ID_IsZero t then False
      else if ID_IsNull i then ID_IsNull t
      else case id_value i of
        IdNum v \<Rightarrow>
          if snd (ID_Number t) then v = fst (ID_Number t)
          else (case ID_Int64 t of
                  Inr n \<Rightarrow> (case number_Int64 v of Inr vi \<Rightarrow> vi = n | Inl _ \<Rightarrow> False)
                | Inl _ \<Rightarrow> False)
      | IdInt v \<Rightarrow> (case ID_Int64 t of Inr n \<Rightarrow> v = n | Inl _ \<Rightarrow> False)
      | IdStr v \<Rightarrow> if snd (ID_String t) then v = fst (ID_String t) else False
      | IdNil \<Rightarrow> False)"

definition ID_UnmarshalJSON :: "ID \<Rightarrow> bytes \<Rightarrow> go_error + ID" where
  "ID_UnmarshalJSON i d =
     (case HintType d of
        TypeNull \<Rightarrow> Inr (i\<lparr>id_present := True\<rparr>)
      | TypeString \<Rightarrow>
          (case unmarshal_string d of
             Inl e \<Rightarrow> Inl (Wrapf [Wrap (Sentinel ErrDecoding), Txt '': '', Wrap e])
           | Inr s \<Rightarrow> Inr (i\<lparr>id_value := IdStr s, id_present := True\<rparr>))
      | TypeNumber \<Rightarrow>
          (case unmarshal_number d of
             Inl e \<Rightarrow> Inl (Wrapf [Wrap (Sentinel ErrDecoding), Txt '': '', Wrap e])
           | Inr n \<Rightarrow> Inr (i\<lparr>id_value := IdNum n, id_present := True\<rparr>))
      | _ \<Rightarrow> Inl (Wrapf [Wrap (Sentinel ErrDecoding), Txt '': invalid type for ID'']))"

fun idval_gval :: "idval \<Rightarrow> gval" where
  "idval_gval IdNil = GNil"
| "idval_gval (IdInt n) = GInt n"
| "idval_gval (IdStr s) = GStr s"
| "idval_gval (IdNum n) = GNumber n"

definition ID_MarshalJSON :: "ID \<Rightarrow> go_error + bytes" where
  "ID_MarshalJSON i =
     (if \<not> id_present i \<or> id_value i = IdNil then Inr ''null''
      else case marshal (idval_gval (id_value i)) of
        Inl e \<Rightarrow> Inl (Wrapf [Wrap (Sentinel ErrEncoding), Txt '': '', Wrap e])
      | Inr b \<Rightarrow> Inr b)"

subsection \<open>Equality\<close>

lemma ID_simps [simp, go_simps]:
  "ID_IsZero zero_ID" "\<not> ID_IsZero (NewID v)" "\<not> ID_IsZero NewNullID"
  "ID_IsNull NewNullID" "\<not> ID_IsNull zero_ID" "ID_IsNull (NewID v) \<longleftrightarrow> v = IdNil"
  "id_value (NewID v) = v" "id_present (NewID v)"
  by (simp_all add: ID_IsZero_def ID_IsNull_def zero_ID_def NewID_def NewNullID_def)

text \<open>Equality read as a table on the two values.\<close>

fun idval_equal :: "idval \<Rightarrow> idval \<Rightarrow> bool" where
  "idval_equal IdNil IdNil = True"
| "idval_equal (IdNum a) (IdNum b) = (a = b)"
| "idval_equal (IdNum a) (IdInt n) = (parse_int64 a = Inr n)"
| "idval_equal (IdInt n) (IdNum a) = (parse_int64 a = Inr n)"
| "idval_equal (IdInt m) (IdInt n) = (m = n)"
| "idval_equal (IdStr a) (IdStr b) = (a = b)"
| "idval_equal _ _ = False"

lemma ID_Equal_table:
  "ID_Equal i t \<longleftrightarrow> id_present i \<and> id_present t \<and> idval_equal (id_value i) (id_value t)"
  by (cases "id_value i"; cases "id_value t")
     (auto simp: ID_Equal_def ID_IsZero_def ID_IsNull_def ID_Number_def ID_Int64_def ID_String_def
        number_Int64_def split: sum.splits)

lemma idval_equal_sym: "idval_equal a b = idval_equal b a"
  by (cases a; cases b) auto

lemma idval_equal_refl [simp]: "idval_equal a a"
  by (cases a) auto

lemma ID_Equal_sym: "ID_Equal i t = ID_Equal t i"
  by (auto simp: ID_Equal_table idval_equal_sym)

lemma ID_Equal_present: "ID_Equal i t \<Longrightarrow> id_present i \<and> id_present t"
  by (simp add: ID_Equal_table)

lemma ID_Equal_refl: "ID_Equal i i \<longleftrightarrow> id_present i"
  by (simp add: ID_Equal_table)

lemma ID_Equal_zero [simp]: "\<not> ID_Equal zero_ID t" "\<not> ID_Equal t zero_ID"
  by (simp_all add: ID_Equal_table zero_ID_def)

subsection \<open>The wire\<close>

text \<open>The identifiers Go can hold: 64-bit integers, well-formed strings, number literals.\<close>

fun wf_idval :: "idval \<Rightarrow> bool" where
  "wf_idval IdNil = True"
| "wf_idval (IdInt n) = in_int64 n"
| "wf_idval (IdStr s) = valid_utf8 s"
| "wf_idval (IdNum n) = valid_number n"

fun wire_idval :: "idval \<Rightarrow> idval" where
  "wire_idval (IdInt n) = IdNum (show_int n)"
| "wire_idval v = v"

lemma ID_MarshalJSON_wf:
  assumes "id_present i" "wf_idval (id_value i)"
  shows "ID_MarshalJSON i = Inr (case id_value i of IdNil \<Rightarrow> ''null'' | IdInt n \<Rightarrow> show_int n
     | IdStr s \<Rightarrow> quote s | IdNum n \<Rightarrow> n)"
proof -
  have "n \<noteq> []" if "valid_number n" for n
    using valid_number_first [OF that] by auto
  then show ?thesis
    using assms by (cases "id_value i") (auto simp: ID_MarshalJSON_def)
qed

lemma ID_wire:
  assumes "id_present i" "wf_idval (id_value i)" "ID_MarshalJSON i = Inr b"
  shows "ID_UnmarshalJSON zero_ID b = Inr (NewID (wire_idval (id_value i)))"
  using assms ID_MarshalJSON_wf [OF assms(1,2)]
  by (cases "id_value i")
     (auto simp: ID_UnmarshalJSON_def unmarshal_string_quote unmarshal_number_show_int
       unmarshal_number_valid HintType_valid_number NewID_def zero_ID_def)

lemma idval_equal_wire: "wf_idval v \<Longrightarrow> idval_equal v (wire_idval v)"
  by (cases v) (auto simp: parse_show_int)

end
