(* ===== verification/Payload.thy ===== *)
theory Payload
  imports Ids
begin

text \<open>
  data.go, result.go, errordata.go, params.go, version.go and error.go: the containers a
  message is made of. A container decoded from JSON holds the raw text of its value; one built
  by the program holds a Go value. \<open>present\<close> flags tell a field that appeared from one that did not.
\<close>

subsection \<open>Data, Result and ErrorData\<close>

definition Data_RawMessage :: "data \<Rightarrow> bytes option" where
  "Data_RawMessage d = (case data_value d of GRaw raw \<Rightarrow> Some raw | _ \<Rightarrow> None)"

definition Data_Value :: "data \<Rightarrow> gval" where
  "Data_Value d = data_value d"

definition Data_TypeHint :: "data \<Rightarrow> TypeHint" where
  "Data_TypeHint d = (case data_value d of GRaw m \<Rightarrow> HintType m | _ \<Rightarrow> TypeNotJSON)"

text \<open>\<open>u\<close> is the library's decoding into the caller's variable.\<close>

definition Data_Unmarshal :: "(bytes \<Rightarrow> go_error + 'v) \<Rightarrow> data \<Rightarrow> go_error + 'v" where
  "Data_Unmarshal u d =
     (case data_value d of
        GRaw vt \<Rightarrow> u vt
      | GNil \<Rightarrow> Inl (Sentinel ErrEmptyData)
      | _ \<Rightarrow> Inl (Sentinel ErrNotRawMessage))"

definition Data_IsZero :: "data \<Rightarrow> bool" where
  "Data_IsZero d \<longleftrightarrow> \<not> data_present d"

definition Data_UnmarshalJSON :: "data \<Rightarrow> bytes \<Rightarrow> go_error + data" where
  "Data_UnmarshalJSON d b =
     (case unmarshal_raw b of
        Inl e \<Rightarrow> Inl (Wrapf [Txt ''failed to unmarshal into raw message: '', Wrap e])
      | Inr raw \<Rightarrow> Inr (d\<lparr>data_value := GRaw raw, data_present := True\<rparr>))"

definition Data_MarshalJSON :: "data \<Rightarrow> go_error + bytes" where
  "Data_MarshalJSON d = (if \<not> data_present d then Inr ''null'' else marshal (data_value d))"

definition NewResult :: "gval \<Rightarrow> data" where
  "NewResult v = \<lparr>data_value = v, data_present = True\<rparr>"

definition NewErrorData :: "gval \<Rightarrow> data" where
  "NewErrorData v = \<lparr>data_value = v, data_present = True\<rparr>"

subsection \<open>Params\<close>

record params =
  params_value :: gval

definition zero_params :: params where
  "zero_params = \<lparr>params_value = GNil\<rparr>"

definition NewParamsArray :: "gval \<Rightarrow> params" where
  "NewParamsArray v = \<lparr>params_value = v\<rparr>"

definition NewParamsObject :: "(bytes \<times> gval) list \<Rightarrow> params" where
  "NewParamsObject v = \<lparr>params_value = GMap v\<rparr>"

definition NewParamsRaw :: "bytes \<Rightarrow> params" where
  "NewParamsRaw v = NewParamsArray (GRaw v)"

definition Params_RawMessage :: "params \<Rightarrow> bytes option" where
  "Params_RawMessage p = (case params_value p of GRaw raw \<Rightarrow> Some raw | _ \<Rightarrow> None)"

definition Params_Value :: "params \<Rightarrow> gval" where
  "Params_Value p = params_value p"

definition Params_TypeHint :: "params \<Rightarrow> TypeHint" where
  "Params_TypeHint p = (case params_value p of GRaw m \<Rightarrow> HintType m | _ \<Rightarrow> TypeNotJSON)"

definition Params_Unmarshal :: "(bytes \<Rightarrow> go_error + 'v) \<Rightarrow> params \<Rightarrow> go_error + 'v" where
  "Params_Unmarshal u p =
     (case params_value p of GRaw raw \<Rightarrow> u raw | _ \<Rightarrow> Inl (Sentinel ErrNotRawMessage))"

definition Params_IsZero :: "params \<Rightarrow> bool" where
  "Params_IsZero p =
     (case params_value p of GNil \<Rightarrow> True | GRaw raw \<Rightarrow> raw = [] | _ \<Rightarrow> False)"

definition errInvalidParamDecode :: go_error where
  "errInvalidParamDecode =
     Wrapf [Wrap (Sentinel ErrDecoding), Txt '' ('', Wrap (Sentinel ErrInvalidParameters), Txt '')'']"

definition Params_UnmarshalJSON :: "params \<Rightarrow> bytes \<Rightarrow> go_error + params" where
  "Params_UnmarshalJSON p d =
     (if HintType d = TypeObject \<or> HintType d = TypeArray then
        (case unmarshal_raw d of
           Inl e \<Rightarrow> Inl (Wrapf [Wrap (Sentinel ErrDecoding), Txt '' ('', Wrap e, Txt '')''])
         | Inr raw \<Rightarrow> Inr (p\<lparr>params_value := GRaw raw\<rparr>))
      else Inl errInvalidParamDecode)"

definition Params_MarshalJSON :: "params \<Rightarrow> go_error + bytes" where
  "Params_MarshalJSON p = marshal (params_value p)"

subsection \<open>Version\<close>

definition ProtocolVersion :: bytes where
  "ProtocolVersion = ''2.0''"

record Version =
  ver_present :: bool

definition zero_Version :: Version where
  "zero_Version = \<lparr>ver_present = False\<rparr>"

definition errWrongProtoVerDecode :: go_error where
  "errWrongProtoVerDecode =
     Wrapf [Wrap (Sentinel ErrDecoding), Txt '' ('', Wrap (Sentinel ErrWrongProtocolVersion), Txt '')'']"

definition Version_IsValid :: "Version \<Rightarrow> bool" where
  "Version_IsValid v \<longleftrightarrow> ver_present v"

definition Version_UnmarshalJSON :: "Version \<Rightarrow> bytes \<Rightarrow> go_error + Version" where
  "Version_UnmarshalJSON v d =
     (case unmarshal_string d of
        Inl e \<Rightarrow> Inl (Wrapf [Wrap (Sentinel ErrDecoding),
            Txt ('': expected string '' @ [CHR 0x22] @ ''2.0'' @ [CHR 0x22] @ '' (''), Wrap e, Txt '')''])
      | Inr str \<Rightarrow>
          if str \<noteq> ProtocolVersion then Inl errWrongProtoVerDecode
          else Inr (v\<lparr>ver_present := True\<rparr>))"

definition Version_MarshalJSON :: "Version \<Rightarrow> go_error + bytes" where
  "Version_MarshalJSON v =
     (case marshal (GStr ProtocolVersion) of
        Inl e \<Rightarrow> Inl (Wrapf [Wrap (Sentinel ErrEncoding),
            Txt '': failed to marshal protocol version string ('', Wrap e, Txt '')''])
      | Inr buf \<Rightarrow> Inr buf)"

subsection \<open>Error\<close>

definition NewError :: "int \<Rightarrow> bytes \<Rightarrow> rpc_error" where
  "NewError c msg = \<lparr>err_present = True, err_code = c, err_message = msg, err_data = zero_data\<rparr>"

definition NewErrorWithData :: "int \<Rightarrow> bytes \<Rightarrow> gval \<Rightarrow> rpc_error" where
  "NewErrorWithData c msg d =
     \<lparr>err_present = True, err_code = c, err_message = msg, err_data = NewErrorData d\<rparr>"

definition ErrParseError :: rpc_error where
  "ErrParseError = NewError (-32700) ''Parse error''"

definition ErrInvalidRequest :: rpc_error where
  "ErrInvalidRequest = NewError (-32600) ''Invalid Request''"

definition ErrMethodNotFound :: rpc_error where
  "ErrMethodNotFound = NewError (-32601) ''Method not found''"

definition ErrInvalidParams :: rpc_error where
  "ErrInvalidParams = NewError (-32602) ''Invalid params''"

definition ErrInternalError :: rpc_error where
  "ErrInternalError = NewError (-32603) ''Internal error''"

definition ErrServerOverloaded :: rpc_error where
  "ErrServerOverloaded = NewError (-32000) ''Server overloaded''"

definition Error_WithData :: "rpc_error \<Rightarrow> gval \<Rightarrow> rpc_error" where
  "Error_WithData e d = NewErrorWithData (err_code e) (err_message e) d"

definition asError :: "go_error \<Rightarrow> rpc_error" where
  "asError e = (case errors_as_rpc e of
     Some je \<Rightarrow> je
   | None \<Rightarrow> Error_WithData ErrInternalError (GStr (error_text e)))"

definition Error_IsZero :: "rpc_error \<Rightarrow> bool" where
  "Error_IsZero e \<longleftrightarrow> \<not> err_present e"

definition Error_Error :: "rpc_error \<Rightarrow> bytes" where
  "Error_Error e = err_message e"

text \<open>The temporary struct of \<^verbatim>\<open>Error.UnmarshalJSON\<close>, and its decoding.\<close>

record error_tmp =
  tmp_data :: data
  tmp_message :: bytes
  tmp_code :: int

definition error_tmp_setter :: "error_tmp setter" where
  "error_tmp_setter n v s =
     (if n = ''data'' then rmap (\<lambda>d. (s\<lparr>tmp_data := d\<rparr>, None)) (Data_UnmarshalJSON (tmp_data s) v)
      else if n = ''message'' then
        (case set_string (Some ([], n)) v (tmp_message s) of (x, e) \<Rightarrow> Inr (s\<lparr>tmp_message := x\<rparr>, e))
      else (case set_int64 (Some ([], n)) v (tmp_code s) of (x, e) \<Rightarrow> Inr (s\<lparr>tmp_code := x\<rparr>, e)))"

definition error_tmp_type :: bytes where
  "error_tmp_type = ''struct { Data jsonrpc2.Data '' @ quote (''json:'' @ quote ''data,omitempty'') @
     ''; Message string '' @ quote (''json:'' @ quote ''message'') @
     ''; Code int64 '' @ quote (''json:'' @ quote ''code'') @ '' }''"

definition Error_UnmarshalJSON :: "rpc_error \<Rightarrow> bytes \<Rightarrow> go_error + rpc_error" where
  "Error_UnmarshalJSON e b =
     rmap (\<lambda>tmp. e\<lparr>err_present := True, err_code := tmp_code tmp, err_message := tmp_message tmp,
                 err_data := tmp_data tmp\<rparr>)
       (unmarshal_struct [''data'', ''message'', ''code''] error_tmp_setter error_tmp_type
          \<lparr>tmp_data = zero_data, tmp_message = [], tmp_code = 0\<rparr> b)"

subsection \<open>Struct encoding\<close>

text \<open>The fields of a struct in declaration order; an omitted field is \<open>None\<close>.\<close>

definition marshal_fields :: "(bytes \<times> (go_error + bytes) option) list \<Rightarrow> go_error + bytes" where
  "marshal_fields fs =
     (let kept = List.map_filter (\<lambda>(k, v). map_option (Pair k) v) fs in
      rmap (\<lambda>vs. json_object (zip (map fst kept) vs)) (mapM snd kept))"

definition marshal_error :: "rpc_error \<Rightarrow> go_error + bytes" where
  "marshal_error e = marshal_fields
     [(''code'', Some (marshal (GInt (err_code e)))),
      (''message'', Some (marshal (GStr (err_message e)))),
      (''data'', if Data_IsZero (err_data e) then None
                 else Some (via_marshaler ''jsonrpc2.Data'' (Data_MarshalJSON (err_data e))))]"

subsection \<open>Facts\<close>

lemma NewError_simps [simp, go_simps]:
  "err_present (NewError c m)" "err_code (NewError c m) = c" "err_message (NewError c m) = m"
  "err_data (NewError c m) = zero_data"
  "err_present (NewErrorWithData c m d)" "err_code (NewErrorWithData c m d) = c"
  "err_message (NewErrorWithData c m d) = m" "err_data (NewErrorWithData c m d) = NewErrorData d"
  "err_present (Error_WithData e d)" "err_code (Error_WithData e d) = err_code e"
  "err_message (Error_WithData e d) = err_message e"
  "err_data (Error_WithData e d) = NewErrorData d"
  by (simp_all add: NewError_def NewErrorWithData_def Error_WithData_def)

lemma predefined_codes [simp, go_simps]:
  "err_code ErrParseError = -32700" "err_code ErrInvalidRequest = -32600"
  "err_code ErrMethodNotFound = -32601" "err_code ErrInvalidParams = -32602"
  "err_code ErrInternalError = -32603" "err_code ErrServerOverloaded = -32000"
  "err_present ErrParseError" "err_present ErrInvalidRequest" "err_present ErrMethodNotFound"
  "err_present ErrInvalidParams" "err_present ErrInternalError" "err_present ErrServerOverloaded"
  by (simp_all add: ErrParseError_def ErrInvalidRequest_def ErrMethodNotFound_def
      ErrInvalidParams_def ErrInternalError_def ErrServerOverloaded_def)

lemma NewResult_simps [simp, go_simps]:
  "data_present (NewResult v)" "data_value (NewResult v) = v" "\<not> Data_IsZero (NewResult v)"
  "data_present (NewErrorData v)" "data_value (NewErrorData v) = v" "Data_IsZero zero_data"
  "\<not> data_present zero_data" "data_value zero_data = GNil"
  by (simp_all add: NewResult_def NewErrorData_def Data_IsZero_def zero_data_def)

lemma first_some_Some: "first_some xs = Some x \<longleftrightarrow> (\<exists>as bs. xs = as @ Some x # bs \<and> (\<forall>a \<in> set as. a = None))"
proof (induction xs rule: first_some.induct)
  case (2 y xs)
  show ?case
    by (auto simp: Cons_eq_append_conv)
next
  case (3 xs)
  then show ?case
    by (fastforce simp: Cons_eq_append_conv)
qed simp

lemma asError_present:
  assumes "\<And>je. errors_as_rpc e = Some je \<Longrightarrow> err_present je"
  shows "err_present (asError e)"
  using assms by (auto simp: asError_def split: option.splits)

lemma Error_UnmarshalJSON_present: "Error_UnmarshalJSON e b = Inr e' \<Longrightarrow> err_present e'"
  by (auto simp: Error_UnmarshalJSON_def rmap_Inr_iff)

lemma ID_UnmarshalJSON_present: "ID_UnmarshalJSON i d = Inr i' \<Longrightarrow> id_present i'"
  by (auto simp: ID_UnmarshalJSON_def split: TypeHint.splits sum.splits)

lemma Data_UnmarshalJSON_present:
  "Data_UnmarshalJSON d b = Inr d' \<Longrightarrow> data_present d' \<and> data_value d' = GRaw (jtrim b) \<and> json_valid b"
  by (auto simp: Data_UnmarshalJSON_def unmarshal_raw_def dest: checked_raw split: sum.splits)

lemma Params_UnmarshalJSON_raw:
  "Params_UnmarshalJSON p d = Inr p' \<Longrightarrow>
   params_value p' = GRaw (jtrim d) \<and> (HintType d = TypeObject \<or> HintType d = TypeArray)"
  by (auto simp: Params_UnmarshalJSON_def unmarshal_raw_def dest: checked_raw split: if_splits sum.splits)

lemma Version_MarshalJSON_eq: "Version_MarshalJSON v = Inr (quote ProtocolVersion)"
  by (simp add: Version_MarshalJSON_def)

lemma ascii_quote_body: "list_all (\<lambda>c. bval c < 128) s \<Longrightarrow> valid_utf8 s"
proof (induction s)
  case (Cons c cs)
  then have "rune_len (c # cs) = Suc 0" by (simp add: rune_len_def)
  with Cons show ?case by (subst valid_utf8.simps) simp
qed (simp add: valid_utf8.simps)

lemma Version_wire: "Version_UnmarshalJSON zero_Version (quote ProtocolVersion) = Inr \<lparr>ver_present = True\<rparr>"
proof -
  have "valid_utf8 ProtocolVersion"
    by (rule ascii_quote_body) (simp add: ProtocolVersion_def)
  then show ?thesis
    by (simp add: Version_UnmarshalJSON_def unmarshal_string_quote zero_Version_def)
qed

end
