(* ===== verification/Messages.thy ===== *)
theory Messages
  imports Payload
begin

text \<open>
  request.go, notification.go, response.go and raw.go: the three kinds of message, their
  constructors, their classification, and their encoding to and decoding from JSON text with
  the struct tags of the source. The Go type \<^verbatim>\<open>Notification\<close> has \<^verbatim>\<open>Request\<close> as its
  underlying type and is the same record here; a nil pointer is \<open>None\<close>.
\<close>

subsection \<open>The records\<close>

record Request =
  req_jsonrpc :: Version
  req_method :: bytes
  req_params :: params
  req_id :: ID

type_synonym Notification = Request

text \<open>Messages that are already encoded (raw.go): names of \<^verbatim>\<open>json.RawMessage\<close>.\<close>

type_synonym RawRequest = bytes
type_synonym RawNotification = bytes
type_synonym RawResponse = bytes

record Response =
  resp_jsonrpc :: Version
  resp_result :: data
  resp_error :: rpc_error
  resp_id :: ID

definition zero_Request :: Request where
  "zero_Request = \<lparr>req_jsonrpc = zero_Version, req_method = [], req_params = zero_params, req_id = zero_ID\<rparr>"

definition zero_Response :: Response where
  "zero_Response =
     \<lparr>resp_jsonrpc = zero_Version, resp_result = zero_data, resp_error = zero_error, resp_id = zero_ID\<rparr>"

subsection \<open>Requests and notifications\<close>

definition NewRequest :: "idval \<Rightarrow> bytes \<Rightarrow> Request" where
  "NewRequest i m = zero_Request\<lparr>req_method := m, req_id := NewID i\<rparr>"

definition NewRequestWithParams :: "idval \<Rightarrow> bytes \<Rightarrow> params \<Rightarrow> Request" where
  "NewRequestWithParams i m p = zero_Request\<lparr>req_method := m, req_id := NewID i, req_params := p\<rparr>"

definition Request_ResponseWithError :: "Request \<Rightarrow> go_error \<Rightarrow> Response" where
  "Request_ResponseWithError r e = zero_Response\<lparr>resp_id := req_id r, resp_error := asError e\<rparr>"

definition Request_ResponseWithResult :: "Request \<Rightarrow> gval \<Rightarrow> Response" where
  "Request_ResponseWithResult r v = zero_Response\<lparr>resp_id := req_id r, resp_result := NewResult v\<rparr>"

definition Request_IsNotification :: "Request \<Rightarrow> bool" where
  "Request_IsNotification r \<longleftrightarrow> ID_IsZero (req_id r)"

definition Request_AsNotification :: "Request option \<Rightarrow> Notification option" where
  "Request_AsNotification r = (case r of None \<Rightarrow> None
     | Some q \<Rightarrow> if \<not> Request_IsNotification q then None else Some q)"

definition NewNotification :: "bytes \<Rightarrow> Notification" where
  "NewNotification m = zero_Request\<lparr>req_method := m\<rparr>"

definition NewNotificationWithParams :: "bytes \<Rightarrow> params \<Rightarrow> Notification" where
  "NewNotificationWithParams m p = zero_Request\<lparr>req_method := m, req_params := p\<rparr>"

definition Notification_AsRequest :: "Notification option \<Rightarrow> Request option" where
  "Notification_AsRequest n = (case n of None \<Rightarrow> None | Some q \<Rightarrow> Some q)"

subsection \<open>Responses\<close>

definition NewResponseWithResult :: "idval \<Rightarrow> gval \<Rightarrow> Response" where
  "NewResponseWithResult i r = zero_Response\<lparr>resp_id := NewID i, resp_result := NewResult r\<rparr>"

definition NewResponseWithError :: "idval \<Rightarrow> go_error \<Rightarrow> Response" where
  "NewResponseWithError i e = zero_Response\<lparr>resp_id := NewID i, resp_error := asError e\<rparr>"

definition NewResponseError :: "go_error \<Rightarrow> Response" where
  "NewResponseError e = zero_Response\<lparr>resp_id := NewNullID, resp_error := asError e\<rparr>"

definition Response_Unmarshal :: "(bytes \<Rightarrow> go_error + 'v) \<Rightarrow> Response \<Rightarrow> go_error + 'v" where
  "Response_Unmarshal u r =
     (if Error_IsZero (resp_error r) then Data_Unmarshal u (resp_result r)
      else Inl (Sentinel ErrResponseIsError))"

definition Response_UnmarshalError :: "(bytes \<Rightarrow> go_error + 'v) \<Rightarrow> Response \<Rightarrow> go_error + 'v" where
  "Response_UnmarshalError u r =
     (if Error_IsZero (resp_error r) then Inl (Sentinel ErrResponseNotError)
      else Data_Unmarshal u (err_data (resp_error r)))"

definition Response_IsError :: "Response \<Rightarrow> bool" where
  "Response_IsError r \<longleftrightarrow> \<not> Error_IsZero (resp_error r)"

subsection \<open>Decoding\<close>

definition request_fields :: "bytes list" where
  "request_fields = [''jsonrpc'', ''method'', ''params'', ''id'']"

definition request_setter :: "Request setter" where
  "request_setter n v r =
     (if n = ''jsonrpc'' then
        rmap (\<lambda>x. (r\<lparr>req_jsonrpc := x\<rparr>, None)) (Version_UnmarshalJSON (req_jsonrpc r) v)
      else if n = ''method'' then
        (case set_string (Some (''Request'', n)) v (req_method r) of
           (x, e) \<Rightarrow> Inr (r\<lparr>req_method := x\<rparr>, e))
      else if n = ''params'' then
        rmap (\<lambda>x. (r\<lparr>req_params := x\<rparr>, None)) (Params_UnmarshalJSON (req_params r) v)
      else rmap (\<lambda>x. (r\<lparr>req_id := x\<rparr>, None)) (ID_UnmarshalJSON (req_id r) v))"

definition unmarshal_request :: "bytes \<Rightarrow> go_error + Request" where
  "unmarshal_request d =
     unmarshal_struct request_fields request_setter ''jsonrpc2.Request'' zero_Request d"

definition response_fields :: "bytes list" where
  "response_fields = [''jsonrpc'', ''result'', ''error'', ''id'']"

definition response_setter :: "Response setter" where
  "response_setter n v r =
     (if n = ''jsonrpc'' then
        rmap (\<lambda>x. (r\<lparr>resp_jsonrpc := x\<rparr>, None)) (Version_UnmarshalJSON (resp_jsonrpc r) v)
      else if n = ''result'' then
        rmap (\<lambda>x. (r\<lparr>resp_result := x\<rparr>, None)) (Data_UnmarshalJSON (resp_result r) v)
      else if n = ''error'' then
        rmap (\<lambda>x. (r\<lparr>resp_error := x\<rparr>, None)) (Error_UnmarshalJSON (resp_error r) v)
      else rmap (\<lambda>x. (r\<lparr>resp_id := x\<rparr>, None)) (ID_UnmarshalJSON (resp_id r) v))"

definition unmarshal_response :: "bytes \<Rightarrow> go_error + Response" where
  "unmarshal_response d =
     unmarshal_struct response_fields response_setter ''jsonrpc2.Response'' zero_Response d"

text \<open>Into a \<^verbatim>\<open>*Response\<close>: null leaves a nil pointer. A batch is an array of such pointers; an
  error that is saved in one element lets the decoding of the others go on.\<close>

definition set_response_ptr :: "bytes \<Rightarrow> go_error + Response option \<times> go_error option" where
  "set_response_ptr raw =
     (if kind_of raw = KNull then Inr (None, None)
      else rmap (\<lambda>(r, e). (Some r, e))
             (set_struct response_fields response_setter ''jsonrpc2.Response'' raw zero_Response))"

definition unmarshal_response_ptr :: "bytes \<Rightarrow> go_error + Response option" where
  "unmarshal_response_ptr d = rbind (checked d) (\<lambda>raw. rbind (set_response_ptr raw) saved)"

definition unmarshal_responses :: "bytes \<Rightarrow> go_error + Response option list" where
  "unmarshal_responses d = rbind (checked d) (\<lambda>raw.
     case kind_of raw of
       KArray \<Rightarrow> rbind (mapM set_response_ptr (array_elems raw))
         (\<lambda>rs. saved (map fst rs, fold (\<lambda>r e. or_first e (snd r)) rs None))
     | KNull \<Rightarrow> Inr []
     | k \<Rightarrow> Inl (type_error (kind_text k) None ''jsonrpc2.Batch[*github.com/rrb3942/jsonrpc2.Response]''))"

subsection \<open>Encoding\<close>

definition marshal_request :: "Request \<Rightarrow> go_error + bytes" where
  "marshal_request r = marshal_fields
     [(''jsonrpc'', Some (via_marshaler ''jsonrpc2.Version'' (Version_MarshalJSON (req_jsonrpc r)))),
      (''method'', Some (marshal (GStr (req_method r)))),
      (''params'', if Params_IsZero (req_params r) then None
                   else Some (via_marshaler ''jsonrpc2.Params'' (Params_MarshalJSON (req_params r)))),
      (''id'', if ID_IsZero (req_id r) then None
               else Some (via_marshaler ''jsonrpc2.ID'' (ID_MarshalJSON (req_id r))))]"

definition marshal_response :: "Response \<Rightarrow> go_error + bytes" where
  "marshal_response r = marshal_fields
     [(''jsonrpc'', Some (via_marshaler ''jsonrpc2.Version'' (Version_MarshalJSON (resp_jsonrpc r)))),
      (''result'', if Data_IsZero (resp_result r) then None
                   else Some (via_marshaler ''jsonrpc2.Data'' (Data_MarshalJSON (resp_result r)))),
      (''error'', if Error_IsZero (resp_error r) then None else Some (marshal_error (resp_error r))),
      (''id'', Some (via_marshaler ''jsonrpc2.ID'' (ID_MarshalJSON (resp_id r))))]"

subsection \<open>Facts\<close>

lemma zero_message_simps [simp, go_simps]:
  "req_method zero_Request = []" "req_id zero_Request = zero_ID" "req_params zero_Request = zero_params"
  "resp_result zero_Response = zero_data" "resp_error zero_Response = zero_error"
  "resp_id zero_Response = zero_ID" "\<not> err_present zero_error" "Error_IsZero zero_error"
  by (simp_all add: zero_Request_def zero_Response_def zero_error_def Error_IsZero_def)

text \<open>A response is well formed when it carries exactly one of a result and an error.\<close>

definition wf_response :: "Response \<Rightarrow> bool" where
  "wf_response r \<longleftrightarrow> data_present (resp_result r) \<noteq> err_present (resp_error r)"

lemma wf_response_result [wf_intros]:
  "wf_response (Request_ResponseWithResult q v)" "wf_response (NewResponseWithResult i v)"
  by (simp_all add: wf_response_def Request_ResponseWithResult_def NewResponseWithResult_def)

lemma wf_response_error [wf_intros]:
  assumes "\<And>je. errors_as_rpc e = Some je \<Longrightarrow> err_present je"
  shows "wf_response (Request_ResponseWithError q e)" "wf_response (NewResponseWithError i e)"
    "wf_response (NewResponseError e)"
  using asError_present [OF assms]
  by (simp_all add: wf_response_def Request_ResponseWithError_def NewResponseWithError_def
      NewResponseError_def)

subsection \<open>Which members decide the kind of a request\<close>

definition resolves_to :: "bytes list \<Rightarrow> bytes \<Rightarrow> bytes \<Rightarrow> bool" where
  "resolves_to names n k = (case unquote k of None \<Rightarrow> False | Some key \<Rightarrow> find_field names key = Some n)"

text \<open>A predicate on the struct that one field's setter establishes, and the others keep, holds at the
  end exactly when it held before or a member resolved to that field.\<close>

lemma find_field_in: "find_field names k = Some n \<Longrightarrow> n \<in> set names"
  by (auto simp: find_field_def find_Some_iff split: if_splits)

lemma set_members_tracks:
  assumes "\<And>n v r r' e. f n v r = Inr (r', e) \<Longrightarrow> n \<in> set names \<Longrightarrow> P r' \<longleftrightarrow> n = n0 \<or> P r"
    and "set_members names f ms s = Inr s'"
  shows "P (fst s') \<longleftrightarrow> (\<exists>(k, v) \<in> set ms. resolves_to names n0 k) \<or> P (fst s)"
  using assms(2)
proof (induction ms arbitrary: s)
  case (Cons m ms)
  obtain k v where m: "m = (k, v)" by (cases m)
  show ?case
  proof (cases "case unquote k of None \<Rightarrow> None | Some key \<Rightarrow> find_field names key")
    case None
    then have "\<not> resolves_to names n0 k" and "set_members names f ms s = Inr s'"
      using Cons.prems m by (auto simp: resolves_to_def split: option.splits)
    with Cons.IH m show ?thesis by simp
  next
    case (Some n)
    then obtain key where key: "unquote k = Some key" "find_field names key = Some n"
      by (auto split: option.splits)
    then have "resolves_to names n0 k \<longleftrightarrow> n = n0"
      by (simp add: resolves_to_def)
    moreover obtain s1 where s1: "f n v (fst s) = Inr s1"
      and rest: "set_members names f ms (fst s1, or_first (snd s) (snd s1)) = Inr s'"
      using Cons.prems m key by (auto simp: rbind_Inr_iff)
    ultimately show ?thesis
      using Cons.IH [OF rest] assms(1) [of n v "fst s" "fst s1" "snd s1"] s1 m find_field_in [OF key(2)] by auto
  qed
qed simp

text \<open>The identifier and the version of a request are marked as present by their own members only.\<close>

lemma Version_UnmarshalJSON_present: "Version_UnmarshalJSON v d = Inr v' \<Longrightarrow> ver_present v'"
  by (auto simp: Version_UnmarshalJSON_def split: sum.splits if_splits)

lemma request_setter_id:
  assumes "request_setter n v r = Inr (r', e)" "n \<in> set request_fields"
  shows "id_present (req_id r') \<longleftrightarrow> n = ''id'' \<or> id_present (req_id r)"
  using assms
  by (auto simp: request_setter_def request_fields_def rmap_Inr_iff
      dest: ID_UnmarshalJSON_present split: if_splits prod.splits)

lemma request_setter_version:
  assumes "request_setter n v r = Inr (r', e)" "n \<in> set request_fields"
  shows "ver_present (req_jsonrpc r') \<longleftrightarrow> n = ''jsonrpc'' \<or> ver_present (req_jsonrpc r)"
  using assms
  by (auto simp: request_setter_def request_fields_def rmap_Inr_iff
      dest: Version_UnmarshalJSON_present split: if_splits prod.splits)

lemma saved_InrD: "saved s = Inr r \<Longrightarrow> fst s = r"
  by (auto simp: saved_def split: option.splits)

lemma unmarshal_request_members:
  assumes "unmarshal_request d = Inr r" "kind_of (jtrim d) = KObject"
  shows "Request_IsNotification r \<longleftrightarrow>
      \<not> (\<exists>(k, v) \<in> set (object_members (jtrim d)). resolves_to request_fields ''id'' k)"
    and "Version_IsValid (req_jsonrpc r) \<longleftrightarrow>
      (\<exists>(k, v) \<in> set (object_members (jtrim d)). resolves_to request_fields ''jsonrpc'' k)"
proof -
  obtain s where s: "set_members request_fields request_setter (object_members (jtrim d))
      (zero_Request, None) = Inr s" and r: "fst s = r"
    using assms
    by (auto simp: unmarshal_request_def unmarshal_struct_def rbind_Inr_iff set_struct_def
        dest!: checked_raw saved_InrD)
  show "Request_IsNotification r \<longleftrightarrow>
      \<not> (\<exists>(k, v) \<in> set (object_members (jtrim d)). resolves_to request_fields ''id'' k)"
    using set_members_tracks [of request_setter request_fields "\<lambda>r. id_present (req_id r)" "''id''", OF request_setter_id s] r
    by (simp add: Request_IsNotification_def ID_IsZero_def zero_ID_def)
  show "Version_IsValid (req_jsonrpc r) \<longleftrightarrow>
      (\<exists>(k, v) \<in> set (object_members (jtrim d)). resolves_to request_fields ''jsonrpc'' k)"
    using set_members_tracks [of request_setter request_fields "\<lambda>r. ver_present (req_jsonrpc r)" "''jsonrpc''", OF request_setter_version s] r
    by (simp add: Version_IsValid_def zero_Request_def zero_Version_def)
qed

end
