(* ===== verification/Handlers.thy ===== *)
theory Handlers
  imports Messages "HOL-Library.AList"
begin

text \<open>
  handler.go and callbacks.go: handlers, the method multiplexer and the server's callbacks.

  A handler is code of the user: a function of the context, the request and the state
  \<open>'w\<close> of the rest of the program, whose outcome is a result with an error or a panic. A
  multiplexer is itself a handler, so the two types are mutually recursive. The
  \<^verbatim>\<open>sync.Map\<close> of a multiplexer is an association list with distinct keys, and
  its lookups, insertions and deletions are atomic.
\<close>

subsection \<open>Contexts and outcomes\<close>

text \<open>A context as a call sees it: \<^verbatim>\<open>Err()\<close>, the deadline (in nanoseconds) and which of the
  package's keys have a value, with the sender's address itself.\<close>

record ctx =
  ctx_err :: "go_error option"
  ctx_deadline :: "int option"
  ctx_from_addr :: "bytes option"
  ctx_rpc_server :: bool
  ctx_net_conn :: bool
  ctx_packet_conn :: bool
  ctx_http_request :: bool

definition background :: ctx where
  "background = \<lparr>ctx_err = None, ctx_deadline = None, ctx_from_addr = None, ctx_rpc_server = False,
     ctx_net_conn = False, ctx_packet_conn = False, ctx_http_request = False\<rparr>"

text \<open>\<^verbatim>\<open>context.WithTimeout\<close> at the time \<open>now\<close>: the earlier of the two deadlines, and an
  expired context when the timeout is not positive. The matching \<^verbatim>\<open>stop\<close> frees the timer.\<close>

definition with_timeout :: "int \<Rightarrow> ctx \<Rightarrow> int \<Rightarrow> ctx" where
  "with_timeout now c d =
     (case ctx_deadline c of
        Some t \<Rightarrow> if t < now + d then c
                  else c\<lparr>ctx_deadline := Some (now + d), ctx_err :=
                    (if ctx_err c = None \<and> d \<le> 0 then Some (Sentinel DeadlineExceeded) else ctx_err c)\<rparr>
      | None \<Rightarrow> c\<lparr>ctx_deadline := Some (now + d), ctx_err :=
                  (if ctx_err c = None \<and> d \<le> 0 then Some (Sentinel DeadlineExceeded) else ctx_err c)\<rparr>)"

lemma with_timeout_deadline:
  "\<exists>t. ctx_deadline (with_timeout now c d) = Some t \<and> t \<le> now + d"
  "ctx_err c = Some e \<Longrightarrow> ctx_err (with_timeout now c d) = Some e"
  by (auto simp: with_timeout_def split: option.splits)

text \<open>The dynamic type of a handler's result: \<^verbatim>\<open>*Response\<close> (possibly a nil pointer),
  \<^verbatim>\<open>RawResponse\<close>, or any other value.\<close>

datatype hresult = ResResponse "Response option" | ResRaw RawResponse | ResValue gval

datatype houtcome = HPanic gval | HReturn hresult "go_error option"

type_synonym 'w handle_fn = "ctx \<Rightarrow> Request \<Rightarrow> 'w \<Rightarrow> houtcome \<times> 'w"

subsection \<open>Handlers and multiplexers\<close>

datatype 'w Handler = FuncHandler (funcHandle: "'w handle_fn") | MuxHandler "'w MethodMux"
  and 'w MethodMux = MethodMux (defaultHandler: "'w Handler option") (mux: "(bytes \<times> 'w Handler) list")

definition NewFuncHandler :: "'w handle_fn \<Rightarrow> 'w Handler" where
  "NewFuncHandler f = FuncHandler f"

definition NewMethodMux :: "'w MethodMux" where
  "NewMethodMux = MethodMux None []"

definition Mux_Register :: "'w MethodMux \<Rightarrow> bytes \<Rightarrow> 'w Handler \<Rightarrow> go_error option \<times> 'w MethodMux" where
  "Mux_Register mm method h =
     (case map_of (mux mm) method of
        Some _ \<Rightarrow> (Some (Wrapf [Txt (''method '' @ [CHR 0x27] @ method @ [CHR 0x27] @ '': ''),
            Wrap (Sentinel ErrMethodAlreadyExists)]), mm)
      | None \<Rightarrow> (None, MethodMux (defaultHandler mm) (AList.update method h (mux mm))))"

definition Mux_Replace :: "'w MethodMux \<Rightarrow> bytes \<Rightarrow> 'w Handler \<Rightarrow> 'w MethodMux" where
  "Mux_Replace mm method h = MethodMux (defaultHandler mm) (AList.update method h (mux mm))"

definition Mux_RegisterFunc ::
  "'w MethodMux \<Rightarrow> bytes \<Rightarrow> 'w handle_fn \<Rightarrow> go_error option \<times> 'w MethodMux" where
  "Mux_RegisterFunc mm method f = Mux_Register mm method (NewFuncHandler f)"

definition Mux_ReplaceFunc :: "'w MethodMux \<Rightarrow> bytes \<Rightarrow> 'w handle_fn \<Rightarrow> 'w MethodMux" where
  "Mux_ReplaceFunc mm method f = Mux_Replace mm method (NewFuncHandler f)"

definition Mux_Methods :: "'w MethodMux \<Rightarrow> bytes list" where
  "Mux_Methods mm = map fst (mux mm)"

definition Mux_Delete :: "'w MethodMux \<Rightarrow> bytes \<Rightarrow> 'w MethodMux" where
  "Mux_Delete mm method = MethodMux (defaultHandler mm) (AList.delete method (mux mm))"

definition Mux_SetDefault :: "'w MethodMux \<Rightarrow> 'w Handler option \<Rightarrow> 'w MethodMux" where
  "Mux_SetDefault mm h = (case h of
     None \<Rightarrow> MethodMux None (mux mm)
   | Some hnd \<Rightarrow> MethodMux (Some hnd) (mux mm))"

definition Mux_SetDefaultFunc :: "'w MethodMux \<Rightarrow> 'w handle_fn option \<Rightarrow> 'w MethodMux" where
  "Mux_SetDefaultFunc mm f = (case f of
     None \<Rightarrow> Mux_SetDefault mm None
   | Some g \<Rightarrow> Mux_SetDefault mm (Some (NewFuncHandler g)))"

lemma size_mux_entry:
  "map_of m k = Some h \<Longrightarrow> size h \<le> size_list (size_prod (\<lambda>x. 0) size) m"
  by (induction m) (auto split: if_splits)

text \<open>Dispatch: a function handler calls its function, a multiplexer looks the method up.\<close>

function (sequential) Handle :: "'w Handler \<Rightarrow> ctx \<Rightarrow> Request \<Rightarrow> 'w \<Rightarrow> houtcome \<times> 'w"
  and Mux_Handle :: "'w MethodMux \<Rightarrow> ctx \<Rightarrow> Request \<Rightarrow> 'w \<Rightarrow> houtcome \<times> 'w" where
  "Handle (FuncHandler f) c req w = f c req w"
| "Handle (MuxHandler mm) c req w = Mux_Handle mm c req w"
| "Mux_Handle (MethodMux d m) c req w =
     (case map_of m (req_method req) of
        Some h \<Rightarrow> Handle h c req w
      | None \<Rightarrow>
        (case d of
           Some h \<Rightarrow> Handle h c req w
         | None \<Rightarrow> (HReturn (ResValue GNil) (Some (RpcErr ErrMethodNotFound)), w)))"
  by pat_completeness auto
termination
  by (relation "measure (\<lambda>x. case x of Inl (h, _) \<Rightarrow> 2 * size h | Inr (mm, _) \<Rightarrow> 2 * size mm + 1)")
     (auto dest!: size_mux_entry)

subsection \<open>Callbacks\<close>

text \<open>What a server hands to its encoder.\<close>

datatype outval = OutResponse "Response option" | OutRaw bytes | OutBatch "outval list"

record 'w Callbacks =
  OnExit :: "(ctx \<Rightarrow> go_error option \<Rightarrow> 'w \<Rightarrow> 'w) option"
  OnDecodingError :: "(ctx \<Rightarrow> bytes \<Rightarrow> go_error \<Rightarrow> 'w \<Rightarrow> 'w) option"
  OnEncodingError :: "(ctx \<Rightarrow> outval \<Rightarrow> go_error \<Rightarrow> 'w \<Rightarrow> 'w) option"
  OnHandlerPanic :: "(ctx \<Rightarrow> Request \<Rightarrow> gval \<Rightarrow> 'w \<Rightarrow> 'w) option"

definition runOnExit :: "'w Callbacks \<Rightarrow> ctx \<Rightarrow> go_error option \<Rightarrow> 'w \<Rightarrow> 'w" where
  "runOnExit cb c e w = (case OnExit cb of Some f \<Rightarrow> f c e w | None \<Rightarrow> w)"

definition runOnDecodingError :: "'w Callbacks \<Rightarrow> ctx \<Rightarrow> bytes \<Rightarrow> go_error \<Rightarrow> 'w \<Rightarrow> 'w" where
  "runOnDecodingError cb c m e w = (case OnDecodingError cb of Some f \<Rightarrow> f c m e w | None \<Rightarrow> w)"

definition runOnEncodingError :: "'w Callbacks \<Rightarrow> ctx \<Rightarrow> outval \<Rightarrow> go_error \<Rightarrow> 'w \<Rightarrow> 'w" where
  "runOnEncodingError cb c d e w = (case OnEncodingError cb of Some f \<Rightarrow> f c d e w | None \<Rightarrow> w)"

definition runOnHandlerPanic :: "'w Callbacks \<Rightarrow> ctx \<Rightarrow> Request \<Rightarrow> gval \<Rightarrow> 'w \<Rightarrow> 'w" where
  "runOnHandlerPanic cb c r p w = (case OnHandlerPanic cb of Some f \<Rightarrow> f c r p w | None \<Rightarrow> w)"

subsection \<open>The table of methods\<close>

text \<open>What the multiplexer asks of its map, and the consequences every operation rests on.\<close>

locale method_table =
  fixes lookup :: "'t \<Rightarrow> 'k \<Rightarrow> 'v option"
    and store :: "'k \<Rightarrow> 'v \<Rightarrow> 't \<Rightarrow> 't"
    and remove :: "'k \<Rightarrow> 't \<Rightarrow> 't"
    and keys :: "'t \<Rightarrow> 'k list"
    and ok :: "'t \<Rightarrow> bool"
  assumes lookup_store: "lookup (store k v t) j = (if j = k then Some v else lookup t j)"
    and lookup_remove: "lookup (remove k t) j = (if j = k then None else lookup t j)"
    and keys_lookup: "set (keys t) = {k. lookup t k \<noteq> None}"
    and ok_store: "ok t \<Longrightarrow> ok (store k v t)"
    and ok_remove: "ok t \<Longrightarrow> ok (remove k t)"
    and ok_distinct: "ok t \<Longrightarrow> distinct (keys t)"
begin

lemma lookup_fun: "lookup (store k v t) = (lookup t)(k \<mapsto> v)"
  "lookup (remove k t) = (lookup t)(k := None)"
  by (auto simp: lookup_store lookup_remove)

lemma keys_store: "set (keys (store k v t)) = insert k (set (keys t))"
  by (auto simp: keys_lookup lookup_store)

lemma keys_remove: "set (keys (remove k t)) = set (keys t) - {k}"
  by (auto simp: keys_lookup lookup_remove)

lemma length_keys: "ok t \<Longrightarrow> length (keys t) = card {k. lookup t k \<noteq> None}"
  using distinct_card [OF ok_distinct] by (simp add: keys_lookup)

end

interpretation sync_map: method_table map_of AList.update AList.delete "map fst" "\<lambda>m. distinct (map fst m)"
proof unfold_locales
  show "set (map fst t) = {k. map_of t k \<noteq> None}" for t :: "('a \<times> 'b) list"
    by (auto simp: map_of_eq_None_iff)
qed (simp_all add: update_conv' delete_conv' distinct_update distinct_delete)

subsection \<open>Refinement of the multiplexer\<close>

text \<open>Abstractly a multiplexer is a default and a partial function from names to handlers.\<close>

definition mux_abs :: "'w MethodMux \<Rightarrow> 'w Handler option \<times> (bytes \<Rightarrow> 'w Handler option)" where
  "mux_abs mm = (defaultHandler mm, map_of (mux mm))"

definition wf_mux :: "'w MethodMux \<Rightarrow> bool" where
  "wf_mux mm \<longleftrightarrow> distinct (map fst (mux mm))"

lemma wf_mux_ops [wf_intros]:
  "wf_mux NewMethodMux"
  "wf_mux mm \<Longrightarrow> wf_mux (Mux_Replace mm m h)"
  "wf_mux mm \<Longrightarrow> wf_mux (snd (Mux_Register mm m h))"
  "wf_mux mm \<Longrightarrow> wf_mux (Mux_Delete mm m)"
  "wf_mux mm \<Longrightarrow> wf_mux (Mux_SetDefault mm d)"
  "wf_mux mm \<Longrightarrow> wf_mux (Mux_SetDefaultFunc mm f)"
  by (auto simp: wf_mux_def NewMethodMux_def Mux_Replace_def Mux_Register_def Mux_Delete_def
      Mux_SetDefault_def Mux_SetDefaultFunc_def sync_map.ok_store sync_map.ok_remove
      split: option.splits)

lemma mux_abs_ops [go_simps]:
  "mux_abs NewMethodMux = (None, Map.empty)"
  "mux_abs (Mux_Replace mm m h) = (fst (mux_abs mm), (snd (mux_abs mm))(m \<mapsto> h))"
  "mux_abs (Mux_Delete mm m) = (fst (mux_abs mm), (snd (mux_abs mm))(m := None))"
  "mux_abs (Mux_SetDefault mm d) = (d, snd (mux_abs mm))"
  "mux_abs (Mux_SetDefaultFunc mm f) = (map_option FuncHandler f, snd (mux_abs mm))"
  by (simp_all add: mux_abs_def NewMethodMux_def Mux_Replace_def Mux_Delete_def Mux_SetDefault_def
      Mux_SetDefaultFunc_def NewFuncHandler_def sync_map.lookup_fun split: option.splits)

lemma mux_abs_Register [go_simps]:
  "mux_abs (snd (Mux_Register mm m h)) =
     (fst (mux_abs mm),
      (snd (mux_abs mm))(m \<mapsto> (case snd (mux_abs mm) m of Some old \<Rightarrow> old | None \<Rightarrow> h)))"
  "fst (Mux_Register mm m h) = None \<longleftrightarrow> snd (mux_abs mm) m = None"
  by (auto simp: mux_abs_def Mux_Register_def sync_map.lookup_fun split: option.splits)

lemma Mux_Handle_abs [go_simps]:
  "Mux_Handle mm c req w =
     (case snd (mux_abs mm) (req_method req) of
        Some h \<Rightarrow> Handle h c req w
      | None \<Rightarrow> (case fst (mux_abs mm) of
          Some h \<Rightarrow> Handle h c req w
        | None \<Rightarrow> (HReturn (ResValue GNil) (Some (RpcErr ErrMethodNotFound)), w)))"
  by (cases mm) (simp add: mux_abs_def split: option.split)

end
