(* ===== verification/RpcServer.thy ===== *)
theory RpcServer
  imports Handlers "HOL-Library.Multiset"
begin

text \<open>
  rpcserver.go and shims.go: one server on one connection. \<open>'w\<close> is the state of everything the
  server calls into (the connection, the handler's data, the logs); the decoder, the encoder, the
  handler and the callbacks are functions on it.

  The branch that handles the members of a batch in goroutines is the step relation
  \<open>batch_step\<close>; \<open>gather\<close> stands for the outcome the scheduler picks among those it allows.
\<close>

subsection \<open>Decoders, encoders and their shims\<close>

text \<open>\<^verbatim>\<open>Unmarshal\<close> is given at the two types the server uses it at. \<^verbatim>\<open>Close\<close> is
  present when the value implements \<^verbatim>\<open>io.Closer\<close>.\<close>

record 'w Decoder =
  dec_Decode :: "ctx \<Rightarrow> 'w \<Rightarrow> (bytes \<times> go_error option) \<times> 'w"
  dec_request :: "bytes \<Rightarrow> go_error + Request"
  dec_raws :: "bytes \<Rightarrow> go_error + bytes list"
  dec_Close :: "('w \<Rightarrow> go_error option \<times> 'w) option"

record 'w PacketDecoder =
  pd_DecodeFrom :: "ctx \<Rightarrow> 'w \<Rightarrow> (bytes option \<times> bytes \<times> go_error option) \<times> 'w"
  pd_request :: "bytes \<Rightarrow> go_error + Request"
  pd_raws :: "bytes \<Rightarrow> go_error + bytes list"
  pd_Close :: "('w \<Rightarrow> go_error option \<times> 'w) option"
  pd_shim :: bool

record 'w Encoder =
  enc_Encode :: "ctx \<Rightarrow> outval \<Rightarrow> 'w \<Rightarrow> go_error option \<times> 'w"
  enc_Close :: "('w \<Rightarrow> go_error option \<times> 'w) option"

record 'w PacketEncoder =
  pe_EncodeTo :: "ctx \<Rightarrow> outval \<Rightarrow> bytes option \<Rightarrow> 'w \<Rightarrow> go_error option \<times> 'w"
  pe_Close :: "('w \<Rightarrow> go_error option \<times> 'w) option"

definition close_if :: "('w \<Rightarrow> go_error option \<times> 'w) option \<Rightarrow> 'w \<Rightarrow> go_error option \<times> 'w" where
  "close_if f w = (case f of Some g \<Rightarrow> g w | None \<Rightarrow> (None, w))"

definition decoderShim :: "'w Decoder \<Rightarrow> 'w PacketDecoder" where
  "decoderShim d = \<lparr>
     pd_DecodeFrom = (\<lambda>c w. case dec_Decode d c w of ((buf, e), w') \<Rightarrow> ((None, buf, e), w')),
     pd_request = dec_request d, pd_raws = dec_raws d,
     pd_Close = Some (close_if (dec_Close d)), pd_shim = True\<rparr>"

definition encoderShim :: "'w Encoder \<Rightarrow> 'w PacketEncoder" where
  "encoderShim e = \<lparr>pe_EncodeTo = (\<lambda>c v _ w. enc_Encode e c v w),
     pe_Close = Some (close_if (enc_Close e))\<rparr>"

subsection \<open>The server\<close>

record 'w RPCServer =
  rp_Callbacks :: "'w Callbacks"
  rp_decoder :: "'w PacketDecoder"
  rp_Handler :: "'w Handler"
  rp_encoder :: "'w PacketEncoder"
  SerialBatch :: bool
  NoRoutines :: bool
  WaitOnClose :: bool

text \<open>\<open>slog\<close> is the logger: a message with its attributes.\<close>

type_synonym 'w slog = "ctx \<Rightarrow> bytes \<Rightarrow> (bytes \<times> gval) list \<Rightarrow> 'w \<Rightarrow> 'w"

definition DefaultOnHandlerPanic :: "'w slog \<Rightarrow> ctx \<Rightarrow> Request \<Rightarrow> gval \<Rightarrow> 'w \<Rightarrow> 'w" where
  "DefaultOnHandlerPanic slog c req r =
     slog c ''Panic recovered in JSON-RPC handler''
       [(''method'', GStr (req_method req)), (''id'', idval_gval (ID_Value (req_id req))),
        (''params'', GStr (case Params_RawMessage (req_params req) of Some m \<Rightarrow> m | None \<Rightarrow> [])),
        (''panic_value'', r)]"

definition newRPCServer :: "'w slog \<Rightarrow> 'w Decoder + 'w PacketDecoder \<Rightarrow> 'w Encoder + 'w PacketEncoder
    \<Rightarrow> 'w Handler \<Rightarrow> 'w RPCServer" where
  "newRPCServer slog d e handler = \<lparr>
     rp_Callbacks = \<lparr>OnExit = None, OnDecodingError = None, OnEncodingError = None,
       OnHandlerPanic = Some (DefaultOnHandlerPanic slog)\<rparr>,
     rp_decoder = (case d of Inl v \<Rightarrow> decoderShim v | Inr v \<Rightarrow> v),
     rp_Handler = handler,
     rp_encoder = (case e of Inl v \<Rightarrow> encoderShim v | Inr v \<Rightarrow> v),
     SerialBatch = False, NoRoutines = False, WaitOnClose = False\<rparr>"

definition NewStreamServer :: "'w slog \<Rightarrow> 'w Decoder \<Rightarrow> 'w Encoder \<Rightarrow> 'w Handler \<Rightarrow> 'w RPCServer" where
  "NewStreamServer slog d e handler = newRPCServer slog (Inl d) (Inl e) handler"

definition NewPacketServer ::
  "'w slog \<Rightarrow> 'w PacketDecoder \<Rightarrow> 'w PacketEncoder \<Rightarrow> 'w Handler \<Rightarrow> 'w RPCServer" where
  "NewPacketServer slog d e handler = newRPCServer slog (Inr d) (Inr e) handler"

definition RPCServer_Close :: "'w RPCServer \<Rightarrow> 'w \<Rightarrow> go_error option \<times> 'w" where
  "RPCServer_Close rp w =
     (let (err, w1) = close_if (pd_Close (rp_decoder rp)) w in
      case pe_Close (rp_encoder rp) of
        None \<Rightarrow> (err, w1)
      | Some f \<Rightarrow> (let (e2, w2) = f w1 in (errors_join [err, e2], w2)))"

subsection \<open>One request\<close>

definition nullValue :: gval where
  "nullValue = GRaw ''null''"

definition invalid_request :: "go_error \<Rightarrow> Response" where
  "invalid_request err =
     zero_Response\<lparr>resp_id := NewNullID,
       resp_error := Error_WithData ErrInvalidRequest (GStr (error_text err))\<rparr>"

definition handleRequest :: "'w RPCServer \<Rightarrow> ctx \<Rightarrow> bytes \<Rightarrow> 'w \<Rightarrow> outval option \<times> 'w" where
  "handleRequest rp c rpc w =
     (case pd_request (rp_decoder rp) rpc of
        Inl err \<Rightarrow>
          (Some (OutResponse (Some (invalid_request err))),
           runOnDecodingError (rp_Callbacks rp) c rpc err w)
      | Inr req \<Rightarrow>
        (case Handle (rp_Handler rp) c req w of
           (HPanic r, w') \<Rightarrow>
             (Some (OutResponse (Some (Request_ResponseWithError req (RpcErr ErrInternalError)))),
              runOnHandlerPanic (rp_Callbacks rp) c req r w')
         | (HReturn result err, w') \<Rightarrow>
             (if Request_IsNotification req then None
              else case err of
                Some e \<Rightarrow> Some (OutResponse (Some (Request_ResponseWithError req e)))
              | None \<Rightarrow>
                (case result of
                   ResResponse r \<Rightarrow> Some (OutResponse r)
                 | ResRaw raw \<Rightarrow> Some (OutRaw raw)
                 | ResValue v \<Rightarrow> Some (OutResponse (Some (Request_ResponseWithResult req
                     (if v = GNil then nullValue else v))))),
              w')))"

definition encode_or_report :: "'w RPCServer \<Rightarrow> ctx \<Rightarrow> outval \<Rightarrow> bytes option \<Rightarrow> 'w \<Rightarrow> 'w" where
  "encode_or_report rp c v from w =
     (case pe_EncodeTo (rp_encoder rp) c v from w of
        (Some err, w') \<Rightarrow> runOnEncodingError (rp_Callbacks rp) c v err w'
      | (None, w') \<Rightarrow> w')"

definition runRequest :: "'w RPCServer \<Rightarrow> ctx \<Rightarrow> bytes \<Rightarrow> bytes option \<Rightarrow> 'w \<Rightarrow> 'w" where
  "runRequest rp c r from w =
     (case handleRequest rp c r w of
        (Some resp, w') \<Rightarrow> encode_or_report rp c resp from w'
      | (None, w') \<Rightarrow> w')"

subsection \<open>A batch\<close>

fun handle_all :: "'w RPCServer \<Rightarrow> ctx \<Rightarrow> bytes list \<Rightarrow> 'w \<Rightarrow> outval list \<times> 'w" where
  "handle_all rp c [] w = ([], w)"
| "handle_all rp c (jReq # objs) w =
     (let (resp, w1) = handleRequest rp c jReq w;
          (resps, w2) = handle_all rp c objs w1
      in (case resp of Some r \<Rightarrow> r # resps | None \<Rightarrow> resps, w2))"

definition runRequests :: "'w RPCServer \<Rightarrow> (bytes list \<Rightarrow> 'w \<Rightarrow> outval list \<times> 'w)
    \<Rightarrow> ctx \<Rightarrow> bytes \<Rightarrow> bytes option \<Rightarrow> 'w \<Rightarrow> 'w" where
  "runRequests rp gather c raw from w =
     (case pd_raws (rp_decoder rp) raw of
        Inl err \<Rightarrow>
          (let w1 = runOnDecodingError (rp_Callbacks rp) c raw err w in
           snd (pe_EncodeTo (rp_encoder rp) c (OutResponse (Some (invalid_request err))) from w1))
      | Inr objs \<Rightarrow>
        if objs = [] then
          encode_or_report rp c
            (OutResponse (Some (zero_Response\<lparr>resp_id := NewNullID, resp_error := ErrInvalidRequest\<rparr>)))
            from w
        else
          (let (resps, w1) = (if length objs = 1 \<or> SerialBatch rp then handle_all rp c objs w
                              else gather objs w)
           in if resps \<noteq> [] then encode_or_report rp c (OutBatch resps) from w1 else w1))"

text \<open>The goroutines of a batch: each handles its member, then appends the response it got, if
  any, under the mutex. The state holds the members not yet handled, the responses waiting for the
  mutex, and the responses appended.\<close>

inductive batch_step :: "'w RPCServer \<Rightarrow> ctx \<Rightarrow> bytes list \<times> outval list \<times> outval list \<times> 'w
    \<Rightarrow> bytes list \<times> outval list \<times> outval list \<times> 'w \<Rightarrow> bool"
  for rp :: "'w RPCServer" and c :: ctx where
  handle_silent: "handleRequest rp c jr w = (None, w')
    \<Longrightarrow> batch_step rp c (ps @ jr # qs, ws, rs, w) (ps @ qs, ws, rs, w')"
| handle_reply: "handleRequest rp c jr w = (Some r, w')
    \<Longrightarrow> batch_step rp c (ps @ jr # qs, ws, rs, w) (ps @ qs, ws @ [r], rs, w')"
| append_reply: "batch_step rp c (ps, us @ r # vs, rs, w) (ps, us @ vs, rs @ [r], w)"

definition gathers :: "'w RPCServer \<Rightarrow> ctx \<Rightarrow> bytes list \<Rightarrow> 'w \<Rightarrow> outval list \<Rightarrow> 'w \<Rightarrow> bool" where
  "gathers rp c objs w rs w' \<longleftrightarrow> (batch_step rp c)\<^sup>*\<^sup>* (objs, [], [], w) ([], [], rs, w')"

subsection \<open>Dispatch of one message\<close>

definition run :: "'w RPCServer \<Rightarrow> (ctx \<Rightarrow> bytes list \<Rightarrow> 'w \<Rightarrow> outval list \<times> 'w)
    \<Rightarrow> ctx \<Rightarrow> bytes \<Rightarrow> bytes option \<Rightarrow> 'w \<Rightarrow> 'w" where
  "run rp gather c0 buf from w =
     (let c = (if from \<noteq> None then c0\<lparr>ctx_from_addr := from\<rparr> else c0) in
      case HintType buf of
        TypeArray \<Rightarrow> runRequests rp (gather c) c buf from w
      | TypeObject \<Rightarrow> runRequest rp c buf from w
      | _ \<Rightarrow>
        (let w1 = encode_or_report rp c (OutResponse (Some (NewResponseError (RpcErr ErrParseError)))) from w
         in runOnDecodingError (rp_Callbacks rp) c buf (RpcErr ErrParseError) w1))"

subsection \<open>The main loop\<close>

datatype 'w loop_next = NExit go_error 'w | NSkip 'w | NMessage bytes "bytes option" 'w

text \<open>One iteration up to the processing of the message it read.\<close>

definition read_message :: "'w RPCServer \<Rightarrow> ctx \<Rightarrow> 'w \<Rightarrow> 'w loop_next" where
  "read_message rp sctx w =
     (case pd_DecodeFrom (rp_decoder rp) sctx w of
        ((from, buf, Some err), w1) \<Rightarrow>
          if is_syntax_error err then
            (let w2 = snd (pe_EncodeTo (rp_encoder rp) sctx (OutResponse (Some (NewResponseError
                   (RpcErr (Error_WithData ErrParseError (GStr (error_text err))))))) from w1);
                 w3 = runOnDecodingError (rp_Callbacks rp) sctx buf err w2
             in if pd_shim (rp_decoder rp) then NExit err w3 else NSkip w3)
          else if is_type_error err then
            (let w2 = snd (pe_EncodeTo (rp_encoder rp) sctx (OutResponse (Some (NewResponseError
                   (RpcErr (Error_WithData ErrInvalidRequest (GStr (error_text err))))))) from w1)
             in NSkip (runOnDecodingError (rp_Callbacks rp) sctx buf err w2))
          else NExit err w1
      | ((from, buf, None), w1) \<Rightarrow> if buf = [] then NSkip w1 else NMessage buf from w1)"

text \<open>The internal context; \<open>cerr\<close> is \<^verbatim>\<open>Err()\<close> of the caller's context.\<close>

definition internal_ctx :: "('w \<Rightarrow> go_error option) \<Rightarrow> bool \<Rightarrow> ctx \<Rightarrow> 'w \<Rightarrow> ctx" where
  "internal_ctx cerr stopped c w =
     c\<lparr>ctx_rpc_server := True,
       ctx_err := (case cerr w of Some e \<Rightarrow> Some e | None \<Rightarrow> if stopped then Some (Sentinel Canceled) else None)\<rparr>"

text \<open>What \<^verbatim>\<open>Run\<close> does when the loop has ended with \<open>e\<close> and no goroutine is left.\<close>

definition finish :: "'w RPCServer \<Rightarrow> ('w \<Rightarrow> go_error option) \<Rightarrow> ctx \<Rightarrow> go_error \<Rightarrow> 'w \<Rightarrow> go_error option \<times> 'w" where
  "finish rp cerr c e w =
     (let (ce, w1) = RPCServer_Close rp w;
          err = errors_join [Some e, cerr w, ce]
      in (err, runOnExit (rp_Callbacks rp) c err w1))"

text \<open>With \<^verbatim>\<open>NoRoutines\<close> the loop is sequential. It may run for ever: \<open>None\<close>. \<open>Run_sync\<close> is
  what \<^verbatim>\<open>Run\<close> gives then; without \<^verbatim>\<open>NoRoutines\<close> the outcome is not a function of the
  input, \<open>Run_sync\<close> has no value, and the step relation of the next theory says what
  \<^verbatim>\<open>Run\<close> does.\<close>

partial_function (option) run_loop :: "'w RPCServer \<Rightarrow> (ctx \<Rightarrow> bytes list \<Rightarrow> 'w \<Rightarrow> outval list \<times> 'w)
    \<Rightarrow> ('w \<Rightarrow> go_error option) \<Rightarrow> ctx \<Rightarrow> 'w \<Rightarrow> (go_error \<times> 'w) option" where
  "run_loop rp gather cerr c w =
     (case read_message rp (internal_ctx cerr False c w) w of
        NExit e w' \<Rightarrow> Some (e, w')
      | NSkip w' \<Rightarrow> run_loop rp gather cerr c w'
      | NMessage buf from w' \<Rightarrow> run_loop rp gather cerr c 
          (run rp gather (internal_ctx cerr False c w') buf from w'))"

definition Run_sync :: "'w RPCServer \<Rightarrow> (ctx \<Rightarrow> bytes list \<Rightarrow> 'w \<Rightarrow> outval list \<times> 'w)
    \<Rightarrow> ('w \<Rightarrow> go_error option) \<Rightarrow> ctx \<Rightarrow> 'w \<Rightarrow> (go_error option \<times> 'w) option" where
  "Run_sync rp gather cerr c w =
     (if NoRoutines rp then map_option (\<lambda>(e, w'). finish rp cerr c e w') (run_loop rp gather cerr c w)
      else None)"

subsection \<open>Scheduling a batch does not change what is computed\<close>

text \<open>The goroutines of a batch compute what the sequential loop computes on some permutation of
  the members, and append the responses in some order.\<close>

lemma batch_run_serial:
  assumes "(batch_step rp c)\<^sup>*\<^sup>* s t" "t = ([], [], rs', w')"
  shows "case s of (objs, ws, rs, w) \<Rightarrow> \<exists>ps res. mset ps = mset objs
    \<and> handle_all rp c ps w = (res, w') \<and> mset rs' = mset rs + mset ws + mset res"
  using assms
proof (induction rule: converse_rtranclp_induct)
  case base
  then show ?case by (auto intro!: exI [of _ "[]"])
next
  case (step s u)
  from step.hyps(1) show ?case
  proof (cases rule: batch_step.cases)
    case (handle_silent jr w w1 ps qs ws rs)
    with step.IH [OF step.prems] obtain p res where
      "mset p = mset (ps @ qs)" "handle_all rp c p w1 = (res, w')" "mset rs' = mset rs + mset ws + mset res"
      by auto
    with handle_silent show ?thesis
      by (auto intro!: exI [of _ "jr # p"])
  next
    case (handle_reply jr w r w1 ps qs ws rs)
    with step.IH [OF step.prems] obtain p res where
      "mset p = mset (ps @ qs)" "handle_all rp c p w1 = (res, w')"
      "mset rs' = mset rs + mset (ws @ [r]) + mset res"
      by auto
    with handle_reply show ?thesis
      by (auto intro!: exI [of _ "jr # p"])
  next
    case (append_reply ps us r vs rs w)
    with step.IH [OF step.prems] show ?thesis
      by (auto simp: ac_simps)
  qed
qed

lemma batch_handle_run:
  assumes "mset ps = mset objs" "handle_all rp c ps w = (res, w')"
  shows "(batch_step rp c)\<^sup>*\<^sup>* (objs, ws, rs, w) ([], ws @ res, rs, w')"
  using assms
proof (induction ps arbitrary: objs ws w res)
  case (Cons jr ps)
  obtain o1 w1 where o1: "handleRequest rp c jr w = (o1, w1)" by fastforce
  obtain res2 where res2: "handle_all rp c ps w1 = (res2, w')"
    using Cons.prems(2) o1 by (cases "handle_all rp c ps w1") auto
  have "jr \<in> set objs"
    using Cons.prems(1) by (metis list.set_intros(1) set_mset_mset)
  then obtain a b where ab: "objs = a @ jr # b" by (meson split_list)
  then have m: "mset ps = mset (a @ b)" using Cons.prems(1) by simp
  show ?case
  proof (cases o1)
    case None
    then have "batch_step rp c (objs, ws, rs, w) (a @ b, ws, rs, w1)"
      using o1 ab by (simp add: batch_step.handle_silent)
    then show ?thesis
      using Cons.IH [OF m res2, of ws] Cons.prems(2) o1 res2 None
      by (simp add: converse_rtranclp_into_rtranclp)
  next
    case (Some r)
    then have "batch_step rp c (objs, ws, rs, w) (a @ b, ws @ [r], rs, w1)"
      using o1 ab by (simp add: batch_step.handle_reply)
    moreover have "res = r # res2"
      using Cons.prems(2) o1 res2 Some by simp
    ultimately show ?thesis
      using Cons.IH [OF m res2, of "ws @ [r]"] by (simp add: converse_rtranclp_into_rtranclp)
  qed
qed simp

lemma batch_append_run:
  "mset ws = mset out \<Longrightarrow> (batch_step rp c)\<^sup>*\<^sup>* ([], ws, rs, w) ([], [], rs @ out, w)"
proof (induction out arbitrary: ws rs)
  case (Cons r out)
  have "r \<in> set ws"
    using Cons.prems by (metis list.set_intros(1) set_mset_mset)
  then obtain a b where ab: "ws = a @ r # b" by (meson split_list)
  with Cons.prems have "mset (a @ b) = mset out" by simp
  moreover have "batch_step rp c ([], ws, rs, w) ([], a @ b, rs @ [r], w)"
    using ab by (simp add: batch_step.append_reply)
  ultimately show ?case
    using Cons.IH [of "a @ b" "rs @ [r]"] by (simp add: converse_rtranclp_into_rtranclp)
qed simp

lemma gathers_iff:
  "gathers rp c objs w rs w' \<longleftrightarrow>
     (\<exists>ps res. mset ps = mset objs \<and> handle_all rp c ps w = (res, w') \<and> mset rs = mset res)"
proof
  assume "gathers rp c objs w rs w'"
  from batch_run_serial [OF this [unfolded gathers_def] refl]
  show "\<exists>ps res. mset ps = mset objs \<and> handle_all rp c ps w = (res, w') \<and> mset rs = mset res"
    by simp
next
  assume "\<exists>ps res. mset ps = mset objs \<and> handle_all rp c ps w = (res, w') \<and> mset rs = mset res"
  then obtain ps res where "mset ps = mset objs" "handle_all rp c ps w = (res, w')" "mset res = mset rs"
    by auto
  from batch_handle_run [OF this(1,2), of "[]" "[]"] batch_append_run [OF this(3), of rp c "[]" w']
  show "gathers rp c objs w rs w'"
    by (simp add: gathers_def)
qed

lemma gathers_serial: "handle_all rp c objs w = (rs, w') \<Longrightarrow> gathers rp c objs w rs w'"
  by (auto simp: gathers_iff)

text \<open>\<^verbatim>\<open>wg.Wait\<close> returns: the goroutines of a batch always finish.\<close>

fun batch_weight :: "bytes list \<times> outval list \<times> outval list \<times> 'w \<Rightarrow> nat" where
  "batch_weight (ps, ws, rs, w) = 2 * length ps + length ws"

lemma batch_step_enabled:
  assumes "batch_weight s \<noteq> 0"
  shows "\<exists>t. batch_step rp c s t"
proof (cases s)
  case (fields ps ws rs w)
  show ?thesis
  proof (cases ps)
    case Nil
    with assms fields obtain r vs where "ws = r # vs" by (cases ws) auto
    with fields show ?thesis
      using batch_step.append_reply [of rp c ps "[]" r vs rs w] by auto
  next
    case (Cons jr qs)
    with fields show ?thesis
      using batch_step.handle_silent [of rp c jr w _ "[]" qs ws rs]
        batch_step.handle_reply [of rp c jr w _ _ "[]" qs ws rs]
      by (cases "handleRequest rp c jr w"; cases "fst (handleRequest rp c jr w)") auto
  qed
qed

lemma batch_step_lowers: "batch_step rp c s t \<Longrightarrow> batch_weight t < batch_weight s"
  by (cases rule: batch_step.cases) auto

interpretation batch_goroutines: draining "batch_step rp c" batch_weight for rp :: "'w RPCServer" and c
  by unfold_locales (fact batch_step_lowers, fact batch_step_enabled)

subsection \<open>Which messages are answered\<close>

lemma handle_all_length: "length (fst (handle_all rp c objs w)) \<le> length objs"
  by (induction objs arbitrary: w) (auto simp: split_beta Let_def split: option.splits intro: le_SucI)

text \<open>A handler that leaves the building of the response to the server: it neither panics nor
  returns a response of its own.\<close>

fun plain_outcome :: "houtcome \<Rightarrow> bool" where
  "plain_outcome (HPanic r) = False"
| "plain_outcome (HReturn res (Some e)) = True"
| "plain_outcome (HReturn (ResValue v) None) = True"
| "plain_outcome (HReturn res None) = False"

text \<open>The response the server builds from such an outcome.\<close>

fun reply_of :: "Request \<Rightarrow> houtcome \<Rightarrow> Response" where
  "reply_of q (HReturn res (Some e)) = Request_ResponseWithError q e"
| "reply_of q (HReturn (ResValue v) None) = Request_ResponseWithResult q (if v = GNil then nullValue else v)"
| "reply_of q out = Request_ResponseWithError q (RpcErr ErrInternalError)"

lemma handleRequest_reply:
  assumes "pd_request (rp_decoder rp) jr = Inr q" "\<not> Request_IsNotification q"
    and "Handle (rp_Handler rp) c q w = (out, w')" "plain_outcome out"
  shows "handleRequest rp c jr w = (Some (OutResponse (Some (reply_of q out))), w')"
  using assms by (cases "(q, out)" rule: reply_of.cases) (simp_all add: handleRequest_def)

definition plain_handler :: "'w Handler \<Rightarrow> bool" where
  "plain_handler h \<longleftrightarrow> (\<forall>c req w. plain_outcome (fst (Handle h c req w)))"

fun reply_id :: "outval \<Rightarrow> ID option" where
  "reply_id (OutResponse (Some r)) = Some (resp_id r)"
| "reply_id v = None"

lemma response_ids [simp, go_simps]:
  "resp_id (Request_ResponseWithError q e) = req_id q"
  "resp_id (Request_ResponseWithResult q v) = req_id q"
  by (simp_all add: Request_ResponseWithError_def Request_ResponseWithResult_def)

lemma handleRequest_plain:
  assumes "plain_handler (rp_Handler rp)" "pd_request (rp_decoder rp) jr = Inr req"
  shows "map_option reply_id (fst (handleRequest rp c jr w)) =
    (if Request_IsNotification req then None else Some (Some (req_id req)))"
proof -
  have "plain_outcome (fst (Handle (rp_Handler rp) c req w))"
    using assms(1) by (simp add: plain_handler_def)
  then show ?thesis
    using assms(2)
    by (cases "Handle (rp_Handler rp) c req w"; cases "fst (Handle (rp_Handler rp) c req w)")
       (auto simp: handleRequest_def split: option.splits hresult.splits)
qed

lemma handle_all_plain:
  assumes "plain_handler (rp_Handler rp)"
    and "list_all2 (\<lambda>jr req. pd_request (rp_decoder rp) jr = Inr req) objs reqs"
  shows "map reply_id (fst (handle_all rp c objs w)) =
    map (\<lambda>req. Some (req_id req)) (filter (\<lambda>req. \<not> Request_IsNotification req) reqs)"
  using assms(2)
proof (induction objs reqs arbitrary: w)
  case (Cons jr objs req reqs)
  show ?case
    using handleRequest_plain [OF assms(1) Cons.hyps(1), of c w] Cons.IH
    by (cases "handleRequest rp c jr w"; cases "fst (handleRequest rp c jr w)")
       (auto simp: split_beta Let_def split: if_splits)
qed simp

text \<open>Handling requests one after the other, and the responses of those that are not notifications.\<close>

fun outcomes :: "'w Handler \<Rightarrow> ctx \<Rightarrow> Request list \<Rightarrow> 'w \<Rightarrow> houtcome list \<times> 'w" where
  "outcomes h c [] w = ([], w)"
| "outcomes h c (q # qs) w =
     (let (out, w1) = Handle h c q w; (outs, w2) = outcomes h c qs w1 in (out # outs, w2))"

definition replies :: "Request list \<Rightarrow> houtcome list \<Rightarrow> Response list" where
  "replies qs outs = map (\<lambda>(q, out). reply_of q out) (filter (\<lambda>(q, out). \<not> Request_IsNotification q) (zip qs outs))"

lemma handle_all_replies:
  assumes "list_all2 (\<lambda>jr q. pd_request (rp_decoder rp) jr = Inr q) objs qs"
    and "outcomes (rp_Handler rp) c qs w = (outs, w')" "list_all plain_outcome outs"
  shows "handle_all rp c objs w = (map (\<lambda>r. OutResponse (Some r)) (replies qs outs), w')"
  using assms
proof (induction objs qs arbitrary: w outs rule: list_all2_induct)
  case (Cons jr objs q qs)
  obtain out w1 where out: "Handle (rp_Handler rp) c q w = (out, w1)" by fastforce
  obtain outs' where outs: "outcomes (rp_Handler rp) c qs w1 = (outs', w')" "outs = out # outs'"
    using Cons.prems(1) out by (cases "outcomes (rp_Handler rp) c qs w1") auto
  have plain: "plain_outcome out" "list_all plain_outcome outs'"
    using Cons.prems(2) outs(2) by auto
  have "handleRequest rp c jr w =
      (if Request_IsNotification q then None else Some (OutResponse (Some (reply_of q out))), w1)"
    using Cons.hyps(1) out plain(1)
    by (cases "(q, out)" rule: reply_of.cases) (simp_all add: handleRequest_def)
  then show ?case
    using Cons.IH [OF outs(1) plain(2)] outs(2) by (simp add: replies_def)
qed (simp add: replies_def)

end
