(* ===== verification/ServerLoop.thy ===== *)
theory ServerLoop
  imports RpcServer
begin

text \<open>
  The method \<^verbatim>\<open>Run\<close> of rpcserver.go: its sequential form, and its form with a goroutine
  for each message as a step relation over the phases of the loop and its shutdown. A goroutine
  takes effect in one step, whose batch may be scheduled in any way \<open>gathers\<close> allows.
\<close>

subsection \<open>The sequential loop\<close>

lemma run_loop_exit:
  "read_message rp (internal_ctx cerr False c w) w = NExit e w' \<Longrightarrow>
   run_loop rp gather cerr c w = Some (e, w')"
  by (subst run_loop.simps) simp

lemma run_loop_skip:
  "read_message rp (internal_ctx cerr False c w) w = NSkip w' \<Longrightarrow>
   run_loop rp gather cerr c w = run_loop rp gather cerr c w'"
  by (subst run_loop.simps) simp

lemma run_loop_message:
  "read_message rp (internal_ctx cerr False c w) w = NMessage buf from w' \<Longrightarrow>
   run_loop rp gather cerr c w =
     run_loop rp gather cerr c (run rp gather (internal_ctx cerr False c w') buf from w')"
  by (subst run_loop.simps) simp

text \<open>If every iteration that goes on keeps an invariant and lowers a measure of the input, the
  loop ends, in a state the last read of which failed.\<close>

definition loop_lowers :: "'w RPCServer \<Rightarrow> (ctx \<Rightarrow> bytes list \<Rightarrow> 'w \<Rightarrow> outval list \<times> 'w)
    \<Rightarrow> ('w \<Rightarrow> go_error option) \<Rightarrow> ctx \<Rightarrow> ('w \<Rightarrow> bool) \<Rightarrow> ('w \<Rightarrow> nat) \<Rightarrow> bool" where
  "loop_lowers rp gather cerr c ok m \<longleftrightarrow>
     (\<forall>w. ok w \<longrightarrow> (case read_message rp (internal_ctx cerr False c w) w of
        NExit e w' \<Rightarrow> True
      | NSkip w' \<Rightarrow> ok w' \<and> m w' < m w
      | NMessage buf from w' \<Rightarrow>
          (let w2 = run rp gather (internal_ctx cerr False c w') buf from w' in ok w2 \<and> m w2 < m w)))"

lemma run_loop_returns:
  assumes "loop_lowers rp gather cerr c ok m" "ok w"
  shows "\<exists>e w'. run_loop rp gather cerr c w = Some (e, w')"
  using assms(2)
proof (induction w rule: measure_induct_rule [of m])
  case (less w)
  note lower = assms(1) [unfolded loop_lowers_def, rule_format, OF less.prems]
  show ?case
  proof (cases "read_message rp (internal_ctx cerr False c w) w")
    case (NExit e w')
    then show ?thesis by (simp add: run_loop_exit)
  next
    case (NSkip w')
    with less.IH [of w'] lower show ?thesis by (simp add: run_loop_skip)
  next
    case (NMessage buf src w')
    with less.IH lower show ?thesis by (simp add: run_loop_message Let_def)
  qed
qed

text \<open>The loop's error is one the decoder returned, and is fatal.\<close>

lemma read_message_exit:
  assumes "read_message rp sctx w = NExit e w'"
  shows "\<exists>from buf w1. pd_DecodeFrom (rp_decoder rp) sctx w = ((from, buf, Some e), w1)
    \<and> (is_syntax_error e \<and> pd_shim (rp_decoder rp) \<or> \<not> is_syntax_error e \<and> \<not> is_type_error e)"
  using assms by (auto simp: read_message_def Let_def split: prod.splits option.splits if_splits)

subsection \<open>With goroutines\<close>

type_synonym job = "bytes \<times> bytes option"

datatype phase =
    Looping
  | Exiting go_error
  | Draining go_error
  | Waited go_error
  | Returned "go_error option"

text \<open>\<open>srv_jobs\<close> are the goroutines counted by the wait group.\<close>

record 'w srv =
  srv_phase :: phase
  srv_jobs :: "job list"
  srv_world :: 'w

fun stopped :: "phase \<Rightarrow> bool" where
  "stopped (Draining e) = True"
| "stopped (Waited e) = True"
| "stopped (Returned r) = True"
| "stopped p = False"

text \<open>One message processed under some permitted schedule of its batch.\<close>

definition schedule :: "'w RPCServer \<Rightarrow> (ctx \<Rightarrow> bytes list \<Rightarrow> 'w \<Rightarrow> outval list \<times> 'w) \<Rightarrow> bool" where
  "schedule rp gather \<longleftrightarrow>
     (\<forall>c objs w. gathers rp c objs w (fst (gather c objs w)) (snd (gather c objs w)))"

definition message_run :: "'w RPCServer \<Rightarrow> ctx \<Rightarrow> job \<Rightarrow> 'w \<Rightarrow> 'w \<Rightarrow> bool" where
  "message_run rp c j w w' \<longleftrightarrow> (\<exists>gather. schedule rp gather \<and> w' = run rp gather c (fst j) (snd j) w)"

lemma schedule_serial: "schedule rp (handle_all rp)"
  by (simp add: schedule_def gathers_serial)

lemma message_run_total: "\<exists>w'. message_run rp c j w w'"
  using schedule_serial by (auto simp: message_run_def)

inductive srv_step :: "'w RPCServer \<Rightarrow> ('w \<Rightarrow> go_error option) \<Rightarrow> ctx \<Rightarrow> 'w srv \<Rightarrow> 'w srv \<Rightarrow> bool"
  for rp :: "'w RPCServer" and cerr :: "'w \<Rightarrow> go_error option" and c :: ctx where
  loop_exit: "\<lbrakk>srv_phase s = Looping;
      read_message rp (internal_ctx cerr False c (srv_world s)) (srv_world s) = NExit e w'\<rbrakk>
    \<Longrightarrow> srv_step rp cerr c s (s\<lparr>srv_phase := Exiting e, srv_world := w'\<rparr>)"
| loop_skip: "\<lbrakk>srv_phase s = Looping;
      read_message rp (internal_ctx cerr False c (srv_world s)) (srv_world s) = NSkip w'\<rbrakk>
    \<Longrightarrow> srv_step rp cerr c s (s\<lparr>srv_world := w'\<rparr>)"
| loop_sync: "\<lbrakk>srv_phase s = Looping; NoRoutines rp;
      read_message rp (internal_ctx cerr False c (srv_world s)) (srv_world s) = NMessage buf from w1;
      message_run rp (internal_ctx cerr False c w1) (buf, from) w1 w'\<rbrakk>
    \<Longrightarrow> srv_step rp cerr c s (s\<lparr>srv_world := w'\<rparr>)"
| loop_spawn: "\<lbrakk>srv_phase s = Looping; \<not> NoRoutines rp;
      read_message rp (internal_ctx cerr False c (srv_world s)) (srv_world s) = NMessage buf from w'\<rbrakk>
    \<Longrightarrow> srv_step rp cerr c s (s\<lparr>srv_jobs := srv_jobs s @ [(buf, from)], srv_world := w'\<rparr>)"
| goroutine: "\<lbrakk>srv_jobs s = xs @ j # ys;
      message_run rp (internal_ctx cerr (stopped (srv_phase s)) c (srv_world s)) j (srv_world s) w'\<rbrakk>
    \<Longrightarrow> srv_step rp cerr c s (s\<lparr>srv_jobs := xs @ ys, srv_world := w'\<rparr>)"
| wait_then_stop: "\<lbrakk>srv_phase s = Exiting e; WaitOnClose rp; srv_jobs s = []\<rbrakk>
    \<Longrightarrow> srv_step rp cerr c s (s\<lparr>srv_phase := Waited e\<rparr>)"
| stop_first: "\<lbrakk>srv_phase s = Exiting e; \<not> WaitOnClose rp\<rbrakk>
    \<Longrightarrow> srv_step rp cerr c s (s\<lparr>srv_phase := Draining e\<rparr>)"
| then_wait: "\<lbrakk>srv_phase s = Draining e; srv_jobs s = []\<rbrakk>
    \<Longrightarrow> srv_step rp cerr c s (s\<lparr>srv_phase := Waited e\<rparr>)"
| run_returns: "\<lbrakk>srv_phase s = Waited e; finish rp cerr c e (srv_world s) = (r, w')\<rbrakk>
    \<Longrightarrow> srv_step rp cerr c s (s\<lparr>srv_phase := Returned r, srv_world := w'\<rparr>)"

definition srv_start :: "'w \<Rightarrow> 'w srv" where
  "srv_start w = \<lparr>srv_phase = Looping, srv_jobs = [], srv_world = w\<rparr>"

text \<open>The wait group is empty once waited for; the context is not cancelled before that when the
  server waits on close; and without goroutines there is never a job.\<close>

definition srv_joined :: "'w srv \<Rightarrow> bool" where
  "srv_joined s \<longleftrightarrow> (case srv_phase s of Waited e \<Rightarrow> srv_jobs s = [] | Returned r \<Rightarrow> srv_jobs s = [] | _ \<Rightarrow> True)"

definition srv_patient :: "'w RPCServer \<Rightarrow> 'w srv \<Rightarrow> bool" where
  "srv_patient rp s \<longleftrightarrow> WaitOnClose rp \<longrightarrow> (case srv_phase s of Draining e \<Rightarrow> False | _ \<Rightarrow> True)"

definition srv_sequential :: "'w RPCServer \<Rightarrow> 'w srv \<Rightarrow> bool" where
  "srv_sequential rp s \<longleftrightarrow> NoRoutines rp \<longrightarrow> srv_jobs s = []"

definition srv_inv :: "'w RPCServer \<Rightarrow> 'w srv \<Rightarrow> bool" where
  "srv_inv rp s \<longleftrightarrow> srv_joined s \<and> srv_patient rp s \<and> srv_sequential rp s"

lemma srv_inv_start: "srv_inv rp (srv_start w)"
  by (simp add: srv_inv_def srv_joined_def srv_patient_def srv_sequential_def srv_start_def)

lemma srv_joined_step: "srv_step rp cerr c s t \<Longrightarrow> srv_joined s \<Longrightarrow> srv_joined t"
  by (erule srv_step.cases) (simp_all add: srv_joined_def split: phase.splits)

lemma srv_patient_step: "srv_step rp cerr c s t \<Longrightarrow> srv_patient rp s \<Longrightarrow> srv_patient rp t"
  by (erule srv_step.cases) (simp_all add: srv_patient_def)

lemma srv_sequential_step: "srv_step rp cerr c s t \<Longrightarrow> srv_sequential rp s \<Longrightarrow> srv_sequential rp t"
  by (erule srv_step.cases) (simp_all add: srv_sequential_def)

lemma srv_inv_step: "srv_step rp cerr c s t \<Longrightarrow> srv_inv rp s \<Longrightarrow> srv_inv rp t"
  unfolding srv_inv_def
  by (intro conjI; elim conjE; rule srv_joined_step srv_patient_step srv_sequential_step)

lemma srv_inv_reachable: "(srv_step rp cerr c)\<^sup>*\<^sup>* (srv_start w) s \<Longrightarrow> srv_inv rp s"
  by (induction rule: rtranclp_induct) (auto intro: srv_inv_start srv_inv_step)

text \<open>The shutdown, from the moment the loop is left, as a draining relation.\<close>

definition closing_step :: "'w RPCServer \<Rightarrow> ('w \<Rightarrow> go_error option) \<Rightarrow> ctx \<Rightarrow> 'w srv \<Rightarrow> 'w srv \<Rightarrow> bool" where
  "closing_step rp cerr c s t \<longleftrightarrow> srv_phase s \<noteq> Looping \<and> (\<forall>r. srv_phase s \<noteq> Returned r)
     \<and> srv_step rp cerr c s t"

definition closing_weight :: "'w srv \<Rightarrow> nat" where
  "closing_weight s = (case srv_phase s of
     Looping \<Rightarrow> 0 | Exiting e \<Rightarrow> length (srv_jobs s) + 3 | Draining e \<Rightarrow> length (srv_jobs s) + 2
   | Waited e \<Rightarrow> length (srv_jobs s) + 1 | Returned r \<Rightarrow> 0)"

lemma closing_step_lowers: "closing_step rp cerr c s t \<Longrightarrow> closing_weight t < closing_weight s"
  unfolding closing_step_def
  by (elim conjE, erule srv_step.cases, simp_all add: closing_weight_def) (auto split: phase.split)

lemma goroutine_enabled: "srv_jobs s \<noteq> [] \<Longrightarrow> \<exists>t. srv_step rp cerr c s t"
  using srv_step.goroutine [of s "[]" "hd (srv_jobs s)" "tl (srv_jobs s)" rp cerr c] message_run_total
  by fastforce

lemma closing_step_enabled:
  assumes "closing_weight s \<noteq> 0"
  shows "\<exists>t. closing_step rp cerr c s t"
proof -
  have "\<exists>t. srv_step rp cerr c s t"
  proof (cases "srv_phase s")
    case (Exiting e)
    then show ?thesis
      using srv_step.wait_then_stop [of s e rp] srv_step.stop_first [of s e rp]
        goroutine_enabled [of s rp cerr c] by blast
  next
    case (Draining e)
    then show ?thesis
      using srv_step.then_wait [of s e rp] goroutine_enabled [of s rp cerr c] by blast
  next
    case (Waited e)
    then show ?thesis
      by (metis srv_step.run_returns surj_pair)
  qed (use assms in \<open>simp_all add: closing_weight_def\<close>)
  moreover have "srv_phase s \<noteq> Looping" "\<forall>r. srv_phase s \<noteq> Returned r"
    using assms by (auto simp: closing_weight_def)
  ultimately show ?thesis by (auto simp: closing_step_def)
qed

interpretation shutdown: draining "closing_step rp cerr c" closing_weight
  for rp :: "'w RPCServer" and cerr and c
  by unfold_locales (fact closing_step_lowers, fact closing_step_enabled)

lemma closing_run_phase:
  "(closing_step rp cerr c)\<^sup>*\<^sup>* s t \<Longrightarrow> srv_phase s \<noteq> Looping \<Longrightarrow> srv_phase t \<noteq> Looping"
  by (induction rule: rtranclp_induct) (auto simp: closing_step_def elim: srv_step.cases)

lemma closing_run_steps: "(closing_step rp cerr c)\<^sup>*\<^sup>* s t \<Longrightarrow> (srv_step rp cerr c)\<^sup>*\<^sup>* s t"
  by (induction rule: rtranclp_induct) (auto simp: closing_step_def intro: rtranclp.rtrancl_into_rtrancl)

text \<open>The error \<^verbatim>\<open>Run\<close> returns carries the one the loop ended with.\<close>

definition exit_error :: "phase \<Rightarrow> go_error option" where
  "exit_error p = (case p of Exiting e \<Rightarrow> Some e | Draining e \<Rightarrow> Some e | Waited e \<Rightarrow> Some e | _ \<Rightarrow> None)"

lemma finish_error: "is_err (fst (finish rp cerr c e w)) s \<longleftrightarrow>
    is_err (Some e) s \<or> is_err (cerr w) s \<or> is_err (fst (RPCServer_Close rp w)) s"
  by (auto simp: finish_def split_beta Let_def is_err_join)

lemma exit_error_kept:
  "(srv_step rp cerr c)\<^sup>*\<^sup>* s t \<Longrightarrow> exit_error (srv_phase s) = Some e \<Longrightarrow>
   exit_error (srv_phase t) = Some e \<or> (\<exists>w. srv_phase t = Returned (fst (finish rp cerr c e w)))"
proof (induction rule: rtranclp_induct)
  case (step t u)
  have "r = fst (finish rp cerr c e w)" if "finish rp cerr c e w = (r, w')" for r w w'
    using that by simp
  with step show ?case
    by (fastforce simp: exit_error_def elim!: srv_step.cases split: phase.splits)
qed simp

subsection \<open>The sequential loop is a run of the server\<close>

lemma srv_start_world [simp]: "srv_world (srv_start w) = w" "srv_phase (srv_start w) = Looping" "srv_jobs (srv_start w) = []"
  "(srv_start w)\<lparr>srv_world := w'\<rparr> = srv_start w'"
  by (simp_all add: srv_start_def)

lemma run_loop_steps:
  assumes "run_loop rp gather cerr c w = Some p" "NoRoutines rp" "schedule rp gather"
  shows "(srv_step rp cerr c)\<^sup>*\<^sup>* (srv_start w) ((srv_start (snd p))\<lparr>srv_phase := Exiting (fst p)\<rparr>)"
proof -
  have "NoRoutines rp \<longrightarrow> schedule rp gather \<longrightarrow>
      (srv_step rp cerr c)\<^sup>*\<^sup>* (srv_start w) ((srv_start (snd p))\<lparr>srv_phase := Exiting (fst p)\<rparr>)"
    using assms(1)
  proof (rule run_loop.raw_induct [rotated, where P = "\<lambda>rp gather cerr c w p. NoRoutines rp \<longrightarrow> schedule rp gather \<longrightarrow>
      (srv_step rp cerr c)\<^sup>*\<^sup>* (srv_start w) ((srv_start (snd p))\<lparr>srv_phase := Exiting (fst p)\<rparr>)"], intro impI)
    fix loop rp gather and cerr :: "'b \<Rightarrow> go_error option" and c w p
    assume IH: "\<And>rp gather cerr c w p. loop rp gather cerr c w = Some p \<Longrightarrow> NoRoutines rp \<longrightarrow> schedule rp gather \<longrightarrow>
        (srv_step rp cerr c)\<^sup>*\<^sup>* (srv_start w) ((srv_start (snd p))\<lparr>srv_phase := Exiting (fst p)\<rparr>)"
      and body: "(case read_message rp (internal_ctx cerr False c w) w of
          NExit e w' \<Rightarrow> Some (e, w')
        | NSkip w' \<Rightarrow> loop rp gather cerr c w'
        | NMessage buf from w' \<Rightarrow> loop rp gather cerr c (run rp gather (internal_ctx cerr False c w') buf from w')) = Some p"
      and seq: "NoRoutines rp" and sched: "schedule rp gather"
    show "(srv_step rp cerr c)\<^sup>*\<^sup>* (srv_start w) ((srv_start (snd p))\<lparr>srv_phase := Exiting (fst p)\<rparr>)"
    proof (cases "read_message rp (internal_ctx cerr False c w) w")
      case (NExit e w')
      then show ?thesis
        using body srv_step.loop_exit [of "srv_start w" rp cerr c e w'] by (auto simp: srv_start_def)
    next
      case (NSkip w')
      then have "srv_step rp cerr c (srv_start w) (srv_start w')"
        using srv_step.loop_skip [of "srv_start w" rp cerr c w'] by simp
      moreover have "loop rp gather cerr c w' = Some p" using body NSkip by simp
      ultimately show ?thesis using IH seq sched by (meson converse_rtranclp_into_rtranclp)
    next
      case (NMessage buf src w1)
      let ?w' = "run rp gather (internal_ctx cerr False c w1) buf src w1"
      have "message_run rp (internal_ctx cerr False c w1) (buf, src) w1 ?w'"
        using sched by (auto simp: message_run_def)
      then have "srv_step rp cerr c (srv_start w) (srv_start ?w')"
        using srv_step.loop_sync [of "srv_start w" rp cerr c buf src w1 ?w'] NMessage seq by simp
      moreover have "loop rp gather cerr c ?w' = Some p" using body NMessage by simp
      ultimately show ?thesis using IH seq sched by (meson converse_rtranclp_into_rtranclp)
    qed
  qed
  with assms(2,3) show ?thesis by blast
qed

text \<open>What \<open>Run_sync\<close> gives is an outcome of the step relation.\<close>

lemma Run_sync_steps:
  assumes "Run_sync rp gather cerr c w = Some (r, w')" "schedule rp gather"
  shows "\<exists>s. (srv_step rp cerr c)\<^sup>*\<^sup>* (srv_start w) s \<and> srv_phase s = Returned r \<and> srv_world s = w'"
proof -
  obtain e w1 where e: "NoRoutines rp" "run_loop rp gather cerr c w = Some (e, w1)" "finish rp cerr c e w1 = (r, w')"
    using assms(1) by (auto simp: Run_sync_def split: if_splits)
  let ?s = "(srv_start w1)\<lparr>srv_phase := Exiting e\<rparr>"
  have loop: "(srv_step rp cerr c)\<^sup>*\<^sup>* (srv_start w) ?s"
    using run_loop_steps [OF e(2,1) assms(2)] by simp
  have wait: "(srv_step rp cerr c)\<^sup>*\<^sup>* ?s (?s\<lparr>srv_phase := Waited e\<rparr>)"
  proof (cases "WaitOnClose rp")
    case True
    then show ?thesis using srv_step.wait_then_stop [of ?s e rp cerr c] by auto
  next
    case False
    then have "srv_step rp cerr c ?s (?s\<lparr>srv_phase := Draining e\<rparr>)"
      using srv_step.stop_first [of ?s e rp cerr c] by simp
    moreover have "srv_step rp cerr c (?s\<lparr>srv_phase := Draining e\<rparr>) (?s\<lparr>srv_phase := Waited e\<rparr>)"
      using srv_step.then_wait [of "?s\<lparr>srv_phase := Draining e\<rparr>" e rp cerr c] by simp
    ultimately show ?thesis by (meson converse_rtranclp_into_rtranclp r_into_rtranclp)
  qed
  have "srv_step rp cerr c (?s\<lparr>srv_phase := Waited e\<rparr>) (?s\<lparr>srv_phase := Returned r, srv_world := w'\<rparr>)"
    using srv_step.run_returns [of "?s\<lparr>srv_phase := Waited e\<rparr>" e rp cerr c r w'] e(3) by simp
  with loop wait have "(srv_step rp cerr c)\<^sup>*\<^sup>* (srv_start w) (?s\<lparr>srv_phase := Returned r, srv_world := w'\<rparr>)"
    by (meson rtranclp.rtrancl_into_rtrancl rtranclp_trans)
  then show ?thesis
    by (intro exI [of _ "?s\<lparr>srv_phase := Returned r, srv_world := w'\<rparr>"]) simp
qed

text \<open>Whether messages are processed in goroutines does not change how one is read and processed.\<close>

lemma other_fields:
  "rp_Callbacks (rp\<lparr>NoRoutines := b\<rparr>) = rp_Callbacks rp" "rp_decoder (rp\<lparr>NoRoutines := b\<rparr>) = rp_decoder rp"
  "rp_encoder (rp\<lparr>NoRoutines := b\<rparr>) = rp_encoder rp" "rp_Handler (rp\<lparr>NoRoutines := b\<rparr>) = rp_Handler rp"
  "SerialBatch (rp\<lparr>NoRoutines := b\<rparr>) = SerialBatch rp"
  by simp_all

lemma read_message_NoRoutines: "read_message (rp\<lparr>NoRoutines := b\<rparr>) c w = read_message rp c w"
  unfolding read_message_def other_fields by (rule refl)

lemma handleRequest_NoRoutines: "handleRequest (rp\<lparr>NoRoutines := b\<rparr>) c r w = handleRequest rp c r w"
  unfolding handleRequest_def other_fields by (rule refl)

lemma handle_all_NoRoutines: "handle_all (rp\<lparr>NoRoutines := b\<rparr>) c objs w = handle_all rp c objs w"
  by (induction objs arbitrary: w) (simp_all add: handleRequest_NoRoutines)

lemma run_NoRoutines: "run (rp\<lparr>NoRoutines := b\<rparr>) gather c buf src w = run rp gather c buf src w"
  unfolding run_def runRequests_def runRequest_def encode_or_report_def handleRequest_NoRoutines handle_all_NoRoutines other_fields
  by (rule refl)

lemma run_loop_NoRoutines_Some:
  assumes "run_loop rp gather cerr c w = Some p"
  shows "run_loop (rp\<lparr>NoRoutines := b\<rparr>) gather cerr c w = Some p"
  using assms
proof (rule run_loop.raw_induct [rotated, where P = "\<lambda>rp gather cerr c w p. run_loop (rp\<lparr>NoRoutines := b\<rparr>) gather cerr c w = Some p"])
  fix loop rp gather and cerr :: "'b \<Rightarrow> go_error option" and c w p
  assume IH: "\<And>rp gather cerr c w p. loop rp gather cerr c w = Some p \<Longrightarrow> run_loop (rp\<lparr>NoRoutines := b\<rparr>) gather cerr c w = Some p"
    and body: "(case read_message rp (internal_ctx cerr False c w) w of
        NExit e w' \<Rightarrow> Some (e, w')
      | NSkip w' \<Rightarrow> loop rp gather cerr c w'
      | NMessage buf from w' \<Rightarrow> loop rp gather cerr c (run rp gather (internal_ctx cerr False c w') buf from w')) = Some p"
  then show "run_loop (rp\<lparr>NoRoutines := b\<rparr>) gather cerr c w = Some p"
    by (subst run_loop.simps) (simp add: read_message_NoRoutines run_NoRoutines split: loop_next.splits)
qed

lemma run_loop_NoRoutines: "run_loop (rp\<lparr>NoRoutines := b\<rparr>) gather cerr c w = run_loop rp gather cerr c w"
proof (cases "run_loop rp gather cerr c w")
  case (Some p)
  then show ?thesis by (simp add: run_loop_NoRoutines_Some)
next
  case None
  then show ?thesis
    using run_loop_NoRoutines_Some [of "rp\<lparr>NoRoutines := b\<rparr>" gather cerr c w _ "NoRoutines rp"]
    by (cases "run_loop (rp\<lparr>NoRoutines := b\<rparr>) gather cerr c w") simp_all
qed

lemma finish_NoRoutines: "finish (rp\<lparr>NoRoutines := b\<rparr>) cerr c e w = finish rp cerr c e w"
  unfolding finish_def RPCServer_Close_def other_fields by (rule refl)

lemma Run_sync_NoRoutines:
  "Run_sync (rp\<lparr>NoRoutines := True\<rparr>) gather cerr c w =
     map_option (\<lambda>(e, w'). finish rp cerr c e w') (run_loop rp gather cerr c w)"
  unfolding Run_sync_def run_loop_NoRoutines finish_NoRoutines by simp

subsection \<open>What a run does to the state\<close>

text \<open>The events of a run, with what each does to the state the server works on: a message is
  accepted, an iteration ends without one, the loop ends, an accepted message is processed (under a
  context the shutdown has cancelled or not).\<close>

datatype srv_event = Accepts job | Skips | Fails go_error | Processes bool job

fun srv_effect :: "'w RPCServer \<Rightarrow> ('w \<Rightarrow> go_error option) \<Rightarrow> ctx \<Rightarrow> 'w \<Rightarrow> srv_event \<Rightarrow> 'w \<Rightarrow> bool" where
  "srv_effect rp cerr c w (Accepts j) w' \<longleftrightarrow> read_message rp (internal_ctx cerr False c w) w = NMessage (fst j) (snd j) w'"
| "srv_effect rp cerr c w Skips w' \<longleftrightarrow> read_message rp (internal_ctx cerr False c w) w = NSkip w'"
| "srv_effect rp cerr c w (Fails e) w' \<longleftrightarrow> read_message rp (internal_ctx cerr False c w) w = NExit e w'"
| "srv_effect rp cerr c w (Processes b j) w' \<longleftrightarrow>
     (\<exists>gather. schedule rp gather \<and> w' = run rp gather (internal_ctx cerr b c w) (fst j) (snd j) w)"

declare srv_effect.simps(4) [simp del]

lemma processes_effect [simp]:
  "srv_effect rp cerr c w (Processes b j) w' \<longleftrightarrow> message_run rp (internal_ctx cerr b c w) j w w'"
  by (simp add: srv_effect.simps(4) message_run_def)

fun srv_effects :: "'w RPCServer \<Rightarrow> ('w \<Rightarrow> go_error option) \<Rightarrow> ctx \<Rightarrow> 'w \<Rightarrow> srv_event list \<Rightarrow> 'w \<Rightarrow> bool" where
  "srv_effects rp cerr c w [] w' \<longleftrightarrow> w' = w"
| "srv_effects rp cerr c w (ev # evs) w' \<longleftrightarrow>
     (\<exists>w1. srv_effect rp cerr c w ev w1 \<and> srv_effects rp cerr c w1 evs w')"

lemma srv_effects_append:
  "srv_effects rp cerr c w (as @ bs) w' \<longleftrightarrow> (\<exists>w1. srv_effects rp cerr c w as w1 \<and> srv_effects rp cerr c w1 bs w')"
  by (induction as arbitrary: w) auto

fun accepted_by :: "srv_event list \<Rightarrow> job list" where
  "accepted_by [] = []"
| "accepted_by (Accepts j # evs) = j # accepted_by evs"
| "accepted_by (_ # evs) = accepted_by evs"

fun processed_by :: "srv_event list \<Rightarrow> job list" where
  "processed_by [] = []"
| "processed_by (Processes b j # evs) = j # processed_by evs"
| "processed_by (_ # evs) = processed_by evs"

lemma accepted_append [simp]: "accepted_by (as @ bs) = accepted_by as @ accepted_by bs"
  by (induction as rule: accepted_by.induct) simp_all

lemma processed_append [simp]: "processed_by (as @ bs) = processed_by as @ processed_by bs"
  by (induction as rule: processed_by.induct) simp_all

text \<open>The events while the loop goes on, and those after it: the context is cancelled only after the
  loop, then nothing is read any more.\<close>

fun live_event :: "srv_event \<Rightarrow> bool" where
  "live_event (Fails e) = False"
| "live_event (Processes b j) = (\<not> b)"
| "live_event _ = True"

fun late_event :: "srv_event \<Rightarrow> bool" where
  "late_event (Processes b j) = True"
| "late_event _ = False"

text \<open>No message is processed before it was accepted, nor more often than it was accepted; a server
  that waits on close cancels the context of none; with \<^verbatim>\<open>NoRoutines\<close> a message is processed before
  anything else is read.\<close>

definition after_acceptance :: "srv_event list \<Rightarrow> bool" where
  "after_acceptance es \<longleftrightarrow> (\<forall>n. mset (processed_by (take n es)) \<subseteq># mset (accepted_by (take n es)))"

definition at_once :: "srv_event list \<Rightarrow> bool" where
  "at_once es \<longleftrightarrow> (\<forall>as j bs. es = as @ Accepts j # bs \<longrightarrow> (\<exists>cs. bs = Processes False j # cs))"

definition orderly :: "'w RPCServer \<Rightarrow> srv_event list \<Rightarrow> bool" where
  "orderly rp es \<longleftrightarrow> after_acceptance es \<and> (WaitOnClose rp \<longrightarrow> (\<forall>j. Processes True j \<notin> set es))
     \<and> (NoRoutines rp \<longrightarrow> at_once es)"

lemma after_acceptance_snoc:
  "after_acceptance (es @ [x]) \<longleftrightarrow>
     after_acceptance es \<and> mset (processed_by (es @ [x])) \<subseteq># mset (accepted_by (es @ [x]))"
proof
  assume all: "after_acceptance (es @ [x])"
  have "mset (processed_by (take n es)) \<subseteq># mset (accepted_by (take n es))" for n
    using all [unfolded after_acceptance_def, rule_format, of "min n (length es)"] by (simp add: min_def split: if_splits)
  moreover have "mset (processed_by (es @ [x])) \<subseteq># mset (accepted_by (es @ [x]))"
    using all [unfolded after_acceptance_def, rule_format, of "Suc (length es)"] by (simp del: accepted_append processed_append)
  ultimately show "after_acceptance es \<and> mset (processed_by (es @ [x])) \<subseteq># mset (accepted_by (es @ [x]))"
    by (simp add: after_acceptance_def)
next
  assume "after_acceptance es \<and> mset (processed_by (es @ [x])) \<subseteq># mset (accepted_by (es @ [x]))"
  then show "after_acceptance (es @ [x])"
    unfolding after_acceptance_def by (metis (no_types) butlast_snoc length_append_singleton not_less_eq_eq take_all take_butlast
        linorder_not_less append_Nil2 diff_is_0_eq' take0 take_append)
qed

lemma at_once_snoc: "(\<And>j. x \<noteq> Accepts j) \<Longrightarrow> at_once es \<Longrightarrow> at_once (es @ [x])"
  unfolding at_once_def
proof (intro allI impI)
  fix as j bs
  assume new: "\<And>j. x \<noteq> Accepts j" and "es @ [x] = as @ Accepts j # bs"
    and old: "\<forall>as j bs. es = as @ Accepts j # bs \<longrightarrow> (\<exists>cs. bs = Processes False j # cs)"
  then obtain bs' where "bs = bs' @ [x]" "es = as @ Accepts j # bs'"
    by (cases bs rule: rev_cases) auto
  with old show "\<exists>cs. bs = Processes False j # cs" by fastforce
qed

lemma at_once_pair: "at_once es \<Longrightarrow> at_once (es @ [Accepts j, Processes False j])"
  unfolding at_once_def
proof (intro allI impI)
  fix as k bs
  assume split: "es @ [Accepts j, Processes False j] = as @ Accepts k # bs"
    and old: "\<forall>as j bs. es = as @ Accepts j # bs \<longrightarrow> (\<exists>cs. bs = Processes False j # cs)"
  show "\<exists>cs. bs = Processes False k # cs"
  proof (cases bs rule: rev_cases)
    case Nil
    with split show ?thesis by simp
  next
    case (snoc bs1 y)
    with split have one: "es @ [Accepts j] = as @ Accepts k # bs1" "y = Processes False j"
      by auto
    show ?thesis
    proof (cases bs1 rule: rev_cases)
      case Nil
      with one snoc show ?thesis by simp
    next
      case (snoc bs2 z)
      with one have "es = as @ Accepts k # bs2" by auto
      with old snoc \<open>bs = bs1 @ [y]\<close> show ?thesis by fastforce
    qed
  qed
qed

text \<open>The loop fails once; before that the context is not cancelled by the shutdown, after it nothing is read.\<close>

definition fails_once :: "srv_event list \<Rightarrow> go_error \<Rightarrow> bool" where
  "fails_once es e \<longleftrightarrow> (\<exists>pre post. es = pre @ Fails e # post \<and> list_all live_event pre \<and> list_all late_event post)"

lemma fails_now: "list_all live_event es \<Longrightarrow> fails_once (es @ [Fails e]) e"
  by (force simp: fails_once_def)

lemma fails_then: "fails_once es e \<Longrightarrow> late_event x \<Longrightarrow> fails_once (es @ [x]) e"
  by (force simp: fails_once_def)

text \<open>The run up to a state: what it did, and the phase it is in.\<close>

definition srv_trace :: "'w RPCServer \<Rightarrow> ('w \<Rightarrow> go_error option) \<Rightarrow> ctx \<Rightarrow> 'w \<Rightarrow> srv_event list \<Rightarrow> 'w srv \<Rightarrow> bool" where
  "srv_trace rp cerr c w es s \<longleftrightarrow> orderly rp es \<and> mset (accepted_by es) = mset (srv_jobs s) + mset (processed_by es) \<and>
     (case srv_phase s of
        Looping \<Rightarrow> srv_effects rp cerr c w es (srv_world s) \<and> list_all live_event es
      | Returned r \<Rightarrow> (\<exists>e w1. fails_once es e \<and> srv_effects rp cerr c w es w1 \<and> finish rp cerr c e w1 = (r, srv_world s))
      | p \<Rightarrow> srv_effects rp cerr c w es (srv_world s) \<and> (\<exists>e. exit_error p = Some e \<and> fails_once es e))"

lemma after_acceptance_read:
  "after_acceptance es \<Longrightarrow> mset (accepted_by es) = M + mset (processed_by es) \<Longrightarrow> processed_by [x] = [] \<Longrightarrow>
   after_acceptance (es @ [x])"
  by (simp add: after_acceptance_snoc subset_mset.add_increasing2)

lemma live_read: "live_event x \<Longrightarrow> (\<forall>j. x \<noteq> Processes True j)"
  by auto

lemma srv_trace_start: "srv_trace rp cerr c w [] (srv_start w)"
  by (simp add: srv_trace_def orderly_def after_acceptance_def at_once_def)

lemma srv_trace_step:
  assumes "srv_step rp cerr c s t" "srv_trace rp cerr c w es s" "srv_inv rp s"
  shows "\<exists>es'. srv_trace rp cerr c w es' t"
proof -
  note inv = assms(3) [unfolded srv_inv_def srv_joined_def srv_patient_def srv_sequential_def]
  have counts: "after_acceptance es" "mset (accepted_by es) = mset (srv_jobs s) + mset (processed_by es)"
    using assms(2) by (simp_all add: srv_trace_def orderly_def)
  from assms(1) show ?thesis
  proof (cases rule: srv_step.cases)
    case (loop_exit e w')
    with assms(2) have "srv_trace rp cerr c w (es @ [Fails e]) t"
      using after_acceptance_read [OF counts, of "Fails e"] at_once_snoc [of "Fails e" es]
      by (auto simp: srv_trace_def orderly_def srv_effects_append exit_error_def intro: fails_now fails_then)
    then show ?thesis ..
  next
    case (loop_skip w')
    with assms(2) have "srv_trace rp cerr c w (es @ [Skips]) t"
      using after_acceptance_read [OF counts, of Skips] at_once_snoc [of Skips es]
      by (auto simp: srv_trace_def orderly_def srv_effects_append)
    then show ?thesis ..
  next
    case (loop_sync buf src w1 w')
    let ?j = "(buf, src)"
    have "after_acceptance ((es @ [Accepts ?j]) @ [Processes False ?j])"
      unfolding after_acceptance_snoc [of "es @ [Accepts ?j]"]
      using after_acceptance_read [OF counts, of "Accepts ?j"] counts(2) by simp
    with loop_sync assms(2) have "srv_trace rp cerr c w (es @ [Accepts ?j, Processes False ?j]) t"
      using at_once_pair [of es ?j]
      by (auto simp: srv_trace_def orderly_def srv_effects_append)
    then show ?thesis ..
  next
    case (loop_spawn buf src w')
    with assms(2) have "srv_trace rp cerr c w (es @ [Accepts (buf, src)]) t"
      using after_acceptance_read [OF counts, of "Accepts (buf, src)"]
      by (auto simp: srv_trace_def orderly_def srv_effects_append)
    then show ?thesis ..
  next
    case (goroutine xs j ys w')
    let ?b = "stopped (srv_phase s)"
    have more: "after_acceptance (es @ [Processes ?b j])"
      using counts goroutine(2) by (simp add: after_acceptance_snoc subset_mset.add_increasing)
    have busy: "srv_jobs s \<noteq> []" using goroutine(2) by simp
    have waits: "WaitOnClose rp \<longrightarrow> \<not> ?b" "\<not> NoRoutines rp"
      using inv busy by (auto split: phase.splits)
    have "srv_trace rp cerr c w (es @ [Processes ?b j]) t"
      using assms(2) goroutine more waits inv busy
      by (cases "srv_phase s") (auto simp: srv_trace_def orderly_def srv_effects_append exit_error_def intro: fails_now fails_then)
    then show ?thesis ..
  next
    case (wait_then_stop e)
    with assms(2) have "srv_trace rp cerr c w es t"
      by (auto simp: srv_trace_def exit_error_def)
    then show ?thesis ..
  next
    case (stop_first e)
    with assms(2) have "srv_trace rp cerr c w es t"
      by (auto simp: srv_trace_def exit_error_def)
    then show ?thesis ..
  next
    case (then_wait e)
    with assms(2) have "srv_trace rp cerr c w es t"
      by (auto simp: srv_trace_def exit_error_def)
    then show ?thesis ..
  next
    case (run_returns e r w')
    with assms(2) have "srv_trace rp cerr c w es t"
      by (auto simp: srv_trace_def exit_error_def)
    then show ?thesis ..
  qed
qed

lemma srv_trace_reachable:
  assumes "(srv_step rp cerr c)\<^sup>*\<^sup>* (srv_start w) s"
  shows "\<exists>es. srv_trace rp cerr c w es s"
  using assms
proof (induction rule: rtranclp_induct)
  case base
  show ?case by (rule exI) (rule srv_trace_start)
next
  case (step s t)
  then show ?case using srv_trace_step srv_inv_reachable by metis
qed

lemma first_accepted:
  assumes "srv_effects rp cerr c w es w1" "es \<noteq> []" "after_acceptance es"
    and "read_message rp (internal_ctx cerr False c w) w = NMessage buf src w'"
  shows "(buf, src) \<in> set (accepted_by es)"
proof -
  obtain x xs w2 where x: "es = x # xs" "srv_effect rp cerr c w x w2"
    using assms(1,2) by (cases es) auto
  have "mset (processed_by [x]) \<subseteq># mset (accepted_by [x])"
    using assms(3) [unfolded after_acceptance_def, rule_format, of 1] x(1) by simp
  with x assms(4) show ?thesis by (cases x) auto
qed

end
