(* ===== verification/StreamCodec.thy ===== *)
theory StreamCodec
  imports Handlers
begin

text \<open>
  decoder.go: the stream decoder, over the library's \<^verbatim>\<open>json.Decoder\<close>. The reader is the
  list of what its next \<^verbatim>\<open>Read\<close> calls give, data or an error, followed by
  end of file for ever. The deadline or close that a cancelled context causes shows as an error of
  the reader; \<open>env_clear_err\<close> is the result of clearing the old deadline and \<open>env_ctx_err\<close> the
  derived context's \<^verbatim>\<open>Err()\<close> when the decoding has ended.
\<close>

subsection \<open>Readers\<close>

datatype read_event = RData bytes | RFail go_error

text \<open>One \<^verbatim>\<open>Read\<close>, through an \<^verbatim>\<open>io.LimitedReader\<close> when there is a limit.\<close>

fun read_some :: "int option \<Rightarrow> read_event list \<Rightarrow> (go_error + bytes) \<times> int option \<times> read_event list" where
  "read_some lim evs =
     (if (case lim of Some n \<Rightarrow> n \<le> 0 | None \<Rightarrow> False) then (Inl (Sentinel EOF), lim, evs)
      else case evs of
        [] \<Rightarrow> (Inl (Sentinel EOF), lim, [])
      | RFail e # rest \<Rightarrow> (Inl e, lim, rest)
      | RData d # rest \<Rightarrow>
          (let k = (case lim of Some n \<Rightarrow> min (nat n) (length d) | None \<Rightarrow> length d) in
           (Inr (take k d), map_option (\<lambda>n. n - int k) lim,
            if k < length d then RData (drop k d) # rest else rest)))"

fun event_weight :: "read_event \<Rightarrow> nat" where
  "event_weight (RData d) = Suc (length d)"
| "event_weight (RFail e) = 1"

lemma read_some_weight:
  "read_some lim evs = (Inr d, lim', evs') \<Longrightarrow>
   sum_list (map event_weight evs') < sum_list (map event_weight evs)"
  by (auto simp: Let_def split: if_splits list.splits read_event.splits option.splits)

subsection \<open>The library's decoder\<close>

datatype vresult = VMore scanner nat | VEnd nat | VErr bytes

text \<open>The scan of buffered bytes for the end of the next value.\<close>

fun value_end :: "scanner \<Rightarrow> bytes \<Rightarrow> nat \<Rightarrow> vresult" where
  "value_end s [] n = VMore s n"
| "value_end s (c # cs) n =
     (let (s', code) = sc_step s c in
      case code of
        ScanEnd \<Rightarrow> VEnd n
      | ScanEndObject \<Rightarrow> if snd s' = [] then VEnd (Suc n) else value_end s' cs (Suc n)
      | ScanEndArray \<Rightarrow> if snd s' = [] then VEnd (Suc n) else value_end s' cs (Suc n)
      | ScanError \<Rightarrow> VErr (case fst s' of StError m \<Rightarrow> m | _ \<Rightarrow> [])
      | _ \<Rightarrow> value_end s' cs (Suc n))"

definition at_eof :: "scanner \<Rightarrow> bytes \<Rightarrow> nat \<Rightarrow> go_error + nat" where
  "at_eof s buf n =
     (if snd (sc_step s CHR '' '') = ScanEnd then Inr n
      else if list_all is_space buf then Inl (Sentinel EOF) else Inl (Sentinel ErrUnexpectedEOF))"

function refill :: "scanner \<Rightarrow> bytes \<Rightarrow> nat \<Rightarrow> int option \<Rightarrow> read_event list
    \<Rightarrow> (go_error + nat) \<times> bytes \<times> int option \<times> read_event list" where
  "refill s buf n lim evs =
     (case read_some lim evs of
        (Inl e, lim', evs') \<Rightarrow>
          ((if e = Sentinel EOF then at_eof s buf n else Inl e), buf, lim', evs')
      | (Inr d, lim', evs') \<Rightarrow>
          (case value_end s d n of
             VEnd k \<Rightarrow> (Inr k, buf @ d, lim', evs')
           | VErr m \<Rightarrow> (Inl (SyntaxErr m), buf @ d, lim', evs')
           | VMore s' n' \<Rightarrow> refill s' (buf @ d) n' lim' evs'))"
  by pat_completeness auto
termination
  by (relation "measure (\<lambda>(s, buf, n, lim, evs). sum_list (map event_weight evs))")
     (simp, metis case_prod_conv in_measure read_some_weight)

declare refill.simps [simp del] read_some.simps [simp del]

record jdecoder =
  jd_buf :: bytes
  jd_err :: "go_error option"

definition NewJSONDecoder :: jdecoder where
  "NewJSONDecoder = \<lparr>jd_buf = [], jd_err = None\<rparr>"

text \<open>\<^verbatim>\<open>Decode\<close> into a raw message. An error of the scan or of the reader stays.\<close>

definition jd_read :: "jdecoder \<Rightarrow> int option \<Rightarrow> read_event list
    \<Rightarrow> (go_error + nat) \<times> bytes \<times> int option \<times> read_event list" where
  "jd_read jd lim evs =
     (case value_end sc_reset (jd_buf jd) 0 of
        VEnd k \<Rightarrow> (Inr k, jd_buf jd, lim, evs)
      | VErr m \<Rightarrow> (Inl (SyntaxErr m), jd_buf jd, lim, evs)
      | VMore s n \<Rightarrow> refill s (jd_buf jd) n lim evs)"

definition jd_decode :: "jdecoder \<Rightarrow> int option \<Rightarrow> read_event list
    \<Rightarrow> (go_error + bytes) \<times> jdecoder \<times> int option \<times> read_event list" where
  "jd_decode jd lim evs =
     (case jd_err jd of
        Some e \<Rightarrow> (Inl e, jd, lim, evs)
      | None \<Rightarrow>
        (case jd_read jd lim evs of
           (Inl e, buf, lim', evs') \<Rightarrow> (Inl e, \<lparr>jd_buf = buf, jd_err = Some e\<rparr>, lim', evs')
         | (Inr k, buf, lim', evs') \<Rightarrow>
             (Inr (jtrim (take k buf)), \<lparr>jd_buf = drop k buf, jd_err = None\<rparr>, lim', evs')))"

subsection \<open>StreamDecoder\<close>

text \<open>What the reader implements besides \<^verbatim>\<open>io.Reader\<close>.\<close>

datatype rkind = PlainReader | ReadCloser | DeadlineReader

record StreamDecoder =
  sd_r :: "read_event list"
  sd_kind :: rkind
  sd_lr :: "int option"
  sd_d :: jdecoder
  sd_n :: int
  sd_t :: int

definition NewStreamDecoder :: "rkind \<Rightarrow> read_event list \<Rightarrow> StreamDecoder" where
  "NewStreamDecoder k r =
     \<lparr>sd_r = r, sd_kind = k, sd_lr = None, sd_d = NewJSONDecoder, sd_n = 0, sd_t = 0\<rparr>"

definition Decoder_SetLimit :: "StreamDecoder \<Rightarrow> int \<Rightarrow> StreamDecoder" where
  "Decoder_SetLimit i n =
     (if 0 < n then i\<lparr>sd_n := n, sd_lr := Some n, sd_d := NewJSONDecoder\<rparr>
      else i\<lparr>sd_n := n, sd_lr := None, sd_d := NewJSONDecoder\<rparr>)"

definition Decoder_SetIdleTimeout :: "StreamDecoder \<Rightarrow> int \<Rightarrow> StreamDecoder" where
  "Decoder_SetIdleTimeout i d = i\<lparr>sd_t := d\<rparr>"

definition ioErr :: "StreamDecoder \<Rightarrow> go_error \<Rightarrow> go_error" where
  "ioErr i e =
     (if (case sd_lr i of Some n \<Rightarrow> n \<le> 0 | None \<Rightarrow> False)
         \<and> (errors_is e (Sentinel EOF) \<or> errors_is e (Sentinel ErrUnexpectedEOF))
      then Sentinel ErrJSONTooLarge else e)"

definition plain_decode :: "StreamDecoder \<Rightarrow> (go_error + bytes) \<times> StreamDecoder" where
  "plain_decode i =
     (let (r, jd, lr, evs) = jd_decode (sd_d i) (sd_lr i) (sd_r i);
          i' = i\<lparr>sd_d := jd, sd_lr := lr, sd_r := evs\<rparr>
      in (case r of Inl e \<Rightarrow> Inl (ioErr i' e) | Inr v \<Rightarrow> Inr v, i'))"

record decode_env =
  env_clear_err :: "go_error option"
  env_ctx_err :: "go_error option"

definition cancelDecode :: "decode_env \<Rightarrow> StreamDecoder \<Rightarrow> (go_error + bytes) \<times> StreamDecoder" where
  "cancelDecode env i =
     (case (if sd_kind i = DeadlineReader then env_clear_err env else None) of
        Some err \<Rightarrow> (Inl err, i)
      | None \<Rightarrow>
        (case plain_decode i of
           (Inl decodeErr, i') \<Rightarrow>
             (Inl (Joined (decodeErr # (case env_ctx_err env of Some e \<Rightarrow> [e] | None \<Rightarrow> []))), i')
         | (Inr v, i') \<Rightarrow> (Inr v, i')))"

definition Decoder_Decode :: "decode_env \<Rightarrow> StreamDecoder \<Rightarrow> (go_error + bytes) \<times> StreamDecoder" where
  "Decoder_Decode env i0 =
     (let i = (if sd_lr i0 \<noteq> None then i0\<lparr>sd_lr := Some (sd_n i0)\<rparr> else i0) in
      if sd_kind i = ReadCloser \<or> sd_kind i = DeadlineReader then cancelDecode env i
      else plain_decode i)"

text \<open>\<open>close\<close> is the reader's \<^verbatim>\<open>Close\<close>, used when it has one.\<close>

definition Decoder_Close :: "('w \<Rightarrow> go_error option \<times> 'w) \<Rightarrow> StreamDecoder \<Rightarrow> 'w \<Rightarrow> go_error option \<times> 'w" where
  "Decoder_Close close i w = (if sd_kind i \<noteq> PlainReader then close w else (None, w))"

subsection \<open>Values do not depend on how the reader cuts them\<close>

lemma value_end_append:
  "value_end s (xs @ ys) n =
     (case value_end s xs n of VMore s' n' \<Rightarrow> value_end s' ys n' | r \<Rightarrow> r)"
  by (induction xs arbitrary: s n) (simp_all add: Let_def split: prod.splits scancode.splits)

text \<open>The next value of a whole stream that ends in end of file.\<close>

definition next_value :: "bytes \<Rightarrow> go_error + nat" where
  "next_value bs = (case value_end sc_reset bs 0 of
     VEnd k \<Rightarrow> Inr k | VErr m \<Rightarrow> Inl (SyntaxErr m) | VMore s n \<Rightarrow> at_eof s bs n)"

fun finish_value :: "bytes \<Rightarrow> vresult \<Rightarrow> go_error + nat" where
  "finish_value bs (VEnd k) = Inr k"
| "finish_value bs (VErr m) = Inl (SyntaxErr m)"
| "finish_value bs (VMore s n) = at_eof s bs n"

lemma next_value_finish: "next_value bs = finish_value bs (value_end sc_reset bs 0)"
  by (simp add: next_value_def split: vresult.split)

fun data_of :: "read_event list \<Rightarrow> bytes" where
  "data_of [] = []"
| "data_of (RData d # evs) = d @ data_of evs"
| "data_of (RFail e # evs) = data_of evs"

definition only_data :: "read_event list \<Rightarrow> bool" where
  "only_data evs \<longleftrightarrow> (\<forall>ev \<in> set evs. \<exists>d. ev = RData d)"

lemma read_some_unlimited:
  "read_some None [] = (Inl (Sentinel EOF), None, [])"
  "read_some None (RData d # evs) = (Inr d, None, evs)"
  "read_some None (RFail e # evs) = (Inl e, None, evs)"
  by (simp_all add: read_some.simps Let_def)

lemma refill_data:
  assumes "only_data evs"
  shows "\<exists>buf' evs'. refill s buf n None evs =
      (finish_value (buf @ data_of evs) (value_end s (data_of evs) n), buf', None, evs')
    \<and> buf' @ data_of evs' = buf @ data_of evs \<and> only_data evs'"
  using assms
proof (induction evs arbitrary: s buf n)
  case Nil
  then show ?case
    by (subst refill.simps) (simp add: read_some_unlimited only_data_def)
next
  case (Cons ev evs)
  then obtain d where d: "ev = RData d" and evs: "only_data evs"
    by (auto simp: only_data_def)
  show ?case
  proof (cases "value_end s d n")
    case (VMore s' n')
    then have "refill s buf n None (ev # evs) = refill s' (buf @ d) n' None evs"
      using d by (subst refill.simps) (simp add: read_some_unlimited)
    then show ?thesis
      using Cons.IH [OF evs, of s' "buf @ d" n'] VMore d by (simp add: value_end_append)
  next
    case (VEnd k)
    then have "refill s buf n None (ev # evs) = (Inr k, buf @ d, None, evs)"
      using d by (subst refill.simps) (simp add: read_some_unlimited)
    then show ?thesis
      using VEnd d evs by (simp add: value_end_append)
  next
    case (VErr m)
    then have "refill s buf n None (ev # evs) = (Inl (SyntaxErr m), buf @ d, None, evs)"
      using d by (subst refill.simps) (simp add: read_some_unlimited)
    then show ?thesis
      using VErr d evs by (simp add: value_end_append)
  qed
qed

lemma jd_read_data:
  assumes "only_data evs"
  shows "\<exists>buf' evs'. jd_read jd None evs = (next_value (jd_buf jd @ data_of evs), buf', None, evs')
    \<and> buf' @ data_of evs' = jd_buf jd @ data_of evs \<and> only_data evs'"
proof (cases "value_end sc_reset (jd_buf jd) 0")
  case (VMore s n)
  then show ?thesis
    using refill_data [OF assms, of s "jd_buf jd" n]
    by (simp add: jd_read_def next_value_finish value_end_append)
qed (use assms in \<open>auto simp: jd_read_def next_value_finish value_end_append\<close>)

end
