(* ===== verification/Framing.thy ===== *)
theory Framing
  imports StreamCodec
begin

text \<open>
  Framing of the stream transport: successive \<^verbatim>\<open>Decode\<close> calls give back the values that were
  written one after the other, however the reader cuts the bytes; a decoder that failed stays
  failed; and a read limit bounds what one call takes from the reader.
\<close>

subsection \<open>Bounds of the scan\<close>

lemma value_end_bounds:
  "(case value_end s xs n of VMore s' m \<Rightarrow> m = n + length xs | VEnd k \<Rightarrow> n \<le> k \<and> k \<le> n + length xs
    | VErr m \<Rightarrow> True)"
proof (induction xs arbitrary: s n)
  case (Cons c cs)
  have IH: "case value_end (fst (sc_step s c)) cs (Suc n) of VMore s' m \<Rightarrow> m = n + length (c # cs)
      | VEnd k \<Rightarrow> n \<le> k \<and> k \<le> n + length (c # cs) | VErr m \<Rightarrow> True"
    using Cons.IH [where s = "fst (sc_step s c)" and n = "Suc n"] by (auto split: vresult.splits)
  then show ?case
    by (cases "snd (sc_step s c)") (simp_all add: Let_def split_beta)
qed simp

lemma value_end_VEnd_le: "value_end s xs n = VEnd k \<Longrightarrow> k \<le> n + length xs"
  using value_end_bounds [where s = s and xs = xs and n = n] by simp

lemma value_end_VMore_eq: "value_end s xs n = VMore s' m \<Longrightarrow> m = n + length xs"
  using value_end_bounds [where s = s and xs = xs and n = n] by simp

fun shift_result :: "nat \<Rightarrow> vresult \<Rightarrow> vresult" where
  "shift_result k (VEnd n) = VEnd (n + k)"
| "shift_result k (VMore s n) = VMore s (n + k)"
| "shift_result k (VErr m) = VErr m"

lemma value_end_shift: "value_end s xs (n + k) = shift_result k (value_end s xs n)"
proof (induction xs arbitrary: s n)
  case (Cons c cs)
  have "value_end s' cs (Suc (n + k)) = shift_result k (value_end s' cs (Suc n))" for s'
    using Cons.IH [of s' "Suc n"] by simp
  then show ?case
    by (cases "snd (sc_step s c)") (simp_all add: Let_def split_beta)
qed simp

subsection \<open>Inside an object or an array\<close>

definition inner :: "scanner \<Rightarrow> bool" where
  "inner s \<longleftrightarrow> snd s \<noteq> [] \<and> (case fst s of StEndTop \<Rightarrow> False | StError m \<Rightarrow> False | _ \<Rightarrow> True)"

text \<open>What a step from inside does: it fails, closes the outermost value, or stays inside.\<close>

definition inner_next :: "scanner \<times> scancode \<Rightarrow> bool" where
  "inner_next r \<longleftrightarrow>
     (snd r = ScanError \<and> (\<exists>m. fst (fst r) = StError m))
     \<or> (snd r = ScanEndObject \<or> snd r = ScanEndArray) \<and> fst r = (StEndTop, [])
     \<or> snd r \<noteq> ScanError \<and> snd r \<noteq> ScanEnd \<and> inner (fst r)"

lemma inner_next_simps [simp]:
  "inner_next (serror ps c m)"
  "inner_next ((st, p # ps), k) \<longleftrightarrow> k = ScanError \<and> (\<exists>m. st = StError m)
     \<or> k \<noteq> ScanError \<and> k \<noteq> ScanEnd \<and> inner (st, p # ps)"
  by (auto simp: inner_next_def serror_def)

lemma inner_next_end_value: "ps \<noteq> [] \<Longrightarrow> inner_next (end_value c ps)"
proof (cases ps)
  case (Cons p qs)
  show ?thesis
    by (cases p; cases qs) (auto simp: Cons inner_def inner_next_def pop_state_def serror_def)
qed simp

lemma inner_next_push: "st \<noteq> StEndTop \<Longrightarrow> (\<forall>m. st \<noteq> StError m) \<Longrightarrow> k \<noteq> ScanError \<Longrightarrow> k \<noteq> ScanEnd \<Longrightarrow>
    inner_next (push_state c st p ps k)"
  by (cases st) (auto simp: push_state_def inner_def)

lemma inner_next_begin_value: "ps \<noteq> [] \<Longrightarrow> inner_next (begin_value c ps)"
  by (cases ps) (simp_all add: begin_value_def inner_next_push inner_def)

lemma inner_next_begin_string: "ps \<noteq> [] \<Longrightarrow> inner_next (begin_string c ps)"
  by (cases ps) (simp_all add: begin_string_def inner_def)

lemma inner_step:
  assumes "inner s"
  shows "inner_next (sc_step s c)"
proof -
  obtain st p ps where s: "s = (st, p # ps)" and st: "st \<noteq> StEndTop" "\<And>m. st \<noteq> StError m"
    using assms by (cases s; cases "snd s"; cases "fst s") (auto simp: inner_def)
  note rules = inner_next_end_value inner_next_begin_value inner_next_begin_string
  show ?thesis
  proof (cases st)
    case (StLit w xs)
    then show ?thesis
      by (cases xs) (simp_all add: s rules inner_def del: end_value.simps)
  qed (use st in \<open>simp_all add: s rules inner_def del: end_value.simps\<close>)
qed

text \<open>The scan of a value that has begun reaches its end exactly where the value closes.\<close>

lemma value_end_inner:
  assumes "inner s"
  shows "case value_end s xs n of
      VMore s' m \<Rightarrow> s' = sc_run s xs \<and> inner s'
    | VErr m \<Rightarrow> \<exists>e ps. sc_run s xs = (StError e, ps)
    | VEnd k \<Rightarrow> n < k \<and> sc_run s (take (k - n) xs) = (StEndTop, [])"
  using assms
proof (induction xs arbitrary: s n)
  case (Cons c cs)
  obtain s1 k where s1: "sc_step s c = (s1, k)" by fastforce
  have cases: "k = ScanError \<and> (\<exists>m. fst s1 = StError m)
      \<or> (k = ScanEndObject \<or> k = ScanEndArray) \<and> s1 = (StEndTop, [])
      \<or> k \<noteq> ScanError \<and> k \<noteq> ScanEnd \<and> inner s1"
    using inner_step [OF Cons.prems, of c] s1 by (simp add: inner_next_def)
  show ?case
  proof (cases "inner s1 \<and> k \<noteq> ScanError \<and> k \<noteq> ScanEnd")
    case True
    then have "value_end s (c # cs) n = value_end s1 cs (Suc n)"
      using s1 by (auto simp: inner_def split: scancode.split)
    moreover have "take (j - n) (c # cs) = c # take (j - Suc n) cs" if "Suc n < j" for j
      using that by (metis Suc_diff_Suc Suc_lessD take_Suc_Cons)
    ultimately show ?thesis
      using Cons.IH [of s1 "Suc n"] True s1 by (auto split: vresult.splits)
  next
    case False
    with cases show ?thesis
      using s1 by (cases s1) (auto split: vresult.splits)
  qed
qed simp

lemma inner_space:
  assumes "inner s"
  shows "snd (sc_step s CHR '' '') \<noteq> ScanEndObject \<and> snd (sc_step s CHR '' '') \<noteq> ScanEndArray"
proof -
  obtain st p ps where s: "s = (st, p # ps)" and st: "st \<noteq> StEndTop" "\<And>m. st \<noteq> StError m"
    using assms by (cases s; cases "snd s"; cases "fst s") (auto simp: inner_def)
  have rules: "snd (end_value CHR '' '' (q # qs)) = ScanSkipSpace"
    "snd (begin_value CHR '' '' qs) = ScanSkipSpace" "snd (begin_string CHR '' '' qs) = ScanSkipSpace"
    "snd (serror qs c m) = ScanError" for q qs c m
    by (simp_all add: is_space_def begin_value_def begin_string_def serror_def)
  show ?thesis
  proof (cases st)
    case (StLit w xs)
    then show ?thesis
      by (cases xs) (simp_all add: s rules del: end_value.simps)
  qed (use st in \<open>simp_all add: s rules del: end_value.simps\<close>)
qed

lemma inner_not_eof:
  assumes "inner s"
  shows "sc_eof s \<noteq> None"
proof -
  have "fst (fst (sc_step s CHR '' '')) \<noteq> StEndTop"
    using inner_step [OF assms, of "CHR '' ''"] inner_space [OF assms]
    by (auto simp: inner_next_def inner_def)
  then show ?thesis
    using assms by (auto simp: sc_eof_def inner_def split: sstep.splits)
qed

lemma run_top_spaces:
  "sc_eof (sc_run (StEndTop, []) xs) = None \<Longrightarrow> list_all is_space xs"
proof (induction xs)
  case (Cons c xs)
  then show ?case
    by (cases "is_space c") (auto simp: end_top_def serror_def sc_eof_def)
qed simp

subsection \<open>Self-delimiting values\<close>

text \<open>A JSON object or array without white space around it.\<close>

definition framed :: "bytes \<Rightarrow> bool" where
  "framed v \<longleftrightarrow> json_valid v \<and> v \<noteq> [] \<and> (hd v = CHR ''{'' \<or> hd v = CHR ''['') \<and> \<not> is_space (last v)"

lemma framed_jtrim [simp]: "framed v \<Longrightarrow> jtrim v = v"
  by (rule jtrim_id) (auto simp: framed_def is_space_def)

lemma first_step:
  "sc_step sc_reset CHR ''{'' = ((StBeginStringOrEmpty, [ParseObjectKey]), ScanBeginObject)"
  "sc_step sc_reset CHR ''['' = ((StBeginValueOrEmpty, [ParseArrayValue]), ScanBeginArray)"
  by (simp_all add: sc_reset_def begin_value_def push_state_def is_space_def max_depth_def)

lemma first_inner: "c = CHR ''{'' \<or> c = CHR ''['' \<Longrightarrow> inner (fst (sc_step sc_reset c))"
  by (erule disjE) (simp_all add: first_step inner_def)

lemma framed_value_end:
  assumes "framed v"
  shows "value_end sc_reset v 0 = VEnd (length v)"
proof -
  obtain c cs where v: "v = c # cs" and c: "c = CHR ''{'' \<or> c = CHR ''[''"
    using assms by (cases v) (auto simp: framed_def)
  let ?s = "fst (sc_step sc_reset c)"
  have start: "value_end sc_reset v 0 = value_end ?s cs (Suc 0)"
    using c by (elim disjE) (simp_all add: v Let_def split_beta first_step)
  have eof: "sc_eof (sc_run ?s cs) = None"
    using assms by (simp add: framed_def json_valid_def check_valid_def v)
  note ends = value_end_inner [OF first_inner [OF c], where xs = cs and n = "Suc 0"]
  show ?thesis
  proof (cases "value_end ?s cs (Suc 0)")
    case (VMore s' m)
    then have "s' = sc_run ?s cs" "inner s'" using ends by auto
    then show ?thesis using inner_not_eof [of s'] eof by simp
  next
    case (VErr m)
    with ends eof show ?thesis by (auto simp: sc_eof_def)
  next
    case (VEnd k)
    then have top: "sc_run ?s (take (k - Suc 0) cs) = (StEndTop, [])" and k: "Suc 0 < k"
      using ends by auto
    have kle: "k \<le> Suc (length cs)"
      using value_end_VEnd_le [OF VEnd] by simp
    have "list_all is_space (drop (k - Suc 0) cs)"
    proof (rule run_top_spaces)
      show "sc_eof (sc_run (StEndTop, []) (drop (k - Suc 0) cs)) = None"
        using eof top by (metis append_take_drop_id sc_run_append)
    qed
    moreover have "\<not> is_space (last (drop (k - Suc 0) cs))" if "drop (k - Suc 0) cs \<noteq> []"
      using that assms by (simp add: framed_def v split: if_splits)
    ultimately have "drop (k - Suc 0) cs = []"
      by (metis last_in_set list_all_iff)
    then have "k = length v"
      using k kle by (simp add: v)
    with VEnd start show ?thesis by simp
  qed
qed

text \<open>White space before a value belongs to it; the newline the encoder writes after a value
  comes before the next one.\<close>

lemma value_end_spaces:
  "list_all is_space sp \<Longrightarrow> value_end sc_reset (sp @ xs) 0 = shift_result (length sp) (value_end sc_reset xs 0)"
proof (induction sp)
  case Nil
  show ?case by (cases "value_end sc_reset xs 0") simp_all
next
  case (Cons c sp)
  then have "value_end sc_reset (c # sp @ xs) 0 = value_end sc_reset (sp @ xs) (0 + 1)"
    by (simp add: sc_reset_def begin_value_def)
  with Cons show ?case
    by (cases "value_end sc_reset xs 0") (simp_all only: value_end_shift, simp_all)
qed

lemma next_value_framed:
  assumes "framed v" "list_all is_space sp"
  shows "next_value (sp @ v @ rest) = Inr (length sp + length v)"
proof -
  have "value_end sc_reset (v @ rest) 0 = VEnd (length v)"
    using framed_value_end [OF assms(1)] by (simp add: value_end_append)
  then show ?thesis
    by (simp add: next_value_finish value_end_spaces [OF assms(2)])
qed

subsection \<open>Successive Decode calls\<close>

lemma refill_bound:
  "refill s buf n lim evs = (Inr k, buf', lim', evs') \<Longrightarrow> n \<le> length buf \<Longrightarrow> k \<le> length buf'"
proof (induction s buf n lim evs arbitrary: k rule: refill.induct)
  case (1 s buf n lim evs)
  obtain r l e where r: "read_some lim evs = (r, l, e)" by (metis surj_pair)
  show ?case
  proof (cases r)
    case (Inl x)
    then show ?thesis
      using 1 r by (subst (asm) refill.simps) (auto simp: at_eof_def split: if_splits)
  next
    case (Inr d)
    note eq = "1.prems"(1) [unfolded refill.simps [of s buf n lim evs] r Inr]
    show ?thesis
    proof (cases "value_end s d n")
      case (VMore s' n')
      then have "n' \<le> length (buf @ d)"
        using value_end_VMore_eq [OF VMore] "1.prems"(2) by simp
      then show ?thesis
        using "1.IH" [OF r [symmetric] Inr refl VMore] eq VMore by simp
    next
      case (VEnd j)
      then show ?thesis
        using value_end_VEnd_le [OF VEnd] "1.prems"(2) eq by auto
    qed (use eq in simp)
  qed
qed

lemma jd_read_bound: "jd_read jd lim evs = (Inr k, buf', lim', evs') \<Longrightarrow> k \<le> length buf'"
  by (auto simp: jd_read_def dest: value_end_VEnd_le dest!: value_end_VMore_eq refill_bound
      split: vresult.splits)

definition sd_pending :: "StreamDecoder \<Rightarrow> bytes" where
  "sd_pending i = jd_buf (sd_d i) @ data_of (sd_r i)"

text \<open>A decoder without a limit that has not failed, on a reader that gives data only.\<close>

definition healthy :: "StreamDecoder \<Rightarrow> bool" where
  "healthy i \<longleftrightarrow> sd_lr i = None \<and> jd_err (sd_d i) = None \<and> only_data (sd_r i)"

lemma plain_decode_data:
  assumes "healthy i" "next_value (sd_pending i) = Inr k"
  shows "\<exists>i'. plain_decode i = (Inr (jtrim (take k (sd_pending i))), i') \<and> healthy i'
    \<and> sd_pending i' = drop k (sd_pending i) \<and> sd_kind i' = sd_kind i"
proof -
  obtain buf evs where rd: "jd_read (sd_d i) None (sd_r i) = (Inr k, buf, None, evs)"
    and eq: "buf @ data_of evs = sd_pending i" and data: "only_data evs"
    using jd_read_data [of "sd_r i" "sd_d i"] assms by (auto simp: healthy_def sd_pending_def)
  have "k \<le> length buf" using jd_read_bound [OF rd] .
  then have "take k buf = take k (sd_pending i)" "drop k buf @ data_of evs = drop k (sd_pending i)"
    using eq by (metis take_append diff_is_0_eq take_0 append_Nil2, metis drop_append diff_is_0_eq drop_0 eq)
  then show ?thesis
    using assms rd data by (simp add: plain_decode_def jd_decode_def healthy_def sd_pending_def)
qed

lemma Decode_data:
  assumes "healthy i" "next_value (sd_pending i) = Inr k" "env_clear_err env = None"
  shows "\<exists>i'. Decoder_Decode env i = (Inr (jtrim (take k (sd_pending i))), i') \<and> healthy i'
    \<and> sd_pending i' = drop k (sd_pending i)"
  using plain_decode_data [OF assms(1,2)] assms
  by (auto simp: Decoder_Decode_def cancelDecode_def healthy_def)

fun decode_seq :: "decode_env list \<Rightarrow> StreamDecoder \<Rightarrow> (go_error + bytes) list \<times> StreamDecoder" where
  "decode_seq [] i = ([], i)"
| "decode_seq (env # envs) i =
     (let (r, i1) = Decoder_Decode env i; (rs, i2) = decode_seq envs i1 in (r # rs, i2))"

lemma jtrim_spaces: "list_all is_space sp \<Longrightarrow> framed v \<Longrightarrow> jtrim (sp @ v) = v"
proof -
  assume "list_all is_space sp" "framed v"
  then have "ltrim (sp @ v) = ltrim v"
    by (induction sp) (auto simp: ltrim_def)
  with \<open>framed v\<close> show ?thesis
    using framed_jtrim [of v] by (simp add: jtrim_def)
qed

lemma decode_seq_framed:
  assumes "healthy i" "\<forall>env \<in> set envs. env_clear_err env = None" "length envs = length vs"
    and "sd_pending i = sp @ concat (map (\<lambda>v. v @ [CHR 0x0A]) vs) @ rest" "list_all is_space sp"
    and "\<forall>v \<in> set vs. framed v"
  shows "fst (decode_seq envs i) = map Inr vs \<and>
    (\<exists>sp'. list_all is_space sp' \<and> sd_pending (snd (decode_seq envs i)) = sp' @ rest)"
  using assms
proof (induction envs arbitrary: i vs sp)
  case Nil
  then show ?case by auto
next
  case (Cons env envs)
  then obtain v us where vs: "vs = v # us" by (cases vs) auto
  let ?k = "length sp + length v"
  have pend: "sd_pending i = (sp @ v) @ [CHR 0x0A] @ concat (map (\<lambda>v. v @ [CHR 0x0A]) us) @ rest"
    using Cons.prems vs by simp
  have "next_value (sd_pending i) = Inr ?k"
    using Cons.prems vs pend next_value_framed [of v sp] by simp
  from Decode_data [OF Cons.prems(1) this, of env] Cons.prems(2)
  obtain i' where i': "Decoder_Decode env i = (Inr (jtrim (take ?k (sd_pending i))), i')" "healthy i'"
    "sd_pending i' = drop ?k (sd_pending i)"
    by auto
  have take: "take ?k (sd_pending i) = sp @ v" and
    drop: "sd_pending i' = [CHR 0x0A] @ concat (map (\<lambda>v. v @ [CHR 0x0A]) us) @ rest"
    using i'(3) by (simp_all add: pend)
  have "fst (decode_seq envs i') = map Inr us \<and>
      (\<exists>sp'. list_all is_space sp' \<and> sd_pending (snd (decode_seq envs i')) = sp' @ rest)"
    by (rule Cons.IH [OF i'(2) _ _ drop]) (use Cons.prems vs in \<open>auto simp: is_space_def\<close>)
  then show ?case
    using i'(1) take Cons.prems vs by (simp add: Let_def split_beta jtrim_spaces)
qed

subsection \<open>Failure and the read limit\<close>

text \<open>An error of the scan or the reader stays: later calls fail without reading.\<close>

lemma plain_decode_error_stays:
  "plain_decode i = (Inl e, i') \<Longrightarrow> jd_err (sd_d i') \<noteq> None"
  by (auto simp: plain_decode_def jd_decode_def Let_def split: prod.splits sum.splits option.splits)

lemma plain_decode_failed:
  "jd_err (sd_d i) = Some e \<Longrightarrow> plain_decode i = (Inl (ioErr i e), i)"
  by (simp add: plain_decode_def jd_decode_def)

lemma read_some_limit:
  assumes "read_some (Some l) evs = (r, lim', evs')" "0 \<le> l"
  shows "\<exists>l'. lim' = Some l' \<and> 0 \<le> l' \<and> l' \<le> l \<and> (case r of Inr d \<Rightarrow> int (length d) = l - l' | Inl e \<Rightarrow> l' = l)"
  using assms
  by (auto simp: read_some.simps Let_def split: if_splits list.splits read_event.splits)

lemma refill_limit:
  "refill s buf n lim evs = (r, buf', lim', evs') \<Longrightarrow> lim = Some l \<Longrightarrow> 0 \<le> l \<Longrightarrow>
   \<exists>l'. lim' = Some l' \<and> 0 \<le> l' \<and> int (length buf') - int (length buf) = l - l'"
proof (induction s buf n lim evs arbitrary: l rule: refill.induct)
  case (1 s buf n lim evs)
  obtain x lx ex where rs: "read_some lim evs = (x, lx, ex)" by (metis surj_pair)
  from read_some_limit [OF rs [unfolded \<open>lim = Some l\<close>] \<open>0 \<le> l\<close>]
  obtain l1 where l1: "lx = Some l1" "0 \<le> l1" and
    x: "case x of Inr d \<Rightarrow> int (length d) = l - l1 | Inl e \<Rightarrow> l1 = l" by auto
  note eq = "1.prems"(1) [unfolded refill.simps [of s buf n lim evs] rs]
  show ?case
  proof (cases x)
    case (Inl e)
    with eq x l1 show ?thesis by auto
  next
    case (Inr d)
    show ?thesis
    proof (cases "value_end s d n")
      case (VMore s' n')
      then show ?thesis
        using "1.IH" [OF rs [symmetric] Inr refl VMore _ l1] eq Inr x by auto
    qed (use eq Inr x l1 in auto)
  qed
qed

lemma jd_decode_limit:
  assumes "jd_decode jd (Some l) evs = (r, jd', lim', evs')" "0 \<le> l"
  shows "int (length (jd_buf jd')) \<le> int (length (jd_buf jd)) + l"
proof (cases "jd_err jd")
  case None
  obtain x buf lx ex where rd: "jd_read jd (Some l) evs = (x, buf, lx, ex)" by (metis surj_pair)
  have "int (length buf) \<le> int (length (jd_buf jd)) + l"
    using rd assms(2)
    by (auto simp: jd_read_def dest!: refill_limit split: vresult.splits)
  moreover have "length (jd_buf jd') \<le> length buf"
    using assms(1) None rd by (auto simp: jd_decode_def split: sum.splits)
  ultimately show ?thesis by linarith
qed (use assms in \<open>auto simp: jd_decode_def\<close>)

subsection \<open>Every decoded value uses up input\<close>

definition decoder_weight :: "StreamDecoder \<Rightarrow> nat" where
  "decoder_weight d = sum_list (map event_weight (sd_r d)) + length (jd_buf (sd_d d))"

lemma value_end_pos: "value_end sc_reset xs 0 = VEnd k \<Longrightarrow> 0 < k"
proof (cases xs)
  case (Cons c cs)
  assume k: "value_end sc_reset xs 0 = VEnd k"
  have "snd (sc_step sc_reset c) \<noteq> ScanEnd"
    by (simp add: sc_reset_def begin_value_def push_state_def serror_def)
  with k Cons show ?thesis
    using value_end_bounds [where s = "fst (sc_step sc_reset c)" and xs = cs and n = "Suc 0"]
    by (auto simp: Let_def split_beta split: scancode.splits if_splits)
qed simp

lemma read_some_total:
  "read_some lim evs = (r, lim', evs') \<Longrightarrow>
   sum_list (map event_weight evs') + (case r of Inr d \<Rightarrow> length d | Inl e \<Rightarrow> 0) \<le> sum_list (map event_weight evs)"
  by (auto simp: read_some.simps Let_def split: if_splits list.splits read_event.splits option.splits)

lemma at_eof_pos: "at_eof s buf n = Inr k \<Longrightarrow> (n = 0 \<longrightarrow> s = sc_reset) \<Longrightarrow> 0 < k"
  by (auto simp: at_eof_def sc_reset_def begin_value_def is_space_def split: if_splits)

lemma refill_total:
  "refill s buf n lim evs = (r, buf', lim', evs') \<Longrightarrow> (n = 0 \<longrightarrow> s = sc_reset) \<Longrightarrow>
   sum_list (map event_weight evs') + length buf' \<le> sum_list (map event_weight evs) + length buf
   \<and> (\<forall>k. r = Inr k \<longrightarrow> 0 < k)"
proof (induction s buf n lim evs rule: refill.induct)
  case (1 s buf n lim evs)
  obtain x lx ex where rs: "read_some lim evs = (x, lx, ex)" by (metis surj_pair)
  note total = read_some_total [OF rs]
  note eq = "1.prems"(1) [unfolded refill.simps [of s buf n lim evs] rs]
  show ?case
  proof (cases x)
    case (Inl e)
    with eq total "1.prems"(2) show ?thesis
      by (auto dest: at_eof_pos split: if_splits)
  next
    case (Inr d)
    show ?thesis
    proof (cases "value_end s d n")
      case (VMore s' n')
      have zero: "n' = 0 \<longrightarrow> s' = sc_reset"
        using value_end_VMore_eq [OF VMore] VMore "1.prems"(2) by auto
      show ?thesis
        using "1.IH" [OF rs [symmetric] Inr refl VMore _ zero] eq Inr VMore total by simp
    next
      case (VEnd k)
      have "0 < k"
      proof (cases n)
        case 0
        then show ?thesis using VEnd "1.prems"(2) value_end_pos by auto
      next
        case (Suc m)
        then show ?thesis
          using value_end_bounds [where s = s and xs = d and n = n] VEnd by simp
      qed
      with VEnd eq Inr total show ?thesis by auto
    qed (use eq Inr total in auto)
  qed
qed

lemma jd_read_total:
  assumes "jd_read jd lim evs = (r, buf', lim', evs')"
  shows "sum_list (map event_weight evs') + length buf' \<le> sum_list (map event_weight evs) + length (jd_buf jd)"
    "r = Inr k \<Longrightarrow> 0 < k"
proof -
  have zero: "n = 0 \<longrightarrow> s = sc_reset" if "value_end sc_reset (jd_buf jd) 0 = VMore s n" for s n
    using value_end_VMore_eq [OF that] that by auto
  show "sum_list (map event_weight evs') + length buf' \<le> sum_list (map event_weight evs) + length (jd_buf jd)"
    using assms zero by (auto simp: jd_read_def dest: refill_total split: vresult.splits)
  show "0 < k" if "r = Inr k"
    using assms zero that by (auto simp: jd_read_def dest: refill_total value_end_pos split: vresult.splits)
qed

lemma plain_decode_lowers:
  assumes "plain_decode i = (Inr v, i')"
  shows "decoder_weight i' < decoder_weight i"
proof -
  obtain k buf lim evs where rd: "jd_read (sd_d i) (sd_lr i) (sd_r i) = (Inr k, buf, lim, evs)"
    and i': "sd_r i' = evs" "jd_buf (sd_d i') = drop k buf"
    using assms by (auto simp: plain_decode_def jd_decode_def Let_def split: prod.splits sum.splits option.splits)
  then show ?thesis
    using jd_read_total [OF rd] jd_read_bound [OF rd] by (simp add: decoder_weight_def)
qed

lemma Decode_lowers:
  assumes "Decoder_Decode env i = (Inr v, i')"
  shows "decoder_weight i' < decoder_weight i"
proof -
  define j where "j = (if sd_lr i \<noteq> None then i\<lparr>sd_lr := Some (sd_n i)\<rparr> else i)"
  have "plain_decode j = (Inr v, i')"
    using assms
    by (auto simp: Decoder_Decode_def cancelDecode_def Let_def j_def split: if_splits option.splits sum.splits prod.splits)
  moreover have "decoder_weight j = decoder_weight i"
    by (simp add: j_def decoder_weight_def)
  ultimately show ?thesis
    using plain_decode_lowers by metis
qed

subsection \<open>Where errors come from\<close>

text \<open>An error of a decoder is one of the reader or one of its own.\<close>

definition fails_sat :: "(go_error \<Rightarrow> bool) \<Rightarrow> read_event list \<Rightarrow> bool" where
  "fails_sat P evs \<longleftrightarrow> (\<forall>e. RFail e \<in> set evs \<longrightarrow> P e)"

definition own_error :: "go_error \<Rightarrow> bool" where
  "own_error e \<longleftrightarrow> (\<exists>m. e = SyntaxErr m)
     \<or> e \<in> {Sentinel EOF, Sentinel ErrUnexpectedEOF, Sentinel ErrJSONTooLarge}"

lemma read_some_fails:
  "read_some lim evs = (r, lim', evs') \<Longrightarrow> fails_sat P evs \<Longrightarrow>
   fails_sat P evs' \<and> (case r of Inl e \<Rightarrow> P e \<or> own_error e | Inr d \<Rightarrow> True)"
  by (auto simp: read_some.simps Let_def fails_sat_def own_error_def
      split: if_splits list.splits read_event.splits option.splits)

lemma refill_fails:
  "refill s buf n lim evs = (r, buf', lim', evs') \<Longrightarrow> fails_sat P evs \<Longrightarrow>
   fails_sat P evs' \<and> (case r of Inl e \<Rightarrow> P e \<or> own_error e | Inr k \<Rightarrow> True)"
proof (induction s buf n lim evs rule: refill.induct)
  case (1 s buf n lim evs)
  obtain x lx ex where rs: "read_some lim evs = (x, lx, ex)" by (metis surj_pair)
  note fails = read_some_fails [OF rs "1.prems"(2)]
  note eq = "1.prems"(1) [unfolded refill.simps [of s buf n lim evs] rs]
  show ?case
  proof (cases x)
    case (Inl e)
    with eq fails show ?thesis
      by (auto simp: at_eof_def own_error_def split: if_splits)
  next
    case (Inr d)
    show ?thesis
    proof (cases "value_end s d n")
      case (VMore s' n')
      then show ?thesis
        using "1.IH" [OF rs [symmetric] Inr refl VMore] eq Inr fails by simp
    qed (use eq Inr fails in \<open>auto simp: own_error_def\<close>)
  qed
qed

definition decoder_sat :: "(go_error \<Rightarrow> bool) \<Rightarrow> StreamDecoder \<Rightarrow> bool" where
  "decoder_sat P i \<longleftrightarrow> fails_sat P (sd_r i) \<and> (\<forall>e. jd_err (sd_d i) = Some e \<longrightarrow> P e \<or> own_error e)"

lemma jd_read_fails:
  "jd_read jd lim evs = (r, buf', lim', evs') \<Longrightarrow> fails_sat P evs \<Longrightarrow>
   fails_sat P evs' \<and> (case r of Inl e \<Rightarrow> P e \<or> own_error e | Inr k \<Rightarrow> True)"
  by (auto simp: jd_read_def own_error_def dest: refill_fails split: vresult.splits)

lemma plain_decode_fails:
  assumes "plain_decode i = (r, i')" "decoder_sat P i"
  shows "decoder_sat P i' \<and> (case r of Inl e \<Rightarrow> P e \<or> own_error e | Inr v \<Rightarrow> True)"
proof (cases "jd_err (sd_d i)")
  case None
  obtain x buf lim evs where rd: "jd_read (sd_d i) (sd_lr i) (sd_r i) = (x, buf, lim, evs)"
    by (metis surj_pair)
  from jd_read_fails [OF rd, of P] assms None rd show ?thesis
    by (cases x) (auto simp: plain_decode_def jd_decode_def decoder_sat_def ioErr_def own_error_def)
next
  case (Some e)
  then show ?thesis
    using assms plain_decode_failed [OF Some]
    by (auto simp: decoder_sat_def ioErr_def own_error_def)
qed

lemma decoder_sat_limit [simp]: "decoder_sat P (i\<lparr>sd_lr := x\<rparr>) = decoder_sat P i"
  by (simp add: decoder_sat_def)

text \<open>The error of \<^verbatim>\<open>Decode\<close>: its own or the reader's, alone or joined with the context's.\<close>

lemma Decode_fails:
  assumes "Decoder_Decode env i = (r, i')" "decoder_sat P i"
    and "env_clear_err env = None"
  shows "decoder_sat P i' \<and> (case r of
      Inl e \<Rightarrow> \<exists>x. (P x \<or> own_error x) \<and>
        (e = x \<or> e = Joined (x # (case env_ctx_err env of Some c \<Rightarrow> [c] | None \<Rightarrow> [])))
    | Inr v \<Rightarrow> True)"
proof -
  define j where "j = (if sd_lr i \<noteq> None then i\<lparr>sd_lr := Some (sd_n i)\<rparr> else i)"
  have dec: "Decoder_Decode env i = (if sd_kind j = ReadCloser \<or> sd_kind j = DeadlineReader
      then cancelDecode env j else plain_decode j)"
    by (simp add: Decoder_Decode_def j_def)
  obtain x j' where pd: "plain_decode j = (x, j')" by fastforce
  have "decoder_sat P j" using assms(2) by (simp add: j_def)
  from plain_decode_fails [OF pd this] pd assms(1,3) dec show ?thesis
    by (cases x) (auto simp: cancelDecode_def split: if_splits)
qed

end
