(* ===== verification/Codecs.thy ===== *)
theory Codecs
  imports Framing
begin

text \<open>
  encoder.go, packetdecoder.go and packetencoder.go. \<open>mar\<close> is \<^verbatim>\<open>Marshal\<close> at the type of
  the value, \<open>write\<close> the writer and \<open>'w\<close> its state; the context shows, as in the stream decoder,
  through the errors of the connection and the environment of the call.
\<close>

subsection \<open>What the server encodes\<close>

fun marshal_outval :: "outval \<Rightarrow> go_error + bytes" where
  "marshal_outval (OutResponse None) = Inr ''null''"
| "marshal_outval (OutResponse (Some r)) = marshal_response r"
| "marshal_outval (OutRaw b) = via_marshaler ''json.RawMessage'' (Inr b)"
| "marshal_outval (OutBatch vs) = rmap json_array (mapM marshal_outval vs)"

subsection \<open>StreamEncoder\<close>

datatype wkind = PlainWriter | WriteCloser | DeadlineWriter

text \<open>\<open>se_err\<close> is the error the library's encoder keeps after a failed write.\<close>

record StreamEncoder =
  se_kind :: wkind
  se_err :: "go_error option"
  se_t :: int

definition NewStreamEncoder :: "wkind \<Rightarrow> StreamEncoder" where
  "NewStreamEncoder k = \<lparr>se_kind = k, se_err = None, se_t = 0\<rparr>"

definition Encoder_SetIdleTimeout :: "StreamEncoder \<Rightarrow> int \<Rightarrow> StreamEncoder" where
  "Encoder_SetIdleTimeout i d = i\<lparr>se_t := d\<rparr>"

definition je_encode :: "('v \<Rightarrow> go_error + bytes) \<Rightarrow> (bytes \<Rightarrow> 'w \<Rightarrow> go_error option \<times> 'w)
    \<Rightarrow> StreamEncoder \<Rightarrow> 'v \<Rightarrow> 'w \<Rightarrow> go_error option \<times> StreamEncoder \<times> 'w" where
  "je_encode mar write i v w =
     (case se_err i of
        Some e \<Rightarrow> (Some e, i, w)
      | None \<Rightarrow>
        (case mar v of
           Inl e \<Rightarrow> (Some e, i, w)
         | Inr b \<Rightarrow> (let (err, w') = write (b @ [CHR 0x0A]) w in (err, i\<lparr>se_err := err\<rparr>, w'))))"

definition cancelEncode :: "decode_env \<Rightarrow> ('v \<Rightarrow> go_error + bytes) \<Rightarrow> (bytes \<Rightarrow> 'w \<Rightarrow> go_error option \<times> 'w)
    \<Rightarrow> StreamEncoder \<Rightarrow> 'v \<Rightarrow> 'w \<Rightarrow> go_error option \<times> StreamEncoder \<times> 'w" where
  "cancelEncode env mar write i v w =
     (case (if se_kind i = DeadlineWriter then env_clear_err env else None) of
        Some err \<Rightarrow> (Some err, i, w)
      | None \<Rightarrow>
        (case je_encode mar write i v w of
           (Some encodeErr, i', w') \<Rightarrow> (errors_join [Some encodeErr, env_ctx_err env], i', w')
         | (None, i', w') \<Rightarrow> (None, i', w')))"

definition Encoder_Encode :: "decode_env \<Rightarrow> ('v \<Rightarrow> go_error + bytes) \<Rightarrow> (bytes \<Rightarrow> 'w \<Rightarrow> go_error option \<times> 'w)
    \<Rightarrow> StreamEncoder \<Rightarrow> 'v \<Rightarrow> 'w \<Rightarrow> go_error option \<times> StreamEncoder \<times> 'w" where
  "Encoder_Encode env mar write i v w =
     (if se_kind i = WriteCloser \<or> se_kind i = DeadlineWriter then cancelEncode env mar write i v w
      else je_encode mar write i v w)"

definition Encoder_Close :: "('w \<Rightarrow> go_error option \<times> 'w) \<Rightarrow> StreamEncoder \<Rightarrow> 'w \<Rightarrow> go_error option \<times> 'w" where
  "Encoder_Close close i w = (if se_kind i \<noteq> PlainWriter then close w else (None, w))"

subsection \<open>Packets\<close>

definition DefaultPacketBufferSize :: int where
  "DefaultPacketBufferSize = 65507"

record PacketConnDecoder =
  pcd_n :: int
  pcd_t :: int

definition NewPacketConnDecoder :: PacketConnDecoder where
  "NewPacketConnDecoder = \<lparr>pcd_n = 0, pcd_t = 0\<rparr>"

definition PacketDecoder_SetLimit :: "PacketConnDecoder \<Rightarrow> int \<Rightarrow> PacketConnDecoder" where
  "PacketDecoder_SetLimit i n = i\<lparr>pcd_n := n\<rparr>"

definition PacketDecoder_SetIdleTimeout :: "PacketConnDecoder \<Rightarrow> int \<Rightarrow> PacketConnDecoder" where
  "PacketDecoder_SetIdleTimeout i d = i\<lparr>pcd_t := d\<rparr>"

text \<open>\<open>penv_fired\<close> tells that the context ended before the call did.\<close>

record packet_env = decode_env +
  penv_fired :: bool

text \<open>\<open>recv\<close> takes the next datagram, which is cut to the size of the buffer. The result is the
  sender, the raw message and the error.\<close>

definition PacketConn_DecodeFrom :: "packet_env \<Rightarrow> ('w \<Rightarrow> (bytes \<times> bytes option \<times> go_error option) \<times> 'w)
    \<Rightarrow> PacketConnDecoder \<Rightarrow> 'w \<Rightarrow> (bytes option \<times> bytes \<times> go_error option) \<times> 'w" where
  "PacketConn_DecodeFrom env recv i w =
     (case env_clear_err env of
        Some err \<Rightarrow> ((None, [], Some err), w)
      | None \<Rightarrow>
        (let readSize = (if pcd_n i \<le> 0 then DefaultPacketBufferSize else pcd_n i);
             ((datagram, addr, err), w') = recv w;
             buf = take (nat readSize) datagram
         in if penv_fired env then ((addr, [], errors_join [err, env_ctx_err env]), w')
            else case err of
              Some e \<Rightarrow> ((addr, [], Some e), w')
            | None \<Rightarrow>
              (case unmarshal_raw buf of
                 Inl e \<Rightarrow> ((addr, [], Some e), w')
               | Inr raw \<Rightarrow> ((addr, raw, None), w'))))"

definition PacketDecoder_Close :: "('w \<Rightarrow> go_error option \<times> 'w) \<Rightarrow> 'w \<Rightarrow> go_error option \<times> 'w" where
  "PacketDecoder_Close close w = close w"

record PacketConnEncoder =
  pce_t :: int

definition NewPacketConnEncoder :: PacketConnEncoder where
  "NewPacketConnEncoder = \<lparr>pce_t = 0\<rparr>"

definition PacketEncoder_SetIdleTimeout :: "PacketConnEncoder \<Rightarrow> int \<Rightarrow> PacketConnEncoder" where
  "PacketEncoder_SetIdleTimeout i d = i\<lparr>pce_t := d\<rparr>"

definition PacketConn_EncodeTo :: "packet_env \<Rightarrow> ('v \<Rightarrow> go_error + bytes)
    \<Rightarrow> (bytes \<Rightarrow> bytes option \<Rightarrow> 'w \<Rightarrow> go_error option \<times> 'w) \<Rightarrow> PacketConnEncoder \<Rightarrow> 'v \<Rightarrow> bytes option
    \<Rightarrow> 'w \<Rightarrow> go_error option \<times> 'w" where
  "PacketConn_EncodeTo env mar writeTo i v addr w =
     (case mar v of
        Inl err \<Rightarrow> (Some err, w)
      | Inr buf \<Rightarrow>
        (case env_clear_err env of
           Some terr \<Rightarrow> (Some terr, w)
         | None \<Rightarrow>
           (let (err, w') = writeTo buf addr w in
            if penv_fired env then (errors_join [err, env_ctx_err env], w') else (err, w'))))"

definition PacketEncoder_Close :: "('w \<Rightarrow> go_error option \<times> 'w) \<Rightarrow> 'w \<Rightarrow> go_error option \<times> 'w" where
  "PacketEncoder_Close close w = close w"

subsection \<open>Encoding to a byte stream\<close>

text \<open>A writer that appends and does not fail.\<close>

definition append_write :: "bytes \<Rightarrow> bytes \<Rightarrow> go_error option \<times> bytes" where
  "append_write b w = (None, w @ b)"

fun encode_seq :: "(decode_env \<times> 'v) list \<Rightarrow> ('v \<Rightarrow> go_error + bytes) \<Rightarrow> StreamEncoder \<Rightarrow> bytes
    \<Rightarrow> go_error option list \<times> bytes" where
  "encode_seq [] mar i w = ([], w)"
| "encode_seq ((env, v) # vs) mar i w =
     (let (e, i1, w1) = Encoder_Encode env mar append_write i v w;
          (es, w2) = encode_seq vs mar i1 w1
      in (e # es, w2))"

definition written :: "('v \<Rightarrow> go_error + bytes) \<Rightarrow> 'v \<Rightarrow> bytes list" where
  "written mar v = (case mar v of Inr b \<Rightarrow> [b] | Inl e \<Rightarrow> [])"

lemma Encode_append:
  assumes "se_err i = None" "env_clear_err env = None"
  shows "\<exists>e. Encoder_Encode env mar append_write i v w =
      (e, i, w @ concat (map (\<lambda>b. b @ [CHR 0x0A]) (written mar v))) \<and> (e = None \<longleftrightarrow> \<not> isErr (mar v))"
  using assms
  by (cases "mar v")
     (auto simp: Encoder_Encode_def cancelEncode_def je_encode_def append_write_def written_def errors_join_def Let_def)

text \<open>A value that cannot be marshalled leaves no trace in the stream.\<close>

lemma encode_seq_written:
  assumes "se_err i = None" "\<forall>(env, v) \<in> set evs. env_clear_err env = None"
  shows "snd (encode_seq evs mar i w) =
      w @ concat (map (\<lambda>b. b @ [CHR 0x0A]) (concat (map (written mar \<circ> snd) evs)))
    \<and> map (\<lambda>e. e = None) (fst (encode_seq evs mar i w)) = map (\<lambda>(env, v). \<not> isErr (mar v)) evs"
  using assms
proof (induction evs arbitrary: w)
  case (Cons ev evs)
  obtain env v where ev: "ev = (env, v)" by (cases ev)
  from Encode_append [OF Cons.prems(1), of env mar v w] Cons.prems(2) ev
  obtain e where e: "Encoder_Encode env mar append_write i v w =
      (e, i, w @ concat (map (\<lambda>b. b @ [CHR 0x0A]) (written mar v)))" "e = None \<longleftrightarrow> \<not> isErr (mar v)"
    by auto
  show ?case
    using Cons.IH [of "w @ concat (map (\<lambda>b. b @ [CHR 0x0A]) (written mar v))"] Cons.prems e
    by (simp add: ev Let_def split_beta)
qed simp

text \<open>A failed write is kept: nothing more is written.\<close>

lemma Encode_failed:
  "se_err i = Some e \<Longrightarrow> env_clear_err env = None \<Longrightarrow>
   \<exists>e'. Encoder_Encode env mar write i v w = (Some e', i, w)"
  by (auto simp: Encoder_Encode_def cancelEncode_def je_encode_def errors_join_def Let_def)

subsection \<open>Datagrams\<close>

lemma DecodeFrom_fits:
  assumes "env_clear_err env = None" "\<not> penv_fired env" "recv w = ((d, addr, None), w')"
    and "int (length d) \<le> (if pcd_n i \<le> 0 then DefaultPacketBufferSize else pcd_n i)" "json_valid d"
  shows "PacketConn_DecodeFrom env recv i w = ((addr, jtrim d, None), w')"
proof -
  have "take (nat (if pcd_n i \<le> 0 then DefaultPacketBufferSize else pcd_n i)) d = d"
    using assms(4) by (intro take_all) linarith
  then show ?thesis
    using assms by (simp add: PacketConn_DecodeFrom_def unmarshal_raw_def checked_def json_valid_def Let_def)
qed

lemma DecodeFrom_fired:
  assumes "env_clear_err env = None" "penv_fired env" "env_ctx_err env = Some e"
  shows "\<exists>addr x w'. PacketConn_DecodeFrom env recv i w = ((addr, [], Some x), w') \<and> errors_is x e"
  using assms
  by (cases "recv w") (auto simp: PacketConn_DecodeFrom_def errors_join_def Let_def split: prod.splits option.splits)

end
