(* ===== verification/StreamSide.thy ===== *)
theory StreamSide
  imports ServerLoop Codecs
begin

text \<open>
  A server whose decoder and encoder are a stream decoder and a stream encoder, whatever else its
  state holds: what it reads, what it writes, and a whole session of requests. The HTTP handler's
  server and the server of a connection are instances.
\<close>

subsection \<open>Contexts and errors\<close>

definition ctx_env :: "ctx \<Rightarrow> decode_env" where
  "ctx_env c = \<lparr>env_clear_err = None, env_ctx_err = ctx_err c\<rparr>"

lemma ctx_env_simps [simp]: "env_clear_err (ctx_env c) = None" "env_ctx_err (ctx_env c) = ctx_err c"
  by (simp_all add: ctx_env_def)

lemma internal_ctx_err [simp]: "ctx_err (internal_ctx cerr False c w) = cerr w"
  by (simp add: internal_ctx_def split: option.split)

lemma is_type_error_simps [simp]:
  "is_type_error (Joined es) \<longleftrightarrow> (\<exists>e \<in> set es. is_type_error e)"
  "\<not> is_type_error (Sentinel s)" "\<not> is_type_error (SyntaxErr m)" "\<not> is_type_error MaxBytesErr"
  by (simp_all add: is_type_error_def)

lemma is_syntax_error_simps [simp]:
  "is_syntax_error (Joined es) \<longleftrightarrow> (\<exists>e \<in> set es. is_syntax_error e)"
  "\<not> is_syntax_error (Sentinel s)" "is_syntax_error (SyntaxErr m)" "\<not> is_syntax_error MaxBytesErr"
  by (simp_all add: is_syntax_error_def)

subsection \<open>What a decoder gives\<close>

lemma plain_decode_error:
  assumes "healthy i" "next_value (sd_pending i) = Inl e"
  shows "\<exists>i'. plain_decode i = (Inl e, i')"
proof -
  obtain buf evs where rd: "jd_read (sd_d i) None (sd_r i) = (Inl e, buf, None, evs)"
    using jd_read_data [of "sd_r i" "sd_d i"] assms by (auto simp: healthy_def sd_pending_def)
  then show ?thesis
    using assms by (simp add: plain_decode_def jd_decode_def healthy_def ioErr_def)
qed

lemma Decode_error:
  assumes "healthy i" "next_value (sd_pending i) = Inl e" "env_clear_err env = None" "env_ctx_err env = None"
  shows "\<exists>i'. Decoder_Decode env i = (Inl (if sd_kind i = PlainReader then e else Joined [e]), i')"
proof -
  obtain i' where "plain_decode i = (Inl e, i')"
    using plain_decode_error [OF assms(1,2)] by blast
  then show ?thesis
    using assms by (cases "sd_kind i") (simp_all add: Decoder_Decode_def cancelDecode_def healthy_def)
qed

lemma Decode_framed:
  assumes "healthy i" "framed v" "list_all is_space sp" "sd_pending i = sp @ v @ rest" "env_clear_err env = None"
  shows "\<exists>i'. Decoder_Decode env i = (Inr v, i') \<and> healthy i' \<and> sd_kind i' = sd_kind i \<and> sd_pending i' = rest"
proof -
  let ?k = "length sp + length v"
  have next_k: "next_value (sd_pending i) = Inr ?k"
    using next_value_framed [OF assms(2,3), of rest] assms(4) by simp
  from plain_decode_data [OF assms(1) this] obtain i' where
    "plain_decode i = (Inr (jtrim (take ?k (sd_pending i))), i')" "healthy i'" "sd_pending i' = drop ?k (sd_pending i)"
    "sd_kind i' = sd_kind i" by blast
  moreover have "take ?k (sd_pending i) = sp @ v" "drop ?k (sd_pending i) = rest"
    by (simp_all add: assms(4))
  ultimately show ?thesis
    using assms jtrim_spaces [OF assms(3,2)]
    by (auto simp: Decoder_Decode_def cancelDecode_def healthy_def)
qed

lemma next_value_spaces: "list_all is_space sp \<Longrightarrow> next_value sp = Inl (Sentinel EOF)"
proof -
  assume sp: "list_all is_space sp"
  have "value_end sc_reset sp 0 = VMore sc_reset (length sp)"
    using value_end_spaces [OF sp, of "[]"] by simp
  with sp show ?thesis
    by (simp add: next_value_finish at_eof_def sc_reset_def begin_value_def is_space_def)
qed

lemma marshal_replies:
  "mapM marshal_response rs = Inr bs \<Longrightarrow> mapM marshal_outval (map (\<lambda>r. OutResponse (Some r)) rs) = Inr bs"
  by (induction rs arbitrary: bs) (auto simp: rbind_Inr_iff rmap_Inr_iff)

text \<open>What an encoder writes for a value whose text is \<open>b\<close>.\<close>

definition line_of :: "bytes \<Rightarrow> bytes" where
  "line_of b = b @ [CHR 0x0A]"

subsection \<open>A server on a stream\<close>

text \<open>What a server's state is asked for (its decoder, its encoder, what was written, the state of
  the user's code) and how reading, writing and handling change it.\<close>

locale stream_side =
  fixes rp :: "'w RPCServer" and h :: "'u Handler"
    and decoder :: "'w \<Rightarrow> StreamDecoder" and put_decoder :: "StreamDecoder \<Rightarrow> 'w \<Rightarrow> 'w"
    and encoder :: "'w \<Rightarrow> StreamEncoder"
    and sent :: "'w \<Rightarrow> bytes" and put_sent :: "bytes \<Rightarrow> 'w \<Rightarrow> 'w"
    and user :: "'w \<Rightarrow> 'u" and put_user :: "'u \<Rightarrow> 'w \<Rightarrow> 'w"
  assumes reads: "pd_DecodeFrom (rp_decoder rp) c w =
      (case Decoder_Decode (ctx_env c) (decoder w) of
         (Inr raw, d) \<Rightarrow> ((None, raw, None), put_decoder d w)
       | (Inl e, d) \<Rightarrow> ((None, [], Some e), put_decoder d w))"
    and writes: "se_err (encoder w) = None \<Longrightarrow> marshal_outval v = Inr b \<Longrightarrow>
      pe_EncodeTo (rp_encoder rp) c v src w = (None, put_sent (sent w @ b @ [CHR 0x0A]) w)"
    and handles: "Handle (rp_Handler rp) c q w = (case Handle h c q (user w) of (out, u) \<Rightarrow> (out, put_user u w))"
    and put_decoder: "decoder (put_decoder d w) = d" "encoder (put_decoder d w) = encoder w"
      "sent (put_decoder d w) = sent w" "user (put_decoder d w) = user w"
    and put_sent: "decoder (put_sent b w) = decoder w" "encoder (put_sent b w) = encoder w"
      "sent (put_sent b w) = b" "user (put_sent b w) = user w"
    and put_user: "decoder (put_user u w) = decoder w" "encoder (put_user u w) = encoder w"
      "sent (put_user u w) = sent w" "user (put_user u w) = u"
begin

lemmas state_laws = put_decoder put_sent put_user

lemma reads_message:
  assumes "healthy (decoder w)" "framed v" "list_all is_space sp" "sd_pending (decoder w) = sp @ v @ rest"
  shows "\<exists>d. read_message rp c w = NMessage v None (put_decoder d w)
    \<and> healthy d \<and> sd_kind d = sd_kind (decoder w) \<and> sd_pending d = rest"
proof -
  obtain d where d: "Decoder_Decode (ctx_env c) (decoder w) = (Inr v, d)" "healthy d"
    "sd_kind d = sd_kind (decoder w)" "sd_pending d = rest"
    using Decode_framed [OF assms, of "ctx_env c"] by auto
  moreover have "v \<noteq> []" using assms(2) by (simp add: framed_def)
  ultimately have "read_message rp c w = NMessage v None (put_decoder d w)"
    by (simp add: read_message_def reads)
  with d show ?thesis by blast
qed

lemma read_fails:
  assumes "healthy (decoder w)" "next_value (sd_pending (decoder w)) = Inl e" "ctx_err c = None"
  shows "\<exists>d. pd_DecodeFrom (rp_decoder rp) c w =
    ((None, [], Some (if sd_kind (decoder w) = PlainReader then e else Joined [e])), put_decoder d w)"
  using Decode_error [OF assms(1,2), of "ctx_env c"] assms(3) by (auto simp: reads)

lemma read_fatal:
  assumes "healthy (decoder w)" "next_value (sd_pending (decoder w)) = Inl e" "ctx_err c = None"
    and "\<not> is_syntax_error e" "\<not> is_type_error e"
  shows "\<exists>d. read_message rp c w =
    NExit (if sd_kind (decoder w) = PlainReader then e else Joined [e]) (put_decoder d w)"
  using read_fails [OF assms(1-3)] assms(4,5) by (auto simp: read_message_def)

lemma reports:
  "se_err (encoder w) = None \<Longrightarrow> marshal_outval v = Inr b \<Longrightarrow>
   encode_or_report rp c v src w = put_sent (sent w @ b @ [CHR 0x0A]) w"
  by (simp add: encode_or_report_def writes)

text \<open>One request, and then a session of them.\<close>

lemma request_done:
  assumes "se_err (encoder w) = None" "HintType v = TypeObject" "pd_request (rp_decoder rp) v = Inr q"
    and "Handle h c q (user w) = (out, u)" "plain_outcome out"
    and "\<not> Request_IsNotification q \<longrightarrow> marshal_response (reply_of q out) = Inr b"
  shows "run rp gather c v None w =
    (if Request_IsNotification q then put_user u w
     else put_sent (sent w @ b @ [CHR 0x0A]) (put_user u w))"
proof -
  have h: "Handle (rp_Handler rp) c q w = (out, put_user u w)"
    using assms(4) by (simp add: handles)
  show ?thesis
  proof (cases "Request_IsNotification q")
    case True
    with h assms(2,3,5) show ?thesis
      by (cases "(q, out)" rule: reply_of.cases) (simp_all add: run_def runRequest_def handleRequest_def)
  next
    case False
    with handleRequest_reply [OF assms(3) _ h assms(5)] assms show ?thesis
      by (simp add: run_def runRequest_def reports state_laws)
  qed
qed

lemma session:
  assumes "\<forall>w. cerr w = None" "healthy (decoder w)" "se_err (encoder w) = None"
    and "sd_pending (decoder w) = sp @ concat (map line_of vs)" "list_all is_space sp"
    and "\<forall>v \<in> set vs. framed v \<and> HintType v = TypeObject"
    and "list_all2 (\<lambda>v q. pd_request (rp_decoder rp) v = Inr q) vs qs"
    and "outcomes h (internal_ctx cerr False c w) qs (user w) = (outs, u)" "list_all plain_outcome outs"
    and "mapM marshal_response (replies qs outs) = Inr bs"
  shows "\<exists>e w'. run_loop rp gather cerr c w = Some (e, w') \<and> is_err (Some e) EOF
    \<and> sent w' = sent w @ concat (map line_of bs) \<and> user w' = u"
  using assms
proof (induction vs arbitrary: w sp qs outs bs)
  case Nil
  then have "next_value (sd_pending (decoder w)) = Inl (Sentinel EOF)"
    by (simp add: next_value_spaces)
  from read_fatal [OF Nil.prems(2) this, of "internal_ctx cerr False c w"] Nil.prems(1)
  obtain e d where "read_message rp (internal_ctx cerr False c w) w = NExit e (put_decoder d w)" "is_err (Some e) EOF"
    by (auto simp: is_err_def)
  from run_loop_exit [OF this(1), of gather] this(2) show ?case
    using Nil.prems(4,7,8,10) by (auto simp: replies_def state_laws)
next
  case (Cons v vs)
  let ?c = "internal_ctx cerr False c w"
  have ctx: "internal_ctx cerr False c w1 = ?c" for w1
    using Cons.prems(1) by (simp add: internal_ctx_def)
  obtain q qs' where qs: "qs = q # qs'" "pd_request (rp_decoder rp) v = Inr q"
    "list_all2 (\<lambda>v q. pd_request (rp_decoder rp) v = Inr q) vs qs'"
    using Cons.prems(7) by (auto simp: list_all2_Cons1)
  obtain out u1 where out: "Handle h ?c q (user w) = (out, u1)" by fastforce
  obtain outs' where outs: "outcomes h ?c qs' u1 = (outs', u)" "outs = out # outs'"
    using Cons.prems(8) qs(1) out by (cases "outcomes h ?c qs' u1") auto
  have pending: "sd_pending (decoder w) = sp @ v @ [CHR 0x0A] @ concat (map line_of vs)"
    using Cons.prems(4) by (simp add: line_of_def [of v])
  obtain d where d: "read_message rp ?c w = NMessage v None (put_decoder d w)" "healthy d"
    "sd_pending d = [CHR 0x0A] @ concat (map line_of vs)"
    using reads_message [OF Cons.prems(2) _ Cons.prems(5) pending, of ?c] Cons.prems(6) by auto
  have plain: "plain_outcome out" "list_all plain_outcome outs'"
    using Cons.prems(9) outs(2) by auto
  obtain b bs' where bs: "\<not> Request_IsNotification q \<longrightarrow> marshal_response (reply_of q out) = Inr b"
    "mapM marshal_response (replies qs' outs') = Inr bs'"
    "bs = (if Request_IsNotification q then bs' else b # bs')"
    using Cons.prems(10) qs(1) outs(2)
    by (cases "Request_IsNotification q") (auto simp: replies_def rbind_Inr_iff rmap_Inr_iff)
  define w2 where "w2 = run rp gather ?c v None (put_decoder d w)"
  have w2: "w2 = (if Request_IsNotification q then put_user u1 (put_decoder d w)
      else put_sent (sent w @ b @ [CHR 0x0A]) (put_user u1 (put_decoder d w)))"
    unfolding w2_def
    by (subst request_done [of "put_decoder d w" v q ?c out u1 b])
       (use Cons.prems(3,6) qs(2) out plain(1) bs(1) in \<open>simp_all add: state_laws\<close>)
  then have laws: "decoder w2 = d" "encoder w2 = encoder w" "user w2 = u1"
    "sent w2 = sent w @ (if Request_IsNotification q then [] else line_of b)"
    by (simp_all add: state_laws line_of_def)
  have "\<exists>e w'. run_loop rp gather cerr c w2 = Some (e, w') \<and> is_err (Some e) EOF
      \<and> sent w' = sent w2 @ concat (map line_of bs') \<and> user w' = u"
    by (rule Cons.IH [OF Cons.prems(1) _ _ _ _ _ qs(3) _ plain(2) bs(2), where sp = "[CHR 0x0A]"])
       (use Cons.prems(3,6) d laws ctx [of w2] outs in \<open>simp_all add: is_space_def\<close>)
  then show ?case
    using run_loop_message [OF d(1), of gather] ctx [of "put_decoder d w"] w2_def laws(4) bs(3) by auto
qed

end

end
