(* ===== verification/Batches.thy ===== *)
theory Batches
  imports Messages
begin

text \<open>
  batch.go: batches of messages and the correlation of responses with requests. A batch is a
  slice of pointers, so an element may be nil (\<open>None\<close>): a decoded \<^verbatim>\<open>[null]\<close> holds one.
  Calling a method on a nil element panics; a computation that can panic returns an option, with
  \<open>None\<close> for the panic. The capacity of the slice has no observable effect and is not modelled.

  \<open>idf\<close> is the \<^verbatim>\<open>id()\<close> method of the element type.
\<close>

type_synonym 'b Batch = "'b option list"

definition Request_id :: "Request \<Rightarrow> ID" where
  "Request_id r = req_id r"

definition Notification_id :: "Notification \<Rightarrow> ID" where
  "Notification_id n = req_id n"

definition Response_id :: "Response \<Rightarrow> ID" where
  "Response_id r = resp_id r"

subsection \<open>Building\<close>

definition NewBatch :: "int \<Rightarrow> 'b Batch option" where
  "NewBatch n = (if n < 0 then None else Some [])"

definition Batch_Add :: "'b Batch \<Rightarrow> 'b option list \<Rightarrow> 'b Batch" where
  "Batch_Add b v = b @ v"

definition Batch_Grow :: "'b Batch \<Rightarrow> int \<Rightarrow> 'b Batch option" where
  "Batch_Grow b n = (if n < 0 then None else Some b)"

definition Batch_Reset :: "'b Batch \<Rightarrow> 'b Batch" where
  "Batch_Reset b = []"

subsection \<open>Searching\<close>

fun index_from :: "('b \<Rightarrow> ID) \<Rightarrow> ID \<Rightarrow> int \<Rightarrow> 'b Batch \<Rightarrow> int option" where
  "index_from idf i n [] = Some (-1)"
| "index_from idf i n (None # vs) = None"
| "index_from idf i n (Some v # vs) =
     (if ID_Equal i (idf v) then Some n else index_from idf i (n + 1) vs)"

definition Batch_Index :: "('b \<Rightarrow> ID) \<Rightarrow> 'b Batch \<Rightarrow> ID \<Rightarrow> int option" where
  "Batch_Index idf b i = (if \<not> ID_IsZero i then index_from idf i 0 b else Some (-1))"

definition Batch_Contains :: "('b \<Rightarrow> ID) \<Rightarrow> 'b Batch \<Rightarrow> ID \<Rightarrow> bool option" where
  "Batch_Contains idf b i = map_option (\<lambda>n. 0 \<le> n) (Batch_Index idf b i)"

definition Batch_Get :: "('b \<Rightarrow> ID) \<Rightarrow> 'b Batch \<Rightarrow> ID \<Rightarrow> ('b option \<times> bool) option" where
  "Batch_Get idf b i = map_option (\<lambda>n. if n < 0 then (None, False) else (b ! nat n, True))
     (Batch_Index idf b i)"

definition Batch_Delete :: "('b \<Rightarrow> ID) \<Rightarrow> 'b Batch \<Rightarrow> ID \<Rightarrow> (('b option \<times> bool) \<times> 'b Batch) option" where
  "Batch_Delete idf b i = map_option
     (\<lambda>n. if n < 0 then ((None, False), b)
          else ((b ! nat n, True), take (nat n) b @ drop (nat n + 1) b))
     (Batch_Index idf b i)"

subsection \<open>BatchCorrelate\<close>

text \<open>The callback, with the caller's state: it is called with the two pointers and answers whether
  to go on. The map of processed responses is keyed by the identifier struct, compared with
  Go's \<^verbatim>\<open>==\<close>, which is equality of the record. A loop ends by panicking, by the callback's
  answer (\<open>Stopped\<close>), or by reaching the end of its slice.\<close>

type_synonym 's callback = "Request option \<Rightarrow> Response option \<Rightarrow> 's \<Rightarrow> bool \<times> 's"

datatype ('s, 'a) loop = Panicked | Stopped 's | Finished 's 'a

fun correlate_requests :: "'s callback \<Rightarrow> Response Batch \<Rightarrow> Request Batch \<Rightarrow> ID list \<Rightarrow> 's
    \<Rightarrow> ('s, ID list) loop" where
  "correlate_requests cb resps [] processed s = Finished s processed"
| "correlate_requests cb resps (None # reqs) processed s = Panicked"
| "correlate_requests cb resps (Some req # reqs) processed s =
     (case Batch_Get Response_id resps (Request_id req) of
        None \<Rightarrow> Panicked
      | Some (res, found) \<Rightarrow>
        (let processed' = (case res of Some r \<Rightarrow> if found then Response_id r # processed else processed
                           | None \<Rightarrow> processed);
             (cont, s') = cb (Some req) res s
         in if cont then correlate_requests cb resps reqs processed' s' else Stopped s'))"

fun correlate_responses :: "'s callback \<Rightarrow> ID list \<Rightarrow> Response Batch \<Rightarrow> 's \<Rightarrow> ('s, unit) loop" where
  "correlate_responses cb processed [] s = Finished s ()"
| "correlate_responses cb processed (None # resps) s = Panicked"
| "correlate_responses cb processed (Some res # resps) s =
     (if Response_id res \<notin> set processed then
        (let (cont, s') = cb None (Some res) s
         in if cont then correlate_responses cb processed resps s' else Stopped s')
      else correlate_responses cb processed resps s)"

fun loop_state :: "('s, 'a) loop \<Rightarrow> 's option" where
  "loop_state Panicked = None"
| "loop_state (Stopped s) = Some s"
| "loop_state (Finished s x) = Some s"

definition BatchCorrelate :: "Request Batch \<Rightarrow> Response Batch \<Rightarrow> 's callback \<Rightarrow> 's \<Rightarrow> 's option" where
  "BatchCorrelate requests responses cb s =
     (case correlate_requests cb responses requests [] s of
        Panicked \<Rightarrow> None
      | Stopped s' \<Rightarrow> Some s'
      | Finished s' processed \<Rightarrow>
        loop_state (correlate_responses cb processed responses s'))"

subsection \<open>Lookup by identifier, as an interface\<close>

text \<open>The laws the correlation relies on: a lookup finds an element whose identifier equals the one
  asked for, and fails only when there is none or the identifier is zero.\<close>

locale id_lookup =
  fixes get :: "'c \<Rightarrow> ID \<Rightarrow> 'b option"
    and elems :: "'c \<Rightarrow> 'b list"
    and idf :: "'b \<Rightarrow> ID"
  assumes get_Some: "get c i = Some x \<Longrightarrow> x \<in> set (elems c) \<and> ID_Equal i (idf x)"
    and get_None: "get c i = None \<Longrightarrow> x \<in> set (elems c) \<Longrightarrow> \<not> ID_Equal i (idf x)"
begin

lemma get_zero: "ID_IsZero i \<Longrightarrow> get c i = None"
  using get_Some [of c i] by (cases "get c i") (auto simp: ID_IsZero_def dest: ID_Equal_present)

lemma get_found_iff: "get c i \<noteq> None \<longleftrightarrow> (\<exists>x \<in> set (elems c). ID_Equal i (idf x))"
  using get_Some [of c i] get_None [of c i] by (cases "get c i") auto

lemma get_unique:
  assumes "x \<in> set (elems c)" "ID_Equal i (idf x)"
    and "\<And>y. y \<in> set (elems c) \<Longrightarrow> ID_Equal i (idf y) \<Longrightarrow> y = x"
  shows "get c i = Some x"
proof (cases "get c i")
  case None
  then show ?thesis using get_None [OF None assms(1)] assms(2) by simp
next
  case (Some y)
  then show ?thesis using assms(3) get_Some [OF Some] by simp
qed

end

text \<open>The first match in a batch without nil elements: what the search computes.\<close>

definition first_match :: "('b \<Rightarrow> ID) \<Rightarrow> 'b list \<Rightarrow> ID \<Rightarrow> 'b option" where
  "first_match idf b i = find (\<lambda>v. ID_Equal i (idf v)) b"

interpretation batch_find: id_lookup "first_match idf" "\<lambda>b. b" idf for idf :: "'b \<Rightarrow> ID"
  by unfold_locales (auto simp: first_match_def find_Some_iff find_None_iff)

lemma first_match_zero: "ID_IsZero i \<Longrightarrow> first_match idf b i = None"
  by (rule batch_find.get_zero)

lemma index_from_find:
  "index_from idf i n (map Some b) =
     Some (case first_match idf b i of None \<Rightarrow> -1
           | Some x \<Rightarrow> n + int (length (takeWhile (\<lambda>v. \<not> ID_Equal i (idf v)) b)))"
  by (induction b arbitrary: n) (auto simp: first_match_def split: option.splits)

lemma first_match_nth:
  "first_match idf b i = Some x \<Longrightarrow>
   length (takeWhile (\<lambda>v. \<not> ID_Equal i (idf v)) b) < length b
   \<and> b ! length (takeWhile (\<lambda>v. \<not> ID_Equal i (idf v)) b) = x"
  by (induction b) (auto simp: first_match_def split: if_splits)

lemma Batch_Index_find:
  "Batch_Index idf (map Some b) i =
     Some (case first_match idf b i of None \<Rightarrow> -1
           | Some x \<Rightarrow> int (length (takeWhile (\<lambda>v. \<not> ID_Equal i (idf v)) b)))"
proof (cases "ID_IsZero i")
  case True
  then show ?thesis
    by (simp add: Batch_Index_def first_match_zero)
next
  case False
  then show ?thesis
    by (simp add: Batch_Index_def index_from_find split: option.split)
qed

lemma Batch_Get_find:
  "Batch_Get idf (map Some b) i =
     Some (first_match idf b i, first_match idf b i \<noteq> None)"
  using first_match_nth [of idf b i]
  by (cases "first_match idf b i") (auto simp: Batch_Get_def Batch_Index_find)

lemma Batch_Delete_find:
  "Batch_Delete idf (map Some b) i =
     (case first_match idf b i of
        None \<Rightarrow> Some ((None, False), map Some b)
      | Some x \<Rightarrow> Some ((Some x, True), map Some (remove1 x b)))"
proof (cases "first_match idf b i")
  case None
  then show ?thesis by (simp add: Batch_Delete_def Batch_Index_find)
next
  case (Some x)
  let ?k = "length (takeWhile (\<lambda>v. \<not> ID_Equal i (idf v)) b)"
  have k: "?k < length b" "b ! ?k = x"
    using first_match_nth [OF Some] by auto
  have ext: "take ?k b @ drop (Suc ?k) b = remove1 x b"
    using Some
  proof (induction b)
    case (Cons a b)
    then show ?case
      by (cases "ID_Equal i (idf a)") (auto simp: first_match_def find_Some_iff)
  qed (simp add: first_match_def)
  show ?thesis
    using Some k ext
    by (simp add: Batch_Delete_def Batch_Index_find take_map drop_map flip: map_append)
qed

subsection \<open>The calls a correlation makes\<close>

text \<open>With a callback that records its arguments and never stops, the correlation of two batches
  without nil elements makes exactly these calls, in this order.\<close>

definition recording :: "(Request option \<times> Response option) list callback" where
  "recording q r s = (True, s @ [(q, r)])"

lemma recording_simps [simp]:
  "fst (recording q r s) = True" "snd (recording q r s) = s @ [(q, r)]"
  by (simp_all add: recording_def)

definition matched_ids :: "Request list \<Rightarrow> Response list \<Rightarrow> ID list" where
  "matched_ids reqs resps =
     map Response_id (List.map_filter (\<lambda>q. first_match Response_id resps (Request_id q)) reqs)"

definition correlation :: "Request list \<Rightarrow> Response list \<Rightarrow> (Request option \<times> Response option) list" where
  "correlation reqs resps =
     map (\<lambda>q. (Some q, first_match Response_id resps (Request_id q))) reqs
     @ map (\<lambda>r. (None, Some r)) (filter (\<lambda>r. Response_id r \<notin> set (matched_ids reqs resps)) resps)"

lemma correlate_requests_recording:
  "correlate_requests recording (map Some resps) (map Some reqs) processed s =
     Finished (s @ map (\<lambda>q. (Some q, first_match Response_id resps (Request_id q))) reqs)
       (rev (matched_ids reqs resps) @ processed)"
proof (induction reqs arbitrary: processed s)
  case (Cons q reqs)
  show ?case
    by (cases "first_match Response_id resps (Request_id q)")
       (simp_all add: Batch_Get_find case_prod_beta Let_def Cons.IH matched_ids_def map_filter_simps)
qed (simp add: matched_ids_def map_filter_simps)

lemma correlate_responses_recording:
  "correlate_responses recording processed (map Some resps) s =
     Finished (s @ map (\<lambda>r. (None, Some r)) (filter (\<lambda>r. Response_id r \<notin> set processed) resps)) ()"
  by (induction resps arbitrary: s) (simp_all add: case_prod_beta Let_def)

lemma correlate_recording:
  "BatchCorrelate (map Some reqs) (map Some resps) recording s = Some (s @ correlation reqs resps)"
  by (simp add: BatchCorrelate_def correlate_requests_recording correlate_responses_recording
      correlation_def)

lemma matched_ids_set:
  "set (matched_ids reqs resps) =
     {Response_id r | r q. q \<in> set reqs \<and> first_match Response_id resps (Request_id q) = Some r}"
  by (force simp: matched_ids_def List.map_filter_def image_iff)

lemma distinct_map_eq: "distinct (map f xs) \<Longrightarrow> x \<in> set xs \<Longrightarrow> y \<in> set xs \<Longrightarrow> f x = f y \<Longrightarrow> x = y"
  by (auto simp: distinct_map inj_on_def)

text \<open>When the responses have distinct identifiers, every response is reported.\<close>

lemma correlation_complete:
  assumes "distinct (map Response_id resps)" "r \<in> set resps"
  shows "\<exists>q. (q, Some r) \<in> set (correlation reqs resps)"
proof (cases "Response_id r \<in> set (matched_ids reqs resps)")
  case True
  then obtain r' q where q: "q \<in> set reqs" "first_match Response_id resps (Request_id q) = Some r'"
    and eq: "Response_id r' = Response_id r"
    by (auto simp: matched_ids_set)
  have "r' \<in> set resps"
    using batch_find.get_Some [OF q(2)] by simp
  then have "r' = r"
    using assms eq distinct_map_eq [of Response_id resps] by simp
  with q have "(Some q, Some r) \<in> set (correlation reqs resps)"
    by (auto simp: correlation_def intro!: image_eqI [of _ _ q])
  then show ?thesis ..
next
  case False
  then show ?thesis
    using assms(2) by (auto simp: correlation_def)
qed

subsection \<open>Stopping early\<close>

text \<open>A callback that answers false after \<open>n\<close> more calls sees a prefix of the full sequence.\<close>

definition stop_after :: "nat \<Rightarrow> (Request option \<times> Response option) list callback" where
  "stop_after n q r s = (Suc (length s) < n, s @ [(q, r)])"

lemma stop_after_simps [simp]:
  "fst (stop_after n q r s) = (Suc (length s) < n)" "snd (stop_after n q r s) = s @ [(q, r)]"
  by (simp_all add: stop_after_def)

lemma correlate_requests_stop:
  assumes "length s < n"
  shows "(length s + length reqs < n \<longrightarrow>
      correlate_requests (stop_after n) (map Some resps) (map Some reqs) processed s =
        correlate_requests recording (map Some resps) (map Some reqs) processed s)
    \<and> (n \<le> length s + length reqs \<longrightarrow>
      correlate_requests (stop_after n) (map Some resps) (map Some reqs) processed s =
        Stopped (take n (s @ map (\<lambda>q. (Some q, first_match Response_id resps (Request_id q))) reqs)))"
  using assms
proof (induction reqs arbitrary: processed s)
  case (Cons q reqs)
  let ?f = "first_match Response_id resps (Request_id q)"
  let ?s = "s @ [(Some q, ?f)]"
  show ?case
  proof (cases "Suc (length s) < n")
    case True
    then have "length ?s < n" by simp
    from Cons.IH [OF this] True show ?thesis
      by (simp add: Batch_Get_find case_prod_beta Let_def)
  next
    case False
    with Cons.prems have "n = Suc (length s)" by simp
    then show ?thesis
      by (simp add: Batch_Get_find case_prod_beta Let_def)
  qed
qed simp

lemma correlate_responses_stop:
  assumes "length s < n"
  shows "loop_state (correlate_responses (stop_after n) processed (map Some resps) s) =
     Some (take n (s @ map (\<lambda>r. (None, Some r))
       (filter (\<lambda>r. Response_id r \<notin> set processed) resps)))"
  using assms
proof (induction resps arbitrary: s)
  case (Cons r resps)
  show ?case
  proof (cases "Response_id r \<in> set processed")
    case True
    with Cons.IH [OF Cons.prems] show ?thesis by simp
  next
    case new: False
    show ?thesis
    proof (cases "Suc (length s) < n")
      case True
      then have "length (s @ [(None, Some r)]) < n" by simp
      from Cons.IH [OF this] True new show ?thesis
        by (simp add: case_prod_beta Let_def)
    next
      case False
      with Cons.prems have "n = Suc (length s)" by simp
      with new show ?thesis by (simp add: case_prod_beta Let_def)
    qed
  qed
qed simp

lemma correlate_stop:
  assumes "0 < n"
  shows "BatchCorrelate (map Some reqs) (map Some resps) (stop_after n) [] =
    Some (take n (correlation reqs resps))"
proof (cases "length reqs < n")
  case True
  let ?s = "map (\<lambda>q. (Some q, first_match Response_id resps (Request_id q))) reqs"
  have "correlate_requests (stop_after n) (map Some resps) (map Some reqs) [] [] =
      Finished ?s (rev (matched_ids reqs resps))"
    using correlate_requests_stop [of "[]" n reqs resps "[]"] True assms
      correlate_requests_recording [of resps reqs "[]" "[]"] by simp
  moreover have "length ?s < n" using True by simp
  ultimately show ?thesis
    using correlate_responses_stop [of ?s n "rev (matched_ids reqs resps)" resps]
    by (simp add: BatchCorrelate_def correlation_def)
next
  case False
  then show ?thesis
    using correlate_requests_stop [of "[]" n reqs resps "[]"] assms
    by (simp add: BatchCorrelate_def correlation_def)
qed

end
