(* ===== verification/Transport.thy ===== *)
theory Transport
  imports Batches Handlers
begin

text \<open>
  transportclient.go: calls over one connection. The mutex makes every call and every
  \<^verbatim>\<open>Close\<close> one step on the state \<open>'w\<close> of the connection. \<open>now\<close> is the clock at which a
  timeout is taken.
\<close>

text \<open>What the client hands to its encoder.\<close>

datatype outgoing =
    OutRequest Request
  | OutRequests "Request Batch"
  | OutNotification Notification
  | OutNotifications "Notification Batch"
  | OutRawMessage bytes

text \<open>The encoder and the decoder, with \<^verbatim>\<open>Unmarshal\<close> at the three types the client uses.\<close>

record 'w TransportClient =
  tc_Encode :: "ctx \<Rightarrow> outgoing \<Rightarrow> 'w \<Rightarrow> go_error option \<times> 'w"
  tc_Decode :: "ctx \<Rightarrow> 'w \<Rightarrow> (go_error + bytes) \<times> 'w"
  tc_response :: "bytes \<Rightarrow> go_error + Response"
  tc_response_ptr :: "bytes \<Rightarrow> go_error + Response option"
  tc_responses :: "bytes \<Rightarrow> go_error + Response Batch"
  tc_Close_e :: "('w \<Rightarrow> go_error option \<times> 'w) option"
  tc_Close_d :: "('w \<Rightarrow> go_error option \<times> 'w) option"

text \<open>An encoder and a decoder with the package's default \<^verbatim>\<open>Unmarshal\<close>.\<close>

definition NewTransportClient :: "(ctx \<Rightarrow> outgoing \<Rightarrow> 'w \<Rightarrow> go_error option \<times> 'w)
    \<Rightarrow> (ctx \<Rightarrow> 'w \<Rightarrow> (go_error + bytes) \<times> 'w) \<Rightarrow> ('w \<Rightarrow> go_error option \<times> 'w) option
    \<Rightarrow> ('w \<Rightarrow> go_error option \<times> 'w) option \<Rightarrow> 'w TransportClient" where
  "NewTransportClient encode decode close_e close_d =
     \<lparr>tc_Encode = encode, tc_Decode = decode, tc_response = unmarshal_response,
      tc_response_ptr = unmarshal_response_ptr, tc_responses = unmarshal_responses,
      tc_Close_e = close_e, tc_Close_d = close_d\<rparr>"

text \<open>What is written for a message: a nil member of a batch is null.\<close>

fun marshal_outgoing :: "outgoing \<Rightarrow> go_error + bytes" where
  "marshal_outgoing (OutRequest r) = marshal_request r"
| "marshal_outgoing (OutRequests rs) =
     rmap json_array (mapM (\<lambda>r. case r of None \<Rightarrow> Inr ''null'' | Some q \<Rightarrow> marshal_request q) rs)"
| "marshal_outgoing (OutNotification n) = marshal_request n"
| "marshal_outgoing (OutNotifications ns) =
     rmap json_array (mapM (\<lambda>n. case n of None \<Rightarrow> Inr ''null'' | Some q \<Rightarrow> marshal_request q) ns)"
| "marshal_outgoing (OutRawMessage b) = via_marshaler ''json.RawMessage'' (Inr b)"

definition Transport_Close :: "'w TransportClient \<Rightarrow> 'w \<Rightarrow> go_error option \<times> 'w" where
  "Transport_Close t w =
     (let (err, w1) = (case tc_Close_e t of Some f \<Rightarrow> f w | None \<Rightarrow> (None, w)) in
      case tc_Close_d t of
        Some g \<Rightarrow> (let (e2, w2) = g w1 in (errors_join [err, e2], w2))
      | None \<Rightarrow> (err, w1))"

text \<open>A nil raw message, the result of a notification, is the empty byte string.\<close>

definition transport_call :: "'w TransportClient \<Rightarrow> ctx \<Rightarrow> outgoing \<Rightarrow> bool \<Rightarrow> 'w \<Rightarrow> (go_error + bytes) \<times> 'w" where
  "transport_call t c rpc isNotify w =
     (case ctx_err c of
        Some err \<Rightarrow> (Inl err, w)
      | None \<Rightarrow>
        (case tc_Encode t c rpc w of
           (Some err, w1) \<Rightarrow> (Inl err, w1)
         | (None, w1) \<Rightarrow>
           if isNotify then (Inr [], w1)
           else (case tc_Decode t c w1 of
               (Inl err, w2) \<Rightarrow> (Inl err, w2)
             | (Inr resp, w2) \<Rightarrow> (Inr resp, w2))))"

definition Transport_Call :: "'w TransportClient \<Rightarrow> ctx \<Rightarrow> Request \<Rightarrow> 'w \<Rightarrow> (go_error + Response) \<times> 'w" where
  "Transport_Call t c r w =
     (case transport_call t c (OutRequest r) False w of
        (Inl err, w') \<Rightarrow> (Inl err, w')
      | (Inr raw, w') \<Rightarrow> (tc_response t raw, w'))"

definition Transport_CallBatch ::
  "'w TransportClient \<Rightarrow> ctx \<Rightarrow> Request Batch \<Rightarrow> 'w \<Rightarrow> (go_error + Response Batch) \<times> 'w" where
  "Transport_CallBatch t c r w =
     (case transport_call t c (OutRequests r) False w of
        (Inl err, w') \<Rightarrow> (Inl err, w')
      | (Inr raw, w') \<Rightarrow>
        (case HintType raw of
           TypeObject \<Rightarrow>
             (case tc_response_ptr t raw of
                Inl err \<Rightarrow> (Inl err, w')
              | Inr sresp \<Rightarrow> (Inr (Batch_Add [] [sresp]), w'))
         | _ \<Rightarrow>
             (case tc_responses t raw of
                Inl err \<Rightarrow> (Inl err, w')
              | Inr resp \<Rightarrow> (Inr resp, w'))))"

definition Transport_CallRaw :: "'w TransportClient \<Rightarrow> ctx \<Rightarrow> RawRequest \<Rightarrow> 'w \<Rightarrow> (go_error + Response) \<times> 'w" where
  "Transport_CallRaw t c r w =
     (case transport_call t c (OutRawMessage r) False w of
        (Inl err, w') \<Rightarrow> (Inl err, w')
      | (Inr raw, w') \<Rightarrow> (tc_response t raw, w'))"

definition Transport_CallWithTimeout :: "int \<Rightarrow> 'w TransportClient \<Rightarrow> ctx \<Rightarrow> int \<Rightarrow> Request \<Rightarrow> 'w
    \<Rightarrow> (go_error + Response) \<times> 'w" where
  "Transport_CallWithTimeout now t c timeout r w = Transport_Call t (with_timeout now c timeout) r w"

definition Transport_CallBatchWithTimeout :: "int \<Rightarrow> 'w TransportClient \<Rightarrow> ctx \<Rightarrow> int \<Rightarrow> Request Batch \<Rightarrow> 'w
    \<Rightarrow> (go_error + Response Batch) \<times> 'w" where
  "Transport_CallBatchWithTimeout now t c timeout r w =
     Transport_CallBatch t (with_timeout now c timeout) r w"

definition Transport_CallRawWithTimeout :: "int \<Rightarrow> 'w TransportClient \<Rightarrow> ctx \<Rightarrow> int \<Rightarrow> RawRequest \<Rightarrow> 'w
    \<Rightarrow> (go_error + Response) \<times> 'w" where
  "Transport_CallRawWithTimeout now t c timeout r w = Transport_CallRaw t (with_timeout now c timeout) r w"

definition transport_notify :: "'w TransportClient \<Rightarrow> ctx \<Rightarrow> outgoing \<Rightarrow> 'w \<Rightarrow> go_error option \<times> 'w" where
  "transport_notify t c m w =
     (case transport_call t c m True w of (Inl err, w') \<Rightarrow> (Some err, w') | (Inr raw, w') \<Rightarrow> (None, w'))"

definition Transport_Notify :: "'w TransportClient \<Rightarrow> ctx \<Rightarrow> Notification \<Rightarrow> 'w \<Rightarrow> go_error option \<times> 'w" where
  "Transport_Notify t c n w = transport_notify t c (OutNotification n) w"

definition Transport_NotifyBatch ::
  "'w TransportClient \<Rightarrow> ctx \<Rightarrow> Notification Batch \<Rightarrow> 'w \<Rightarrow> go_error option \<times> 'w" where
  "Transport_NotifyBatch t c n w = transport_notify t c (OutNotifications n) w"

definition Transport_NotifyRaw :: "'w TransportClient \<Rightarrow> ctx \<Rightarrow> RawNotification \<Rightarrow> 'w \<Rightarrow> go_error option \<times> 'w" where
  "Transport_NotifyRaw t c n w = transport_notify t c (OutRawMessage n) w"

definition Transport_NotifyWithTimeout :: "int \<Rightarrow> 'w TransportClient \<Rightarrow> ctx \<Rightarrow> int \<Rightarrow> Notification \<Rightarrow> 'w
    \<Rightarrow> go_error option \<times> 'w" where
  "Transport_NotifyWithTimeout now t c timeout n w = Transport_Notify t (with_timeout now c timeout) n w"

definition Transport_NotifyBatchWithTimeout :: "int \<Rightarrow> 'w TransportClient \<Rightarrow> ctx \<Rightarrow> int
    \<Rightarrow> Notification Batch \<Rightarrow> 'w \<Rightarrow> go_error option \<times> 'w" where
  "Transport_NotifyBatchWithTimeout now t c timeout n w =
     Transport_NotifyBatch t (with_timeout now c timeout) n w"

definition Transport_NotifyRawWithTimeout :: "int \<Rightarrow> 'w TransportClient \<Rightarrow> ctx \<Rightarrow> int \<Rightarrow> RawNotification \<Rightarrow> 'w
    \<Rightarrow> go_error option \<times> 'w" where
  "Transport_NotifyRawWithTimeout now t c timeout n w =
     Transport_NotifyRaw t (with_timeout now c timeout) n w"

subsection \<open>Facts\<close>

lemma transport_call_cancelled [simp]:
  "ctx_err c = Some e \<Longrightarrow> transport_call t c m b w = (Inl e, w)"
  by (simp add: transport_call_def)

lemma transport_call_notify:
  "transport_call t c m True w =
     (case ctx_err c of Some err \<Rightarrow> (Inl err, w)
      | None \<Rightarrow> (case tc_Encode t c m w of (Some err, w') \<Rightarrow> (Inl err, w') | (None, w') \<Rightarrow> (Inr [], w')))"
  by (auto simp: transport_call_def split: option.splits prod.splits)

text \<open>The types the server may answer a batch with.\<close>

lemma CallBatch_object:
  assumes "transport_call t c (OutRequests r) False w = (Inr raw, w')" "HintType raw = TypeObject"
  shows "Transport_CallBatch t c r w = (rmap (\<lambda>x. [x]) (tc_response_ptr t raw), w')"
  using assms by (simp add: Transport_CallBatch_def Batch_Add_def rmap_def split: sum.split)

lemma CallBatch_array:
  assumes "transport_call t c (OutRequests r) False w = (Inr raw, w')" "HintType raw \<noteq> TypeObject"
  shows "Transport_CallBatch t c r w = (tc_responses t raw, w')"
  using assms by (simp add: Transport_CallBatch_def split: sum.split TypeHint.split)

end
