(* ===== verification/JsonObject.thy ===== *)
theory JsonObject
  imports Framing
begin

text \<open>
  Objects as \<^verbatim>\<open>json.Marshal\<close> writes them: the text of an object whose members stand on
  their own is valid, is one frame of a stream, and is cut back into exactly those members.
\<close>

subsection \<open>Values that stand inside an object\<close>

text \<open>\<open>ps\<close> is the stack below the object.\<close>

definition ends_value :: "pstate list \<Rightarrow> scanner \<Rightarrow> bool" where
  "ends_value ps s \<longleftrightarrow> snd s = ParseObjectValue # ps \<and> fst s \<in> {StEndValue, St0, St1, StDot0, StE0}"

definition embeds_in :: "pstate list \<Rightarrow> bytes \<Rightarrow> bool" where
  "embeds_in ps v \<longleftrightarrow> v \<noteq> [] \<and> jtrim v = v
     \<and> (case quiet_run (StBeginValue, ParseObjectValue # ps) v of None \<Rightarrow> False | Some s \<Rightarrow> ends_value ps s)"

abbreviation embeds :: "bytes \<Rightarrow> bool" where
  "embeds \<equiv> embeds_in []"

lemma embedsE:
  assumes "embeds_in ps v"
  obtains s where "quiet_run (StBeginValue, ParseObjectValue # ps) v = Some s" "ends_value ps s" "v \<noteq> []" "jtrim v = v"
  using assms by (auto simp: embeds_in_def split: option.splits)

lemma ends_value_step:
  assumes "ends_value ps s"
  shows "sc_step s CHR '','' = ((StBeginString, ParseObjectKey # ps), ScanObjectValue)"
    "sc_step s CHR ''}'' = (pop_state (ParseObjectValue # ps), ScanEndObject)"
proof -
  obtain st where s: "s = (st, ParseObjectValue # ps)" using assms by (cases s) (simp add: ends_value_def)
  from assms show "sc_step s CHR '','' = ((StBeginString, ParseObjectKey # ps), ScanObjectValue)"
    "sc_step s CHR ''}'' = (pop_state (ParseObjectValue # ps), ScanEndObject)"
    by (auto simp: s ends_value_def is_space_def is_digit_def)
qed

lemma embeds_quote: "embeds_in ps (quote s)"
proof -
  have "quiet_run (StBeginValue, ParseObjectValue # ps) (quote s) = Some (StEndValue, ParseObjectValue # ps)"
    by (simp add: quote_def begin_value_def is_space_def quiet_run_append quiet_quote_body)
  then show ?thesis by (simp add: embeds_in_def ends_value_def) (simp add: quote_def)
qed

lemma embeds_show_int: "embeds_in ps (show_int i)"
proof -
  obtain s where "quiet_run (StBeginValue, ParseObjectValue # ps) (show_int i) = Some (s, ParseObjectValue # ps)"
    "s = St0 \<or> s = St1"
    using quiet_show_int by blast
  moreover have "show_int i \<noteq> []"
    using show_nat_ends by (simp add: show_int_def)
  ultimately show ?thesis by (auto simp: embeds_in_def ends_value_def)
qed

lemma embeds_literal: "embeds_in ps ''null''" "embeds_in ps ''true''" "embeds_in ps ''false''"
  by (simp_all add: embeds_in_def begin_value_def is_space_def is_digit_def ends_value_def jtrim_id)

subsection \<open>Objects\<close>

text \<open>The members of an object from the state before its first key.\<close>

definition members_text :: "(bytes \<times> bytes) list \<Rightarrow> bytes" where
  "members_text kvs = join_with '','' (map (\<lambda>(k, v). quote k @ '':'' @ v) kvs)"

lemma key_run:
  assumes "st = StBeginString \<or> st = StBeginStringOrEmpty"
  shows "quiet_run (st, ParseObjectKey # ps) (quote k) = Some (StEndValue, ParseObjectKey # ps)"
  using assms
  by (auto simp: quote_def begin_string_def is_space_def quiet_run_append quiet_quote_body)

lemma colon_step:
  "sc_step (StEndValue, ParseObjectKey # ps) CHR '':'' = ((StBeginValue, ParseObjectValue # ps), ScanObjectKey)"
  by (simp add: is_space_def)

lemma one_member:
  assumes "st = StBeginString \<or> st = StBeginStringOrEmpty" "embeds v"
  shows "\<exists>s. ends_value [] s \<and> sc_run (st, [ParseObjectKey]) (quote k @ '':'' @ v) = s
    \<and> cut_object (st, [ParseObjectKey]) [] [] (quote k @ '':'' @ v @ rest) =
        cut_object s (quote k) (rev v) rest"
proof -
  obtain s where s: "quiet_run (StBeginValue, [ParseObjectValue]) v = Some s" "ends_value [] s"
    using assms(2) by (rule embedsE)
  note key = key_run [OF assms(1), of "[]" k]
  have "cut_object (st, [ParseObjectKey]) [] [] (quote k @ '':'' @ v @ rest) =
      cut_object (StBeginValue, [ParseObjectValue]) (quote k) [] (v @ rest)"
    using cut_object_quiet [OF key, of "[]" "[]" "'':'' @ v @ rest"] colon_step [of "[]"]
    by (simp add: jtrim_quote del: sc_step.simps)
  also have "\<dots> = cut_object s (quote k) (rev v) rest"
    using cut_object_quiet [OF s(1)] by simp
  finally have "cut_object (st, [ParseObjectKey]) [] [] (quote k @ '':'' @ v @ rest) =
      cut_object s (quote k) (rev v) rest" .
  moreover have "sc_run (st, [ParseObjectKey]) (quote k @ '':'' @ v) = s"
    using quiet_sc_run [OF key] quiet_sc_run [OF s(1)] colon_step [of "[]"]
    by (simp del: sc_step.simps)
  ultimately show ?thesis using s(2) by blast
qed

lemma embeds_flush: "embeds v \<Longrightarrow> flush (rev v) = [v]"
  by (auto simp: flush_def elim!: embedsE)

lemma members_cut:
  assumes "st = StBeginString \<or> st = StBeginStringOrEmpty" "kvs \<noteq> []" "\<forall>(k, v) \<in> set kvs. embeds v"
  shows "cut_object (st, [ParseObjectKey]) [] [] (members_text kvs @ ''}'') = map (\<lambda>(k, v). (quote k, v)) kvs
    \<and> (\<exists>s. ends_value [] s \<and> sc_run (st, [ParseObjectKey]) (members_text kvs) = s)"
  using assms
proof (induction kvs arbitrary: st)
  case (Cons kv kvs)
  obtain k v where kv: "kv = (k, v)" by (cases kv)
  with Cons.prems have v: "embeds v" by simp
  show ?case
  proof (cases "kvs = []")
    case True
    obtain s where s: "ends_value [] s" "sc_run (st, [ParseObjectKey]) (quote k @ '':'' @ v) = s"
      "cut_object (st, [ParseObjectKey]) [] [] (quote k @ '':'' @ v @ ''}'') = cut_object s (quote k) (rev v) ''}''"
      using one_member [OF Cons.prems(1) v] by blast
    then show ?thesis
      using True kv ends_value_step [OF s(1)] v
      by (cases s) (simp add: members_text_def embeds_flush pop_state_def del: sc_step.simps)
  next
    case False
    let ?rest = "members_text kvs"
    obtain s where s: "ends_value [] s" "sc_run (st, [ParseObjectKey]) (quote k @ '':'' @ v) = s"
      "cut_object (st, [ParseObjectKey]) [] [] (quote k @ '':'' @ v @ '','' @ ?rest @ ''}'') =
         cut_object s (quote k) (rev v) ('','' @ ?rest @ ''}'')"
      using one_member [OF Cons.prems(1) v] by blast
    have body: "members_text (kv # kvs) = quote k @ '':'' @ v @ '','' @ ?rest"
      using False by (simp add: members_text_def kv join_with_Cons)
    have IH: "cut_object (StBeginString, [ParseObjectKey]) [] [] (?rest @ ''}'') = map (\<lambda>(k, v). (quote k, v)) kvs"
      "\<exists>s. ends_value [] s \<and> sc_run (StBeginString, [ParseObjectKey]) ?rest = s"
      using Cons.IH [of StBeginString] Cons.prems False by auto
    have "sc_run (st, [ParseObjectKey]) (members_text (kv # kvs)) =
        sc_run (sc_run (st, [ParseObjectKey]) (quote k @ '':'' @ v)) ('','' @ ?rest)"
      by (simp only: body sc_run_append append_assoc)
    then show ?thesis
      using IH s ends_value_step [OF s(1)] v
      by (simp add: body [unfolded kv] kv embeds_flush pop_state_def del: sc_step.simps)
  qed
qed simp

text \<open>The whole object.\<close>

lemma json_object_members: "json_object kvs = CHR ''{'' # members_text kvs @ ''}''"
  by (simp add: json_object_def members_text_def)

lemma object_run:
  assumes "\<forall>(k, v) \<in> set kvs. embeds v"
  shows "sc_run sc_reset (json_object kvs) = (StEndTop, [])
    \<and> object_members (json_object kvs) = map (\<lambda>(k, v). (quote k, v)) kvs"
proof (cases "kvs = []")
  case True
  then show ?thesis by (simp add: json_object_def) code_simp
next
  case False
  from members_cut [OF disjI2 [OF refl] this assms] obtain s where
    cut: "cut_object (StBeginStringOrEmpty, [ParseObjectKey]) [] [] (members_text kvs @ ''}'') = map (\<lambda>(k, v). (quote k, v)) kvs"
    and s: "ends_value [] s" "sc_run (StBeginStringOrEmpty, [ParseObjectKey]) (members_text kvs) = s"
    by blast
  have "ltrim (json_object kvs) = json_object kvs"
    by (simp add: json_object_members ltrim_def is_space_def)
  then show ?thesis
    using cut s(2) ends_value_step [OF s(1)]
    by (simp add: json_object_members object_members_def first_step pop_state_def del: sc_step.simps)
qed

lemma kind_json_object [simp]: "kind_of (json_object kvs) = KObject"
  by (simp add: json_object_members kind_of_def)

lemma HintType_json_object [simp]: "HintType (json_object kvs) = TypeObject"
  by (simp add: json_object_members)

lemma framed_json_object:
  assumes "\<forall>(k, v) \<in> set kvs. embeds v"
  shows "framed (json_object kvs)"
  using object_run [OF assms]
  by (simp add: framed_def json_valid_def check_valid_def sc_eof_def)
     (simp add: json_object_members is_space_def)

lemma checked_framed: "framed v \<Longrightarrow> checked v = Inr v"
  using framed_jtrim [of v] by (simp add: checked_def framed_def json_valid_def)

text \<open>The fields of a struct, as far as they are present, are the members of its text.\<close>

definition present_fields :: "(bytes \<times> (go_error + bytes) option) list \<Rightarrow> (bytes \<times> bytes) list" where
  "present_fields fs = List.map_filter (\<lambda>(k, v). case v of Some (Inr b) \<Rightarrow> Some (k, b) | _ \<Rightarrow> None) fs"

lemma marshal_fields_object:
  assumes "\<forall>(k, v) \<in> set fs. case v of None \<Rightarrow> True | Some r \<Rightarrow> \<exists>b. r = Inr b"
  shows "marshal_fields fs = Inr (json_object (present_fields fs))"
proof -
  let ?kept = "List.map_filter (\<lambda>(k, v). map_option (Pair k) v) fs"
  have "mapM snd ?kept = Inr (map snd (present_fields fs)) \<and> map fst ?kept = map fst (present_fields fs)"
    using assms by (induction fs) (auto simp: present_fields_def map_filter_simps split: option.splits)
  then show ?thesis
    by (simp add: marshal_fields_def Let_def zip_map_fst_snd)
qed

lemma set_members_wire:
  assumes "valid_utf8 k" "k \<in> set names"
  shows "set_members names f ((quote k, v) # ms) s =
    rbind (f k v (fst s)) (\<lambda>s'. set_members names f ms (fst s', or_first (snd s) (snd s')))"
  using assms by (simp add: unquote_quote find_field_def)

lemma unmarshal_struct_wire:
  assumes "\<forall>(k, v) \<in> set kvs. embeds v"
  shows "unmarshal_struct names f ty s (json_object kvs) =
    rbind (set_members names f (map (\<lambda>(k, v). (quote k, v)) kvs) (s, None)) saved"
  using checked_framed [OF framed_json_object [OF assms]] object_run [OF assms]
  by (simp add: unmarshal_struct_def set_struct_def)

subsection \<open>Objects inside objects\<close>

lemma nested_members:
  assumes "st = StBeginString \<or> st = StBeginStringOrEmpty" "kvs \<noteq> []" "\<forall>(k, v) \<in> set kvs. embeds_in (p # ps) v"
  shows "\<exists>s. ends_value (p # ps) s \<and> quiet_run (st, ParseObjectKey # p # ps) (members_text kvs) = Some s"
  using assms
proof (induction kvs arbitrary: st)
  case (Cons kv kvs)
  obtain k v where kv: "kv = (k, v)" by (cases kv)
  with Cons.prems have "embeds_in (p # ps) v" by simp
  then obtain s where s: "quiet_run (StBeginValue, ParseObjectValue # p # ps) v = Some s" "ends_value (p # ps) s"
    by (rule embedsE)
  have first: "quiet_run (st, ParseObjectKey # p # ps) (quote k @ '':'' @ v @ rest) = quiet_run s rest" for rest
    using key_run [OF Cons.prems(1), of "p # ps" k] colon_step [of "p # ps"] s(1)
    by (simp add: quiet_run_append cuts_def del: sc_step.simps)
  show ?case
  proof (cases "kvs = []")
    case True
    then show ?thesis
      using first [of "[]"] s(2) by (intro exI [of _ s]) (simp add: members_text_def kv)
  next
    case False
    have body: "members_text (kv # kvs) = quote k @ '':'' @ v @ '','' @ members_text kvs"
      using False by (simp add: members_text_def kv join_with_Cons)
    obtain s' where "ends_value (p # ps) s'"
      "quiet_run (StBeginString, ParseObjectKey # p # ps) (members_text kvs) = Some s'"
      using Cons.IH [of StBeginString] Cons.prems False by auto
    then show ?thesis
      using ends_value_step(1) [OF s(2)]
      by (intro exI [of _ s']) (simp only: body first, simp add: cuts_def del: sc_step.simps)
  qed
qed simp

lemma jtrim_json_object [simp]: "jtrim (json_object kvs) = json_object kvs"
  by (rule jtrim_id) (simp_all add: json_object_members is_space_def)

lemma embeds_object:
  assumes "\<forall>(k, v) \<in> set kvs. embeds_in (ParseObjectValue # ps) v" "kvs \<noteq> []" "int (length ps) + 2 \<le> max_depth"
  shows "embeds_in ps (json_object kvs)"
proof -
  obtain s where s: "ends_value (ParseObjectValue # ps) s"
    "quiet_run (StBeginStringOrEmpty, ParseObjectKey # ParseObjectValue # ps) (members_text kvs) = Some s"
    using nested_members [OF disjI2 [OF refl] assms(2,1)] by blast
  have open_step: "sc_step (StBeginValue, ParseObjectValue # ps) CHR ''{'' =
      ((StBeginStringOrEmpty, ParseObjectKey # ParseObjectValue # ps), ScanBeginObject)"
    using assms(3) by (simp add: begin_value_def is_space_def push_state_def)
  have "quiet_run (StBeginValue, ParseObjectValue # ps) (json_object kvs) = Some (StEndValue, ParseObjectValue # ps)"
    using s(2) ends_value_step(2) [OF s(1)] open_step
    by (simp add: json_object_members quiet_run_append pop_state_def cuts_def del: sc_step.simps)
  then show ?thesis
    by (simp add: embeds_in_def ends_value_def) (simp add: json_object_members)
qed

subsection \<open>Arrays of objects\<close>

definition array_ready :: "bytes \<Rightarrow> bool" where
  "array_ready v \<longleftrightarrow> (\<exists>t. v = CHR ''{'' # t) \<and> jtrim v = v
     \<and> quiet_run (StBeginValue, [ParseArrayValue]) v = Some (StEndValue, [ParseArrayValue])"

lemma object_array_ready:
  assumes "\<forall>(k, v) \<in> set kvs. embeds_in [ParseArrayValue] v" "kvs \<noteq> []"
  shows "array_ready (json_object kvs)"
proof -
  obtain s where s: "ends_value [ParseArrayValue] s"
    "quiet_run (StBeginStringOrEmpty, [ParseObjectKey, ParseArrayValue]) (members_text kvs) = Some s"
    using nested_members [OF disjI2 [OF refl] assms(2,1)] by blast
  have open_step: "sc_step (StBeginValue, [ParseArrayValue]) CHR ''{'' =
      ((StBeginStringOrEmpty, [ParseObjectKey, ParseArrayValue]), ScanBeginObject)"
    by (simp add: begin_value_def is_space_def push_state_def max_depth_def)
  have "quiet_run (StBeginValue, [ParseArrayValue]) (json_object kvs) = Some (StEndValue, [ParseArrayValue])"
    using s(2) ends_value_step(2) [OF s(1)] open_step
    by (simp add: json_object_members quiet_run_append pop_state_def cuts_def del: sc_step.simps)
  then show ?thesis
    by (simp add: array_ready_def) (simp add: json_object_members)
qed

lemma array_element:
  assumes "array_ready v" "st = StBeginValue \<or> st = StBeginValueOrEmpty"
  shows "quiet_run (st, [ParseArrayValue]) v = Some (StEndValue, [ParseArrayValue])"
  using assms by (auto simp: array_ready_def is_space_def)

lemma array_steps:
  "sc_step (StEndValue, [ParseArrayValue]) CHR '','' = ((StBeginValue, [ParseArrayValue]), ScanArrayValue)"
  "sc_step (StEndValue, [ParseArrayValue]) CHR '']'' = ((StEndTop, []), ScanEndArray)"
  by (simp_all add: is_space_def pop_state_def)

lemma array_flush: "array_ready v \<Longrightarrow> flush (rev v) = [v]"
  by (auto simp: flush_def array_ready_def)

lemma array_cut:
  assumes "st = StBeginValue \<or> st = StBeginValueOrEmpty" "vs \<noteq> []" "\<forall>v \<in> set vs. array_ready v"
  shows "cut_array (st, [ParseArrayValue]) [] (join_with '','' vs @ '']'') = vs
    \<and> sc_run (st, [ParseArrayValue]) (join_with '','' vs) = (StEndValue, [ParseArrayValue])"
  using assms
proof (induction vs arbitrary: st)
  case (Cons v vs)
  then have v: "array_ready v" by simp
  note run = array_element [OF v Cons.prems(1)]
  show ?case
  proof (cases "vs = []")
    case True
    then show ?thesis
      using cut_array_quiet [OF run, of "[]" "'']''"] quiet_sc_run [OF run] v
      by (simp add: array_steps array_flush del: sc_step.simps)
  next
    case False
    then have "cut_array (StBeginValue, [ParseArrayValue]) [] (join_with '','' vs @ '']'') = vs
        \<and> sc_run (StBeginValue, [ParseArrayValue]) (join_with '','' vs) = (StEndValue, [ParseArrayValue])"
      using Cons.IH [of StBeginValue] Cons.prems(3) by simp
    then show ?thesis
      using False cut_array_quiet [OF run, of "[]" "'','' @ join_with '','' vs @ '']''"] quiet_sc_run [OF run] v
      by (simp add: join_with_Cons array_steps array_flush del: sc_step.simps)
  qed
qed simp

lemma json_array_wire:
  assumes "vs \<noteq> []" "\<forall>v \<in> set vs. array_ready v"
  shows "framed (json_array vs) \<and> array_elems (json_array vs) = vs \<and> kind_of (json_array vs) = KArray
    \<and> HintType (json_array vs) = TypeArray"
proof -
  note cut = array_cut [OF disjI2 [OF refl] assms]
  have "ltrim (json_array vs) = json_array vs"
    by (simp add: json_array_def ltrim_def is_space_def)
  then show ?thesis
    using cut array_steps
    by (simp add: framed_def json_valid_def check_valid_def sc_eof_def array_elems_def json_array_def first_step
        kind_of_def is_space_def del: sc_step.simps)
qed

lemma unmarshal_raws_wire:
  "vs \<noteq> [] \<Longrightarrow> \<forall>v \<in> set vs. array_ready v \<Longrightarrow> unmarshal_raws (json_array vs) = Inr vs"
  using json_array_wire [of vs] checked_framed [of "json_array vs"] by (simp add: unmarshal_raws_def)

end
