(* ===== verification/Wire.thy ===== *)
theory Wire
  imports JsonObject
begin

text \<open>
  Messages on the wire: a request or a response that was encoded decodes to the message it
  stands for, in which every value is the raw text it was written as.
\<close>

subsection \<open>A value nests inside another\<close>

text \<open>The greatest length of the scanner's stack on a text.\<close>

fun nesting :: "scanner \<Rightarrow> bytes \<Rightarrow> nat" where
  "nesting s [] = length (snd s)"
| "nesting s (c # cs) = max (length (snd s)) (nesting (fst (sc_step s c)) cs)"

lemma nesting_first: "length (snd s) \<le> nesting s cs"
  by (cases cs) simp_all

definition under :: "pstate list \<Rightarrow> scanner \<times> scancode \<Rightarrow> scanner \<times> scancode" where
  "under qs r = ((if snd (fst r) = [] then StEndValue else fst (fst r), snd (fst r) @ qs), snd r)"

text \<open>On a longer stack the scanner takes the same steps, as long as the stack does not exceed
  its limit.\<close>

definition fits :: "pstate list \<Rightarrow> scanner \<times> scancode \<Rightarrow> bool" where
  "fits qs r \<longleftrightarrow> snd r = ScanError \<or> int (length (snd (fst r))) + int (length qs) \<le> max_depth"

lemma end_value_under:
  "qs \<noteq> [] \<Longrightarrow> snd (end_value c (p # ps)) \<noteq> ScanError \<Longrightarrow>
   end_value c ((p # ps) @ qs) = under qs (end_value c (p # ps))"
  by (cases p; cases ps) (auto simp: under_def pop_state_def serror_def)

lemma push_under:
  assumes "fits qs (push_state c st p ps k)" "snd (push_state c st p ps k) \<noteq> ScanError"
  shows "push_state c st p (ps @ qs) k = under qs (push_state c st p ps k)"
  using assms by (auto simp: push_state_def under_def fits_def serror_def split: if_splits)

lemma begin_value_under:
  assumes "ps \<noteq> []" "fits qs (begin_value c ps)" "snd (begin_value c ps) \<noteq> ScanError"
  shows "begin_value c (ps @ qs) = under qs (begin_value c ps)"
  using assms push_under by (auto simp: begin_value_def serror_def under_def split: if_splits)

lemma begin_string_under:
  "ps \<noteq> [] \<Longrightarrow> snd (begin_string c ps) \<noteq> ScanError \<Longrightarrow> begin_string c (ps @ qs) = under qs (begin_string c ps)"
  by (auto simp: begin_string_def under_def serror_def)

lemma step_under:
  assumes "inner (st, ps)" "qs \<noteq> []" "snd (sc_step (st, ps) c) \<noteq> ScanError" "fits qs (sc_step (st, ps) c)"
  shows "sc_step (st, ps @ qs) c = under qs (sc_step (st, ps) c)"
proof -
  obtain p ps' where ps: "ps = p # ps'" and st: "st \<noteq> StEndTop" "\<And>m. st \<noteq> StError m"
    using assms(1) by (cases ps; cases st) (auto simp: inner_def)
  note rules = end_value_under [OF assms(2)] begin_value_under begin_string_under
  show ?thesis
  proof (cases st)
    case (StLit w xs)
    then show ?thesis
      using assms(2-4) rules(1) [of c p ps'] by (cases xs) (auto simp: ps under_def serror_def simp del: end_value.simps)
  next
    case StBeginStringOrEmpty
    then show ?thesis
      using assms(2-4) rules(1) [of c ParseObjectValue ps'] rules(3) [of ps c]
      by (auto simp: ps under_def serror_def simp del: end_value.simps)
  qed (use assms(2-4) rules(1) [of c p ps'] rules(2) [of ps qs c] rules(3) [of ps c] st in
      \<open>auto simp: ps under_def serror_def simp del: end_value.simps split: if_splits\<close>)
qed

text \<open>The rest of a value that has begun, on a longer stack.\<close>

lemma value_under:
  assumes "inner s" "value_end s xs n = VEnd (n + length xs)" "qs \<noteq> []"
    and "int (nesting s xs) + int (length qs) \<le> max_depth"
  shows "quiet_run (fst s, snd s @ qs) xs = Some (StEndValue, qs)"
  using assms
proof (induction xs arbitrary: s n)
  case (Cons c cs)
  obtain s1 k where s1: "sc_step s c = (s1, k)" by fastforce
  have "length (snd s1) \<le> nesting s (c # cs)"
    using nesting_first [of s1 cs] s1 by simp
  then have fits: "fits qs (s1, k)" using Cons.prems(4) by (simp add: fits_def)
  have "k \<noteq> ScanError"
    using Cons.prems(2) s1 by auto
  then have under: "sc_step (fst s, snd s @ qs) c = under qs (s1, k)"
    using step_under [of "fst s" "snd s" qs c] Cons.prems(1,3) s1 fits by simp
  have cases: "(k = ScanEndObject \<or> k = ScanEndArray) \<and> s1 = (StEndTop, []) \<or> k \<noteq> ScanEnd \<and> inner s1"
    using inner_step [OF Cons.prems(1), of c] s1 \<open>k \<noteq> ScanError\<close> by (auto simp: inner_next_def)
  show ?case
  proof (cases "inner s1 \<and> k \<noteq> ScanEnd")
    case True
    then have "value_end s (c # cs) n = value_end s1 cs (Suc n)"
      using s1 \<open>k \<noteq> ScanError\<close> by (auto simp: inner_def split: scancode.split)
    then have "quiet_run (fst s1, snd s1 @ qs) cs = Some (StEndValue, qs)"
      using Cons.IH [of s1 "Suc n"] Cons.prems(2-4) True s1 by simp
    moreover have "2 \<le> length (snd s1 @ qs)"
      using True Cons.prems(3) by (cases qs; cases "snd s1") (auto simp: inner_def)
    ultimately show ?thesis
      using under True by (cases "snd s1") (auto simp: under_def cuts_def inner_def)
  next
    case False
    with cases have close: "k = ScanEndObject \<or> k = ScanEndArray" "s1 = (StEndTop, [])" by auto
    then have "value_end s (c # cs) n = VEnd (Suc n)" using s1 by auto
    with Cons.prems(2) have "cs = []" by simp
    then show ?thesis
      using under close Cons.prems(3) by (auto simp: under_def cuts_def)
  qed
qed (simp add: inner_def)

lemma embeds_framed:
  assumes "framed v" "int (nesting sc_reset v) + int (length ps) + 1 \<le> max_depth"
  shows "embeds_in ps v"
proof -
  obtain c cs where v: "v = c # cs" and c: "c = CHR ''{'' \<or> c = CHR ''[''"
    using assms(1) by (cases v) (auto simp: framed_def)
  let ?s = "fst (sc_step sc_reset c)" and ?qs = "ParseObjectValue # ps"
  have "value_end ?s cs (Suc 0) = VEnd (Suc 0 + length cs)"
    using framed_value_end [OF assms(1)] c by (elim disjE) (simp_all add: v Let_def split_beta first_step)
  then have "quiet_run (fst ?s, snd ?s @ ?qs) cs = Some (StEndValue, ?qs)"
    using value_under [OF first_inner [OF c], of cs "Suc 0" ?qs] assms(2) by (simp add: v)
  moreover have "length (snd ?s) = 1"
    using c by (elim disjE) (simp_all add: first_step)
  then have "int (length ?qs) + 1 \<le> max_depth"
    using assms(2) nesting_first [of ?s cs] by (simp add: v)
  ultimately have "quiet_run (StBeginValue, ?qs) v = Some (StEndValue, ?qs)"
    using c by (elim disjE) (simp_all add: v first_step begin_value_def is_space_def push_state_def)
  then show ?thesis
    using framed_jtrim [OF assms(1)] by (simp add: embeds_in_def ends_value_def v)
qed

subsection \<open>Compacting what the package writes\<close>

lemma skips_serror [simp]: "\<not> skips (snd (serror ps c m))"
  by (simp add: skips_def serror_def)

lemma skips_simps [simp]:
  "\<not> skips ScanContinue" "\<not> skips ScanBeginLiteral" "\<not> skips ScanError" "skips ScanSkipSpace" "skips ScanEnd"
  by (simp_all add: skips_def)

text \<open>Text without white space, HTML characters and the first byte of the line separators.\<close>

definition plain_char :: "char \<Rightarrow> bool" where
  "plain_char c \<longleftrightarrow> \<not> is_space c \<and> c \<noteq> CHR ''<'' \<and> c \<noteq> CHR ''>'' \<and> c \<noteq> CHR ''&'' \<and> bval c < 128"

lemma end_value_skips: "skips (snd (end_value c ps)) \<Longrightarrow> is_space c"
  by (cases ps; cases "hd ps") (auto simp: end_top_def skips_def serror_def split: if_splits)

lemma begin_skips:
  "skips (snd (begin_value c ps)) \<Longrightarrow> is_space c" "skips (snd (begin_string c ps)) \<Longrightarrow> is_space c"
  by (auto simp: begin_value_def begin_string_def push_state_def skips_def serror_def split: if_splits)

lemma skips_space: "skips (snd (sc_step (st, ps) c)) \<Longrightarrow> is_space c"
proof (cases st)
  case (StLit w xs)
  then show "skips (snd (sc_step (st, ps) c)) \<Longrightarrow> is_space c"
    using end_value_skips [of c ps] by (cases xs) (auto simp del: end_value.simps split: if_splits)
qed (use end_value_skips [of c ps] end_value_skips [of c "to_object_value ps"] begin_skips [of c ps] in
    \<open>auto simp: end_top_def simp del: end_value.simps split: if_splits\<close>)

lemma compact_plain:
  "list_all plain_char xs \<Longrightarrow> compact_from s 0 (xs @ ys) = xs @ compact_from (sc_run s xs) 0 ys"
proof (induction xs arbitrary: s)
  case (Cons c xs)
  then have c: "plain_char c" by simp
  then have "\<not> skips (snd (sc_step s c))"
    using skips_space [of "fst s" "snd s" c] by (auto simp: plain_char_def)
  moreover have "\<not> is_line_sep (c # xs @ ys)"
    using c by (auto simp: is_line_sep_def plain_char_def split: list.split)
  ultimately show ?case
    using Cons c by (auto simp: html_escape_def plain_char_def split_beta Let_def)
qed simp

lemma plain_digit: "is_digit c \<Longrightarrow> plain_char c"
  by (auto simp: is_digit_def plain_char_def is_space_def)

lemma plain_show_int: "list_all plain_char (show_int i)"
proof -
  have "list_all plain_char (show_nat n)" for n
    using show_nat_digits [of n] by (auto simp: list_all_iff intro: plain_digit)
  then show ?thesis
    by (simp add: show_int_def) (simp add: plain_char_def is_space_def)
qed

lemma compact_valid_plain: "json_valid v \<Longrightarrow> list_all plain_char v \<Longrightarrow> compact v = Inr v"
  using compact_plain [of v sc_reset "[]"] by (simp add: compact_def json_valid_def)

lemma compact_show_int [simp]: "compact (show_int i) = Inr (show_int i)"
  by (rule compact_valid_plain [OF show_int_valid plain_show_int])

text \<open>A quoted string is already compact.\<close>

lemma hex_digit_plain: "n < 16 \<Longrightarrow> plain_char (hex_digit n)"
  using hex_digit_cases [of n] by (auto simp: hex_digit_def plain_char_def is_space_def)

lemma compact_escape:
  assumes "list_all plain_char xs"
    and "sc_run (StInString, ps) xs = (StInString, ps)"
  shows "compact_from (StInString, ps) 0 (xs @ t) = xs @ compact_from (StInString, ps) 0 t"
  using compact_plain [OF assms(1)] assms(2) by simp

lemma plain_unicode: "n < 16 \<Longrightarrow> m < 16 \<Longrightarrow> list_all plain_char (CHR 0x5C # ''u00'' @ [hex_digit n, hex_digit m])"
  by (simp add: hex_digit_plain) (simp add: plain_char_def is_space_def)

lemma compact_quote_ascii:
  assumes "bval c < 128"
  shows "compact_from (StInString, ps) 0 (quote_ascii c @ t) = quote_ascii c @ compact_from (StInString, ps) 0 t"
proof (cases "c = CHR '' ''")
  case True
  then show ?thesis
    by (simp add: quote_ascii_def html_escape_def is_line_sep_def split: list.split)
next
  case False
  have "bval c \<noteq> bval CHR '' ''" using False by (simp only: of_char_eq_iff simp_thms)
  then have "list_all plain_char (quote_ascii c)"
    using False assms plain_unicode [of "bval c div 16" "bval c mod 16"]
    by (auto simp: quote_ascii_def plain_char_def is_space_def)
  then show ?thesis
    using compact_escape quiet_sc_run [OF quiet_quote_ascii [OF assms]] by blast
qed

lemma compact_high:
  assumes "\<forall>x \<in> set xs. cont x"
  shows "compact_from (StInString, ps) 0 (xs @ t) = xs @ compact_from (StInString, ps) 0 t"
  using assms
proof (induction xs)
  case (Cons x xs)
  then have x: "128 \<le> bval x" "bval x < 192" by (auto simp: cont_def)
  then have "x \<noteq> CHR 0x22" "x \<noteq> CHR 0x5C" "\<not> bval x < 32" "x \<noteq> CHR ''<''" "x \<noteq> CHR ''>''" "x \<noteq> CHR ''&''"
    "x \<noteq> CHR 0xE2"
    by auto
  then show ?case
    using Cons by (auto simp: html_escape_def is_line_sep_def split: list.split)
qed simp

lemma compact_rune:
  assumes "1 < rune_len (c # cs)" "\<not> is_line_sep (c # cs)"
  shows "compact_from (StInString, ps) 0 (take (rune_len (c # cs)) (c # cs) @ t) =
    take (rune_len (c # cs)) (c # cs) @ compact_from (StInString, ps) 0 t"
proof -
  have c: "128 \<le> bval c" using assms(1) by (auto simp: rune_len_def split: if_splits)
  then have nc: "c \<noteq> CHR 0x22" "c \<noteq> CHR 0x5C" "\<not> bval c < 32" "c \<noteq> CHR ''<''" "c \<noteq> CHR ''>''" "c \<noteq> CHR ''&''"
    by auto
  obtain m where m: "rune_len (c # cs) = Suc m" using assms(1) by (cases "rune_len (c # cs)") auto
  have tail: "(\<forall>x \<in> set (take m cs). cont x) \<and> \<not> is_line_sep (c # take m cs @ t)"
    using rune_len_cases [of "c # cs"]
  proof (elim disjE conjE)
    assume n: "rune_len (c # cs) = 2" and r: "rune2 (c # cs)"
    from r obtain b u where cs: "cs = b # u" by (elim rune2_E) simp
    with r n m show ?thesis by (auto simp: is_line_sep_def split: list.split)
  next
    assume n: "rune_len (c # cs) = 3" and r: "rune3 (c # cs)"
    from r obtain b d u where cs: "cs = b # d # u" by (elim rune3_E) simp
    have "m = Suc (Suc 0)" using n m by simp
    with cs r assms(2) show ?thesis by (auto simp: is_line_sep_def)
  next
    assume n: "rune_len (c # cs) = 4" and r: "rune4 (c # cs)"
    from r obtain b d e u where cs: "cs = b # d # e # u" by (elim rune4_E) simp
    have "m = Suc (Suc (Suc 0))" using n m by simp
    with cs r show ?thesis by (auto simp: is_line_sep_def)
  qed (use assms in simp_all)
  then show ?thesis
    using nc compact_high [of "take m cs" ps t] by (simp add: m html_escape_def)
qed

lemma compact_quote_body:
  "compact_from (StInString, ps) 0 (quote_body s @ t) = quote_body s @ compact_from (StInString, ps) 0 t"
proof (induction s arbitrary: t rule: quote_body.induct)
  case 1
  show ?case by (simp add: quote_body.simps)
next
  case (2 c cs)
  consider "bval c < 128" | "128 \<le> bval c" "rune_len (c # cs) = 0"
    | "128 \<le> bval c" "rune_len (c # cs) \<noteq> 0" "is_line_sep (c # cs)"
    | "128 \<le> bval c" "rune_len (c # cs) \<noteq> 0" "\<not> is_line_sep (c # cs)"
    by fastforce
  then show ?case
  proof cases
    case 1
    then show ?thesis
      using "2.IH"(1) by (simp add: quote_body.simps compact_quote_ascii del: compact_from.simps)
  next
    case 2
    have "is_hex CHR ''f''" "is_hex CHR ''d''" by (simp_all add: is_hex_def)
    then have "compact_from (StInString, ps) 0 ((CHR 0x5C # ''ufffd'') @ u) =
        (CHR 0x5C # ''ufffd'') @ compact_from (StInString, ps) 0 u" for u
      by (intro compact_escape) (simp_all add: plain_char_def is_space_def)
    then show ?thesis
      using 2 "2.IH"(2) by (simp add: quote_body.simps del: compact_from.simps)
  next
    case 3
    have h: "is_hex (hex_digit (bval (cs ! 1) mod 16))" "is_hex CHR ''2''" "is_hex CHR ''0''"
      using hex_digit_props [of "bval (cs ! 1) mod 16"] by (simp_all add: is_hex_def is_digit_def)
    have "compact_from (StInString, ps) 0 ((CHR 0x5C # ''u202'' @ [hex_digit (bval (cs ! 1) mod 16)]) @ u) =
        (CHR 0x5C # ''u202'' @ [hex_digit (bval (cs ! 1) mod 16)]) @ compact_from (StInString, ps) 0 u" for u
      by (intro compact_escape) (simp_all add: h [simplified] hex_digit_plain, simp add: plain_char_def is_space_def)
    then show ?thesis
      using 3 "2.IH"(3) by (simp add: quote_body.simps del: compact_from.simps)
  next
    case 4
    then have "1 < rune_len (c # cs)"
      using rune_len_cases [of "c # cs"] by auto
    then show ?thesis
      using 4 "2.IH"(4) compact_rune [of c cs] by (simp add: quote_body.simps del: compact_from.simps)
  qed
qed

lemma compact_quote [simp]: "compact (quote s) = Inr (quote s)"
proof -
  have "compact_from sc_reset 0 (quote s) = quote s"
    using compact_quote_body [of "[]" s "[CHR 0x22]"]
    by (simp add: quote_def sc_reset_def begin_value_def is_space_def html_escape_def is_line_sep_def
        split: list.split)
  then show ?thesis
    using quote_valid [of s] by (simp add: compact_def json_valid_def)
qed

subsection \<open>Number literals\<close>

fun number_state :: "sstep \<Rightarrow> bool" where
  "number_state StNeg = True" | "number_state St1 = True" | "number_state St0 = True"
| "number_state StDot = True" | "number_state StDot0 = True" | "number_state StE = True"
| "number_state StESign = True" | "number_state StE0 = True" | "number_state s = False"

lemma plain_number_chars [simp]:
  "plain_char CHR ''0''" "plain_char CHR ''.''" "plain_char CHR ''e''" "plain_char CHR ''E''"
  "plain_char CHR ''+''" "plain_char CHR ''-''"
  by (simp_all add: plain_char_def is_space_def)

lemma number_step:
  assumes "number_state st"
  shows "(\<exists>st'. number_state st' \<and> (\<forall>ps. sc_step (st, ps) c = ((st', ps), ScanContinue)) \<and> plain_char c)
    \<or> st \<in> {St0, St1, StDot0, StE0} \<and> sc_step (st, []) c = end_top c []
    \<or> snd (sc_step (st, []) c) = ScanError \<and> (\<exists>m. fst (fst (sc_step (st, []) c)) = StError m)"
  using assms
  by (cases st) (auto simp: serror_def intro: plain_digit)

lemma number_run:
  assumes "number_state st" "sc_eof (sc_run (st, []) xs) = None"
  shows "\<exists>ys zs. xs = ys @ zs \<and> list_all plain_char ys \<and> list_all is_space zs
    \<and> (\<exists>st' \<in> {St0, St1, StDot0, StE0}. \<forall>ps. quiet_run (st, ps) ys = Some (st', ps))"
  using assms
proof (induction xs arbitrary: st)
  case Nil
  then have "st \<in> {St0, St1, StDot0, StE0}"
    by (cases st) (auto simp: sc_eof_def serror_def is_digit_def)
  then show ?case by (intro exI [of _ "[]"]) auto
next
  case (Cons c xs)
  from number_step [OF Cons.prems(1), of c] show ?case
  proof (elim disjE conjE exE)
    fix st' assume st': "number_state st'" "\<forall>ps. sc_step (st, ps) c = ((st', ps), ScanContinue)" "plain_char c"
    then have "sc_eof (sc_run (st', []) xs) = None" using Cons.prems(2) by simp
    from Cons.IH [OF st'(1) this] obtain ys zs where "xs = ys @ zs" "list_all plain_char ys" "list_all is_space zs"
      "\<exists>st'' \<in> {St0, St1, StDot0, StE0}. \<forall>ps. quiet_run (st', ps) ys = Some (st'', ps)" by blast
    with st' show ?thesis by (intro exI [of _ "c # ys"] exI [of _ zs]) auto
  next
    assume st: "st \<in> {St0, St1, StDot0, StE0}" and top: "sc_step (st, []) c = end_top c []"
    have "list_all is_space (c # xs)"
    proof (rule run_top_spaces)
      show "sc_eof (sc_run (StEndTop, []) (c # xs)) = None"
        using Cons.prems(2) top by simp
    qed
    with st show ?thesis by (intro exI [of _ "[]"] exI [of _ "c # xs"]) simp
  next
    fix m assume "fst (fst (sc_step (st, []) c)) = StError m"
    then have "sc_run (st, []) (c # xs) = (StError m, snd (fst (sc_step (st, []) c)))"
      by (cases "fst (sc_step (st, []) c)") simp
    with Cons.prems(2) show ?thesis by (simp add: sc_eof_def)
  qed
qed

lemma jtrim_last: "jtrim s = s \<Longrightarrow> s \<noteq> [] \<Longrightarrow> \<not> is_space (last s)"
proof
  assume s: "jtrim s = s" "s \<noteq> []" "is_space (last s)"
  have "rev s = dropWhile is_space (rev (ltrim s))"
    using arg_cong [OF s(1), of rev] by (simp add: jtrim_def)
  then show False
    using s(2,3) hd_dropWhile [of is_space "rev (ltrim s)"] by (metis hd_rev rev_is_Nil_conv)
qed

lemma valid_number_run:
  assumes "valid_number n"
  shows "list_all plain_char n \<and> (\<exists>st \<in> {St0, St1, StDot0, StE0}. \<forall>ps. quiet_run (StBeginValue, ps) n = Some (st, ps))"
proof -
  obtain c cs where n: "n = c # cs" "c = CHR ''-'' \<or> is_digit c"
    using valid_number_first [OF assms] by blast
  then obtain st where st: "number_state st" "\<forall>ps. sc_step (StBeginValue, ps) c = ((st, ps), ScanBeginLiteral)"
  proof -
    have "c \<noteq> CHR ''{''" "c \<noteq> CHR ''[''" "c \<noteq> CHR 0x22" "c \<noteq> CHR ''t''" "c \<noteq> CHR ''f''" "c \<noteq> CHR ''n''"
      "\<not> is_space c"
      using n(2) by (auto simp: is_digit_def is_space_def)
    then show ?thesis
      using n(2) that [of StNeg] that [of St0] that [of St1]
      by (cases "c = CHR ''0''"; cases "c = CHR ''-''") (simp_all add: begin_value_def)
  qed
  have "sc_eof (sc_run (st, []) cs) = None"
    using assms st(2) by (simp add: valid_number_def json_valid_def check_valid_def sc_reset_def n)
  from number_run [OF st(1) this] obtain ys zs where cs: "cs = ys @ zs" "list_all plain_char ys" "list_all is_space zs"
    and run: "\<exists>st' \<in> {St0, St1, StDot0, StE0}. \<forall>ps. quiet_run (st, ps) ys = Some (st', ps)" by blast
  have "zs = []"
  proof (rule ccontr)
    assume "zs \<noteq> []"
    then have "is_space (last n)" using cs(1,3) n(1) by (simp add: list_all_iff)
    then show False using jtrim_last [of n] assms n(1) by (simp add: valid_number_def)
  qed
  moreover have "plain_char c"
    using n(2) by (auto simp: plain_digit)
  ultimately show ?thesis
    using cs run st(2) by (simp add: n(1))
qed

lemma compact_valid_number: "valid_number n \<Longrightarrow> compact n = Inr n"
  using valid_number_run [of n] by (intro compact_valid_plain) (simp_all add: valid_number_def)

lemma embeds_valid_number: "valid_number n \<Longrightarrow> embeds_in ps n"
  using valid_number_run [of n] valid_number_first [of n]
  by (fastforce simp: embeds_in_def ends_value_def valid_number_def)

subsection \<open>Strings and literals\<close>

fun scalar_state :: "sstep \<Rightarrow> bool" where
  "scalar_state StInString = True" | "scalar_state StInStringEsc = True"
| "scalar_state (StInStringEscU n) = True" | "scalar_state (StLit w xs) = (xs \<noteq> [])"
| "scalar_state StEndValue = True" | "scalar_state s = False"

lemma scalar_step:
  assumes "scalar_state st"
  shows "(\<exists>st'. scalar_state st' \<and> (\<forall>ps. sc_step (st, ps) c = ((st', ps), ScanContinue)))
    \<or> st = StEndValue
    \<or> (\<exists>m. fst (sc_step (st, []) c) = (StError m, []))"
proof (cases st)
  case (StLit w xs)
  with assms show ?thesis by (cases xs) (auto simp: serror_def)
qed (use assms in \<open>auto simp: serror_def\<close>)

lemma scalar_run:
  assumes "scalar_state st" "sc_eof (sc_run (st, []) xs) = None"
  shows "\<exists>ys zs. xs = ys @ zs \<and> list_all is_space zs \<and> (\<forall>ps. quiet_run (st, ps) ys = Some (StEndValue, ps))"
  using assms
proof (induction xs arbitrary: st)
  case Nil
  then have "st = StEndValue"
  proof (cases st)
    case (StLit w xs)
    with Nil show ?thesis by (cases xs) (auto simp: sc_eof_def serror_def split: if_splits)
  qed (use Nil in \<open>auto simp: sc_eof_def serror_def is_hex_def is_digit_def\<close>)
  then show ?case by simp
next
  case (Cons c xs)
  from scalar_step [OF Cons.prems(1), of c] show ?case
  proof (elim disjE exE conjE)
    fix st' assume st': "scalar_state st'" "\<forall>ps. sc_step (st, ps) c = ((st', ps), ScanContinue)"
    then have "sc_eof (sc_run (st', []) xs) = None" using Cons.prems(2) by simp
    from Cons.IH [OF st'(1) this] obtain ys zs where "xs = ys @ zs" "list_all is_space zs"
      "\<forall>ps. quiet_run (st', ps) ys = Some (StEndValue, ps)" by blast
    with st' show ?thesis by (intro exI [of _ "c # ys"] exI [of _ zs]) auto
  next
    assume st: "st = StEndValue"
    have "list_all is_space (c # xs)"
    proof (rule run_top_spaces)
      show "sc_eof (sc_run (StEndTop, []) (c # xs)) = None"
        using Cons.prems(2) st by simp
    qed
    with st show ?thesis by (intro exI [of _ "[]"] exI [of _ "c # xs"]) simp
  next
    fix m assume "fst (sc_step (st, []) c) = (StError m, [])"
    with Cons.prems(2) show ?thesis by (simp add: sc_eof_def)
  qed
qed

text \<open>A JSON text without white space around it stands inside objects that are not too deep.\<close>

definition standalone :: "nat \<Rightarrow> bytes \<Rightarrow> bool" where
  "standalone n v \<longleftrightarrow> json_valid v \<and> jtrim v = v \<and> int (nesting sc_reset v) + int n < max_depth"

lemma standalone_embeds:
  assumes "standalone n v" "length ps \<le> n"
  shows "embeds_in ps v"
proof -
  have v: "json_valid v" "jtrim v = v" using assms(1) by (simp_all add: standalone_def)
  obtain c cs where c: "ltrim v = c # cs" "value_start c" using valid_start [OF v(1)] by blast
  obtain t where "jtrim v = c # t" using jtrim_first [OF c(1) start_not_space [OF c(2)]] by blast
  with v(2) have vc: "v = c # t" by simp
  then have last: "\<not> is_space (last v)" using jtrim_last [OF v(2)] by simp
  consider "c = CHR ''{'' \<or> c = CHR ''[''" | "c = CHR ''-'' \<or> is_digit c"
    | (scalar) "c = CHR 0x22 \<or> c = CHR ''t'' \<or> c = CHR ''f'' \<or> c = CHR ''n''"
    using c(2) by (auto simp: value_start_def)
  then show ?thesis
  proof cases
    case 1
    then have "framed v" using v last vc by (auto simp: framed_def)
    then show ?thesis using embeds_framed [of v ps] assms by (simp add: standalone_def)
  next
    case 2
    then have "valid_number v" using v by (auto simp: valid_number_def vc kind_digit) (simp add: kind_of_def)
    then show ?thesis by (rule embeds_valid_number)
  next
    case scalar
    then obtain st where st: "scalar_state st" "\<forall>ps. sc_step (StBeginValue, ps) c = ((st, ps), ScanBeginLiteral)"
      by (elim disjE) (force simp: begin_value_def is_space_def is_digit_def)+
    have "sc_eof (sc_run (st, []) t) = None"
      using v(1) st(2) by (simp add: json_valid_def check_valid_def sc_reset_def vc)
    from scalar_run [OF st(1) this] obtain ys zs where t: "t = ys @ zs" "list_all is_space zs"
      and run: "\<forall>ps. quiet_run (st, ps) ys = Some (StEndValue, ps)" by blast
    have "zs = []"
      using last t by (cases zs rule: rev_cases) (auto simp: vc list_all_iff)
    then show ?thesis
      using st(2) run t(1) v(2) by (simp add: embeds_in_def ends_value_def vc)
  qed
qed

lemma standalone_checked: "standalone n v \<Longrightarrow> checked v = Inr v"
  by (simp add: standalone_def checked_def json_valid_def)

subsection \<open>Messages\<close>

text \<open>What the receiver of a message holds: raw texts and the identifiers of the wire. A value can be
  sent when the text it is written as stands on its own inside three more objects or arrays (as an
  error's data in a batch does).\<close>

definition text_of :: "go_error + bytes \<Rightarrow> bytes" where
  "text_of r = (case via_marshaler [] r of Inr b \<Rightarrow> b | Inl e \<Rightarrow> [])"

definition sendable :: "go_error + bytes \<Rightarrow> bool" where
  "sendable r \<longleftrightarrow> standalone 2 (text_of r)"

lemma sendable_text:
  assumes "sendable r"
  shows "via_marshaler ty r = Inr (text_of r) \<and> checked (text_of r) = Inr (text_of r)
    \<and> (\<forall>ps. length ps \<le> 2 \<longrightarrow> embeds_in ps (text_of r))"
proof -
  have s: "standalone 2 (text_of r)" using assms by (simp add: sendable_def)
  have "text_of r \<noteq> []"
    using s valid_start [of "text_of r"] by (auto simp: standalone_def ltrim_def)
  then have "via_marshaler ty r = Inr (text_of r)"
    by (auto simp: text_of_def via_marshaler_def split: sum.splits)
  then show ?thesis using standalone_checked [OF s] standalone_embeds [OF s] by blast
qed

definition received_id :: "ID \<Rightarrow> ID" where
  "received_id i = (if id_present i then NewID (wire_idval (id_value i)) else NewNullID)"

definition received_request :: "Request \<Rightarrow> Request" where
  "received_request r = \<lparr>req_jsonrpc = \<lparr>ver_present = True\<rparr>, req_method = req_method r,
     req_params = (if Params_IsZero (req_params r) then zero_params
                   else NewParamsRaw (text_of (Params_MarshalJSON (req_params r)))),
     req_id = (if ID_IsZero (req_id r) then zero_ID else received_id (req_id r))\<rparr>"

definition sendable_request :: "Request \<Rightarrow> bool" where
  "sendable_request r \<longleftrightarrow> valid_utf8 (req_method r) \<and> wf_idval (id_value (req_id r))
     \<and> (Params_IsZero (req_params r) \<or> sendable (Params_MarshalJSON (req_params r))
          \<and> HintType (text_of (Params_MarshalJSON (req_params r))) \<in> {TypeObject, TypeArray})"

lemma null_compact [simp]: "compact ''null'' = Inr ''null''"
  by code_simp

lemma ID_text:
  assumes "wf_idval (id_value i)"
  shows "\<exists>b. via_marshaler ty (ID_MarshalJSON i) = Inr b \<and> (\<forall>ps. embeds_in ps b) \<and>
    ID_UnmarshalJSON zero_ID b = Inr (received_id i)"
proof (cases "id_present i")
  case False
  then show ?thesis
    by (auto simp: ID_MarshalJSON_def embeds_literal received_id_def ID_UnmarshalJSON_def zero_ID_def NewNullID_def
        via_marshaler_def)
next
  case True
  then obtain b where b: "ID_MarshalJSON i = Inr b"
    "b = (case id_value i of IdNil \<Rightarrow> ''null'' | IdInt n \<Rightarrow> show_int n | IdStr s \<Rightarrow> quote s | IdNum n \<Rightarrow> n)"
    using ID_MarshalJSON_wf [OF True assms] by blast
  moreover have "compact b = Inr b \<and> (\<forall>ps. embeds_in ps b)"
    using assms b(2) by (cases "id_value i")
      (simp_all add: embeds_literal embeds_show_int embeds_quote compact_valid_number embeds_valid_number)
  ultimately show ?thesis
    using ID_wire [OF True assms] True by (simp add: received_id_def via_marshaler_def)
qed

lemma field_names_utf8 [simp]:
  "valid_utf8 ''jsonrpc''" "valid_utf8 ''method''" "valid_utf8 ''params''" "valid_utf8 ''id''"
  "valid_utf8 ''result''" "valid_utf8 ''error''" "valid_utf8 ''code''" "valid_utf8 ''message''" "valid_utf8 ''data''"
  by (simp_all add: ascii_quote_body)

lemma version_text [simp]: "via_marshaler ty (Version_MarshalJSON v) = Inr (quote ProtocolVersion)"
  by (simp add: Version_MarshalJSON_eq via_marshaler_def)

lemma Params_wire:
  assumes "checked b = Inr b" "HintType b \<in> {TypeObject, TypeArray}"
  shows "Params_UnmarshalJSON zero_params b = Inr (NewParamsRaw b)"
  using assms
  by (auto simp: Params_UnmarshalJSON_def unmarshal_raw_def NewParamsRaw_def NewParamsArray_def zero_params_def)

lemma Data_wire:
  "checked b = Inr b \<Longrightarrow> Data_UnmarshalJSON zero_data b = Inr (NewResult (GRaw b))"
  by (simp add: Data_UnmarshalJSON_def unmarshal_raw_def NewResult_def zero_data_def)

lemma request_wire:
  assumes "sendable_request r"
  shows "\<exists>b. marshal_request r = Inr b \<and> framed b \<and> array_ready b \<and> HintType b = TypeObject
    \<and> unmarshal_request b = Inr (received_request r)"
proof -
  obtain i where i: "via_marshaler ''jsonrpc2.ID'' (ID_MarshalJSON (req_id r)) = Inr i" "\<And>ps. embeds_in ps i"
    "ID_UnmarshalJSON zero_ID i = Inr (received_id (req_id r))"
    using ID_text [of "req_id r" "''jsonrpc2.ID''"] assms by (auto simp: sendable_request_def)
  define p where "p = text_of (Params_MarshalJSON (req_params r))"
  have p: "via_marshaler ''jsonrpc2.Params'' (Params_MarshalJSON (req_params r)) = Inr p" "\<And>ps. length ps \<le> 2 \<Longrightarrow> embeds_in ps p"
    "Params_UnmarshalJSON zero_params p = Inr (NewParamsRaw p)" if "\<not> Params_IsZero (req_params r)"
    using that assms sendable_text [of "Params_MarshalJSON (req_params r)"] Params_wire [of p]
    by (auto simp: sendable_request_def p_def)
  define kvs where "kvs = [(''jsonrpc'', quote ProtocolVersion), (''method'', quote (req_method r))]
    @ (if Params_IsZero (req_params r) then [] else [(''params'', p)])
    @ (if ID_IsZero (req_id r) then [] else [(''id'', i)])"
  have m: "marshal_request r = Inr (json_object kvs)"
    using i p by (simp add: marshal_request_def marshal_fields_def map_filter_simps Let_def kvs_def)
  have emb: "\<forall>(k, v) \<in> set kvs. embeds v" "\<forall>(k, v) \<in> set kvs. embeds_in [ParseArrayValue] v"
    using i p by (auto simp: kvs_def embeds_quote)
  have ready: "array_ready (json_object kvs)"
    by (rule object_array_ready [OF emb(2)]) (simp add: kvs_def)
  have "set_members request_fields request_setter (map (\<lambda>(k, v). (quote k, v)) kvs) (zero_Request, None) =
      Inr (received_request r, None)"
    using i p assms
    by (cases "Params_IsZero (req_params r)"; cases "ID_IsZero (req_id r)")
       (simp_all add: kvs_def set_members_wire request_fields_def request_setter_def Version_wire set_string_def
          unquote_quote sendable_request_def received_request_def zero_Request_def or_first_def p_def
        del: set_members.simps(2))
  then have "unmarshal_request (json_object kvs) = Inr (received_request r)"
    by (simp add: unmarshal_request_def unmarshal_struct_wire [OF emb(1)])
  then show ?thesis
    using m framed_json_object [OF emb(1)] ready by (intro exI [of _ "json_object kvs"]) simp
qed

definition received_error :: "rpc_error \<Rightarrow> rpc_error" where
  "received_error e = \<lparr>err_present = True, err_code = err_code e, err_message = err_message e,
     err_data = (if Data_IsZero (err_data e) then zero_data
                 else NewErrorData (GRaw (text_of (Data_MarshalJSON (err_data e)))))\<rparr>"

definition sendable_error :: "rpc_error \<Rightarrow> bool" where
  "sendable_error e \<longleftrightarrow> in_int64 (err_code e) \<and> valid_utf8 (err_message e)
     \<and> (Data_IsZero (err_data e) \<or> sendable (Data_MarshalJSON (err_data e)))"

definition received_response :: "Response \<Rightarrow> Response" where
  "received_response r = \<lparr>resp_jsonrpc = \<lparr>ver_present = True\<rparr>,
     resp_result = (if Data_IsZero (resp_result r) then zero_data
                    else NewResult (GRaw (text_of (Data_MarshalJSON (resp_result r))))),
     resp_error = (if Error_IsZero (resp_error r) then zero_error else received_error (resp_error r)),
     resp_id = received_id (resp_id r)\<rparr>"

definition sendable_response :: "Response \<Rightarrow> bool" where
  "sendable_response r \<longleftrightarrow> wf_idval (id_value (resp_id r))
     \<and> (Data_IsZero (resp_result r) \<or> sendable (Data_MarshalJSON (resp_result r)))
     \<and> (Error_IsZero (resp_error r) \<or> sendable_error (resp_error r))"

lemma ErrorData_wire:
  "checked b = Inr b \<Longrightarrow> Data_UnmarshalJSON zero_data b = Inr (NewErrorData (GRaw b))"
  by (simp add: Data_UnmarshalJSON_def unmarshal_raw_def NewErrorData_def zero_data_def)

lemma error_wire:
  assumes "sendable_error e"
  shows "\<exists>b. marshal_error e = Inr b \<and> (\<forall>ps. length ps \<le> 1 \<longrightarrow> embeds_in ps b) \<and> Error_UnmarshalJSON zero_error b = Inr (received_error e)"
proof -
  define d where "d = text_of (Data_MarshalJSON (err_data e))"
  have d: "via_marshaler ''jsonrpc2.Data'' (Data_MarshalJSON (err_data e)) = Inr d" "\<And>ps. length ps \<le> 2 \<Longrightarrow> embeds_in ps d"
    "Data_UnmarshalJSON zero_data d = Inr (NewErrorData (GRaw d))" if "\<not> Data_IsZero (err_data e)"
    using that assms sendable_text [of "Data_MarshalJSON (err_data e)"] ErrorData_wire [of d]
    by (auto simp: sendable_error_def d_def)
  define kvs where "kvs = [(''code'', show_int (err_code e)), (''message'', quote (err_message e))]
    @ (if Data_IsZero (err_data e) then [] else [(''data'', d)])"
  have m: "marshal_error e = Inr (json_object kvs)"
    using d by (simp add: marshal_error_def marshal_fields_def map_filter_simps Let_def kvs_def)
  have emb: "\<forall>(k, v) \<in> set kvs. embeds v"
    using d by (auto simp: kvs_def embeds_quote embeds_show_int)
  have "embeds_in ps (json_object kvs)" if "length ps \<le> 1" for ps
    by (rule embeds_object) (use d that in \<open>auto simp: kvs_def max_depth_def embeds_quote embeds_show_int\<close>)
  moreover
  have "set_members [''data'', ''message'', ''code''] error_tmp_setter (map (\<lambda>(k, v). (quote k, v)) kvs)
      (\<lparr>tmp_data = zero_data, tmp_message = [], tmp_code = 0\<rparr>, None) =
      Inr (\<lparr>tmp_data = err_data (received_error e), tmp_message = err_message e, tmp_code = err_code e\<rparr>, None)"
    using d assms
    by (cases "Data_IsZero (err_data e)")
       (simp_all add: kvs_def set_members_wire error_tmp_setter_def set_string_def set_int64_def parse_show_int
          unquote_quote sendable_error_def received_error_def or_first_def d_def del: set_members.simps(2))
  then have "Error_UnmarshalJSON zero_error (json_object kvs) = Inr (received_error e)"
    by (simp add: Error_UnmarshalJSON_def unmarshal_struct_wire [OF emb] received_error_def)
  ultimately show ?thesis using m by blast
qed

lemma response_wire:
  assumes "sendable_response r"
  shows "\<exists>b. marshal_response r = Inr b \<and> framed b \<and> array_ready b \<and> HintType b = TypeObject
    \<and> unmarshal_response b = Inr (received_response r)
    \<and> set_response_ptr b = Inr (Some (received_response r), None)"
proof -
  obtain i where i: "via_marshaler ''jsonrpc2.ID'' (ID_MarshalJSON (resp_id r)) = Inr i" "\<And>ps. embeds_in ps i"
    "ID_UnmarshalJSON zero_ID i = Inr (received_id (resp_id r))"
    using ID_text [of "resp_id r" "''jsonrpc2.ID''"] assms by (auto simp: sendable_response_def)
  define d where "d = text_of (Data_MarshalJSON (resp_result r))"
  have d: "via_marshaler ''jsonrpc2.Data'' (Data_MarshalJSON (resp_result r)) = Inr d" "\<And>ps. length ps \<le> 2 \<Longrightarrow> embeds_in ps d"
    "Data_UnmarshalJSON zero_data d = Inr (NewResult (GRaw d))" if "\<not> Data_IsZero (resp_result r)"
    using that assms sendable_text [of "Data_MarshalJSON (resp_result r)"] Data_wire [of d]
    by (auto simp: sendable_response_def d_def)
  obtain e where e: "marshal_error (resp_error r) = Inr e \<and> (\<forall>ps. length ps \<le> 1 \<longrightarrow> embeds_in ps e)
      \<and> Error_UnmarshalJSON zero_error e = Inr (received_error (resp_error r))" if "\<not> Error_IsZero (resp_error r)"
    using assms error_wire [of "resp_error r"] by (auto simp: sendable_response_def)
  define kvs where "kvs = [(''jsonrpc'', quote ProtocolVersion)]
    @ (if Data_IsZero (resp_result r) then [] else [(''result'', d)])
    @ (if Error_IsZero (resp_error r) then [] else [(''error'', e)]) @ [(''id'', i)]"
  have m: "marshal_response r = Inr (json_object kvs)"
    using i d e by (simp add: marshal_response_def marshal_fields_def map_filter_simps Let_def kvs_def)
  have emb: "\<forall>(k, v) \<in> set kvs. embeds v" "\<forall>(k, v) \<in> set kvs. embeds_in [ParseArrayValue] v"
    using i d e by (auto simp: kvs_def embeds_quote)
  have ready: "array_ready (json_object kvs)"
    by (rule object_array_ready [OF emb(2)]) (simp add: kvs_def)
  have set: "set_members response_fields response_setter (map (\<lambda>(k, v). (quote k, v)) kvs) (zero_Response, None) =
      Inr (received_response r, None)"
    using i d e assms
    by (cases "Data_IsZero (resp_result r)"; cases "Error_IsZero (resp_error r)")
       (simp_all add: kvs_def set_members_wire response_fields_def response_setter_def Version_wire
          received_response_def zero_Response_def or_first_def d_def del: set_members.simps(2))
  then have "unmarshal_response (json_object kvs) = Inr (received_response r)"
    by (simp add: unmarshal_response_def unmarshal_struct_wire [OF emb(1)])
  moreover have "set_response_ptr (json_object kvs) = Inr (Some (received_response r), None)"
    using set object_run [OF emb(1)] by (simp add: set_response_ptr_def set_struct_def)
  ultimately show ?thesis
    using m framed_json_object [OF emb(1)] ready by (intro exI [of _ "json_object kvs"]) simp
qed

text \<open>The identifier a response carries back is equal to the one of the request.\<close>

lemma received_id_equal:
  assumes "id_present i" "wf_idval (id_value i)"
  shows "ID_Equal i (received_id i)"
  using assms idval_equal_wire [of "id_value i"] by (simp add: ID_Equal_table received_id_def)

lemma received_id_twice: "received_id (received_id i) = received_id i"
  by (cases "id_value i") (auto simp: received_id_def NewID_def NewNullID_def)

lemma received_wf: "wf_idval (id_value i) \<Longrightarrow> wf_idval (id_value (received_id i))"
  by (cases "id_value i") (auto simp: received_id_def NewID_def NewNullID_def)

end
