(* ===== verification/Binder.thy ===== *)
theory Binder
  imports RpcServer
begin

text \<open>
  binder.go, and the keys under which server.go and httphandler.go keep values in a context. A
  \<open>CancelCauseFunc\<close> is the \<open>stop\<close> of a derived context: called with a cause, it changes the state
  that the context's \<^verbatim>\<open>Err()\<close> reads.
\<close>

type_synonym 'w CancelCauseFunc = "go_error option \<Rightarrow> 'w \<Rightarrow> 'w"

text \<open>An implementation of the interface is what its method does; it may configure the server, change
  the state, and call \<open>stop\<close>.\<close>

datatype 'w Binder =
  funcBinder (funcBind: "ctx \<Rightarrow> 'w RPCServer \<Rightarrow> 'w CancelCauseFunc \<Rightarrow> 'w \<Rightarrow> 'w RPCServer \<times> 'w")

definition NewFuncBinder :: "(ctx \<Rightarrow> 'w RPCServer \<Rightarrow> 'w CancelCauseFunc \<Rightarrow> 'w \<Rightarrow> 'w RPCServer \<times> 'w) \<Rightarrow> 'w Binder" where
  "NewFuncBinder f = funcBinder f"

definition Bind :: "'w Binder \<Rightarrow> ctx \<Rightarrow> 'w RPCServer \<Rightarrow> 'w CancelCauseFunc \<Rightarrow> 'w \<Rightarrow> 'w RPCServer \<times> 'w" where
  "Bind fb c rpc stop w = funcBind fb c rpc stop w"

text \<open>The servers bind only when there is a binder.\<close>

definition bind_if :: "'w Binder option \<Rightarrow> ctx \<Rightarrow> 'w RPCServer \<Rightarrow> 'w CancelCauseFunc \<Rightarrow> 'w \<Rightarrow> 'w RPCServer \<times> 'w" where
  "bind_if b c rpc stop w = (case b of Some fb \<Rightarrow> Bind fb c rpc stop w | None \<Rightarrow> (rpc, w))"

lemma bind_if_simps [simp]:
  "bind_if None c rpc stop w = (rpc, w)"
  "bind_if (Some (NewFuncBinder f)) c rpc stop w = f c rpc stop w"
  by (simp_all add: bind_if_def Bind_def NewFuncBinder_def)

subsection \<open>Context keys\<close>

datatype ContextKey = CtxNetConn | CtxNetPacketConn | CtxHTTPRequest | CtxFromAddr | CtxRPCServer

text \<open>Which keys have a value in a context.\<close>

fun ctx_has :: "ctx \<Rightarrow> ContextKey \<Rightarrow> bool" where
  "ctx_has c CtxNetConn = ctx_net_conn c"
| "ctx_has c CtxNetPacketConn = ctx_packet_conn c"
| "ctx_has c CtxHTTPRequest = ctx_http_request c"
| "ctx_has c CtxFromAddr = (ctx_from_addr c \<noteq> None)"
| "ctx_has c CtxRPCServer = ctx_rpc_server c"

text \<open>The handler of a message sees the server, and the keys of the context \<^verbatim>\<open>Run\<close> was given.\<close>

lemma internal_ctx_has:
  "ctx_has (internal_ctx cerr b c w) k \<longleftrightarrow> ctx_has c k \<or> k = CtxRPCServer"
  by (cases k) (simp_all add: internal_ctx_def)

end
