(* ===== verification/Http.thy ===== *)
theory Http
  imports StreamSide Transport Wire Binder
begin

text \<open>
  httphandler.go and httpbridge.go: JSON-RPC over HTTP, on both sides.

  The handler runs a stream server on the body of one request, into a buffer; the state is
  the user's state with the decoder, the encoder and the buffer. Its \<^verbatim>\<open>NewDecoder\<close> and
  \<^verbatim>\<open>NewEncoder\<close> are the package's defaults.
\<close>

subsection \<open>The connection of one HTTP request\<close>

record 'u http_conn =
  hc_user :: 'u
  hc_dec :: StreamDecoder
  hc_enc :: StreamEncoder
  hc_buffer :: bytes

definition http_decoder :: "('u http_conn) Decoder" where
  "http_decoder = \<lparr>
     dec_Decode = (\<lambda>c w. case Decoder_Decode (ctx_env c) (hc_dec w) of
         (Inr raw, d) \<Rightarrow> ((raw, None), w\<lparr>hc_dec := d\<rparr>)
       | (Inl e, d) \<Rightarrow> (([], Some e), w\<lparr>hc_dec := d\<rparr>)),
     dec_request = unmarshal_request, dec_raws = unmarshal_raws,
     dec_Close = Some (\<lambda>w. Decoder_Close (Pair None) (hc_dec w) w)\<rparr>"

definition http_encoder :: "('u http_conn) Encoder" where
  "http_encoder = \<lparr>
     enc_Encode = (\<lambda>c v w. case Encoder_Encode (ctx_env c) marshal_outval append_write (hc_enc w) v (hc_buffer w) of
         (e, i, b) \<Rightarrow> (e, w\<lparr>hc_enc := i, hc_buffer := b\<rparr>)),
     enc_Close = Some (\<lambda>w. Encoder_Close (Pair None) (hc_enc w) w)\<rparr>"

text \<open>The user's handler and logger act on the user's state.\<close>

definition lift_handler :: "'u Handler \<Rightarrow> ('u http_conn) Handler" where
  "lift_handler h = FuncHandler (\<lambda>c r w. case Handle h c r (hc_user w) of (out, u) \<Rightarrow> (out, w\<lparr>hc_user := u\<rparr>))"

definition lift_slog :: "'u slog \<Rightarrow> ('u http_conn) slog" where
  "lift_slog slog c m attrs w = w\<lparr>hc_user := slog c m attrs (hc_user w)\<rparr>"

subsection \<open>HTTPHandler\<close>

record 'u HTTPHandler =
  hh_handler :: "'u Handler"
  hh_Binder :: "('u http_conn) Binder option"
  hh_MaxBytes :: int

definition NewHTTPHandler :: "'u Handler \<Rightarrow> 'u HTTPHandler" where
  "NewHTTPHandler h = \<lparr>hh_handler = h, hh_Binder = None, hh_MaxBytes = 0\<rparr>"

record http_request =
  hr_content_type :: bytes
  hr_body :: "read_event list"

record http_reply =
  ht_status :: nat
  ht_content_type :: bytes
  ht_body :: bytes

text \<open>\<^verbatim>\<open>http.MaxBytesReader\<close>: an error in place of the bytes beyond the limit.\<close>

fun max_bytes_reader :: "nat \<Rightarrow> read_event list \<Rightarrow> read_event list" where
  "max_bytes_reader n [] = []"
| "max_bytes_reader n (RFail e # evs) = [RFail e]"
| "max_bytes_reader n (RData d # evs) =
     (if length d \<le> n then RData d # max_bytes_reader (n - length d) evs
      else [RData (take n d), RFail MaxBytesErr])"

definition http_server :: "'u slog \<Rightarrow> 'u HTTPHandler \<Rightarrow> ('u http_conn) RPCServer" where
  "http_server slog h =
     (NewStreamServer (lift_slog slog) http_decoder http_encoder (lift_handler (hh_handler h)))
       \<lparr>NoRoutines := True, SerialBatch := True, WaitOnClose := True\<rparr>"

definition http_body :: "'u HTTPHandler \<Rightarrow> http_request \<Rightarrow> read_event list" where
  "http_body h req = (if 0 < hh_MaxBytes h then max_bytes_reader (nat (hh_MaxBytes h)) (hr_body req)
     else hr_body req)"

definition http_start :: "'u HTTPHandler \<Rightarrow> http_request \<Rightarrow> 'u \<Rightarrow> 'u http_conn" where
  "http_start h req u =
     \<lparr>hc_user = u, hc_dec = NewStreamDecoder ReadCloser (http_body h req),
      hc_enc = NewStreamEncoder PlainWriter, hc_buffer = []\<rparr>"

text \<open>The reply from the error of \<^verbatim>\<open>Run\<close> and the buffer.\<close>

definition http_flush :: "bytes \<Rightarrow> http_reply" where
  "http_flush buffer = (if buffer \<noteq> []
     then \<lparr>ht_status = 200, ht_content_type = ''application/json'', ht_body = buffer\<rparr>
     else \<lparr>ht_status = 204, ht_content_type = ''application/json'', ht_body = []\<rparr>)"

definition http_status :: "nat \<Rightarrow> http_reply" where
  "http_status n = \<lparr>ht_status = n, ht_content_type = ''application/json'', ht_body = []\<rparr>"

definition http_reply_of :: "go_error option \<Rightarrow> bytes \<Rightarrow> http_reply" where
  "http_reply_of err buffer =
     (case err of
        None \<Rightarrow> http_flush buffer
      | Some e \<Rightarrow>
        if errors_is e (Sentinel EOF) then http_flush buffer
        else if is_maxbytes_error e then http_status 413
        else if errors_is e (Sentinel ErrUnexpectedEOF) then
          http_flush (case marshal_response (NewResponseError (RpcErr ErrParseError)) of
              Inr b \<Rightarrow> buffer @ b | Inl _ \<Rightarrow> buffer)
        else http_status 500)"

text \<open>The context of a request: it carries the request.\<close>

definition http_ctx :: ctx where
  "http_ctx = background\<lparr>ctx_http_request := True\<rparr>"

text \<open>\<open>cerr\<close> is \<^verbatim>\<open>Err()\<close> of the context derived from the request's, and \<open>stop\<close> cancels it. \<open>None\<close> would
  be a handler that never answers. Not modelled is a binder that clears \<^verbatim>\<open>NoRoutines\<close>, for which
  \<open>Run_sync\<close> has no value; if it clears \<^verbatim>\<open>SerialBatch\<close> the members of a batch are taken in order, which
  is one of the schedules.\<close>

definition ServeHTTP :: "'u slog \<Rightarrow> 'u HTTPHandler \<Rightarrow> ('u http_conn) CancelCauseFunc
    \<Rightarrow> ('u http_conn \<Rightarrow> go_error option) \<Rightarrow> http_request \<Rightarrow> 'u \<Rightarrow> (http_reply \<times> 'u) option" where
  "ServeHTTP slog h stop cerr req u =
     (if hr_content_type req \<noteq> ''application/json''
      then Some (\<lparr>ht_status = 415, ht_content_type = [], ht_body = []\<rparr>, u)
      else
        (let w0 = http_start h req u;
             c = http_ctx\<lparr>ctx_err := cerr w0\<rparr>;
             (rp, w1) = bind_if (hh_Binder h) c (http_server slog h) stop w0
         in map_option (\<lambda>(err, w). (http_reply_of err (hc_buffer w), hc_user w))
              (Run_sync rp (handle_all rp) cerr c w1)))"

subsection \<open>HTTPBridge\<close>

text \<open>The HTTP client's answer: status code, status text, content type, and the body or the error
  that reading it gave.\<close>

record http_answer =
  ha_code :: int
  ha_status :: bytes
  ha_content_type :: bytes
  ha_body :: bytes
  ha_read_err :: "go_error option"

record HTTPBridge =
  hb_url :: bytes
  hb_respStatus :: bytes
  hb_respBuffer :: bytes
  hb_respCode :: int
  hb_closed :: bool
  hb_respJSON :: bool

definition NewHTTPBridge :: "bytes \<Rightarrow> HTTPBridge" where
  "NewHTTPBridge url = \<lparr>hb_url = url, hb_respStatus = [], hb_respBuffer = [], hb_respCode = 0,
     hb_closed = False, hb_respJSON = False\<rparr>"

definition Bridge_Close :: "HTTPBridge \<Rightarrow> go_error option \<times> HTTPBridge" where
  "Bridge_Close h = (None, h\<lparr>hb_closed := True\<rparr>)"

text \<open>\<open>newReq\<close> is the error of \<^verbatim>\<open>NewRequestWithContext\<close>, \<open>post\<close> the client's \<^verbatim>\<open>Do\<close>.\<close>

definition Bridge_Encode :: "(bytes \<Rightarrow> go_error option) \<Rightarrow> (ctx \<Rightarrow> bytes \<Rightarrow> bytes \<Rightarrow> 'w \<Rightarrow> (go_error + http_answer) \<times> 'w)
    \<Rightarrow> ('v \<Rightarrow> go_error + bytes) \<Rightarrow> HTTPBridge \<Rightarrow> ctx \<Rightarrow> 'v \<Rightarrow> 'w \<Rightarrow> go_error option \<times> HTTPBridge \<times> 'w" where
  "Bridge_Encode newReq post mar h0 c v w =
     (if hb_closed h0 then (Some (Sentinel EOF), h0, w)
      else
        (let h = h0\<lparr>hb_respBuffer := [], hb_respStatus := [], hb_respCode := 0, hb_respJSON := False\<rparr> in
         case mar v of
           Inl err \<Rightarrow> (Some err, h, w)
         | Inr buf \<Rightarrow>
           (case newReq (hb_url h) of
              Some err \<Rightarrow> (Some err, h, w)
            | None \<Rightarrow>
              (case post c (hb_url h) buf w of
                 (Inl err, w') \<Rightarrow> (Some err, h, w')
               | (Inr resp, w') \<Rightarrow>
                 (let h1 = h\<lparr>hb_respCode := ha_code resp, hb_respStatus := ha_status resp\<rparr> in
                  if ha_content_type resp = ''application/json'' then
                    (let h2 = h1\<lparr>hb_respJSON := True, hb_respBuffer := ha_body resp\<rparr> in
                     case ha_read_err resp of
                       Some e \<Rightarrow> if \<not> errors_is e (Sentinel EOF)
                         then (Some (Wrapf [Txt ''http: failed to read response body: '', Wrap e]), h2, w')
                         else (None, h2, w')
                     | None \<Rightarrow> (None, h2, w'))
                  else (None, h1, w'))))))"

definition status_error :: "sentinel \<Rightarrow> HTTPBridge \<Rightarrow> go_error" where
  "status_error s h = Wrapf [Wrap (Sentinel s), Txt ('' (status: '' @ hb_respStatus h @ '')'')]"

definition Bridge_Decode :: "HTTPBridge \<Rightarrow> ctx \<Rightarrow> go_error + bytes" where
  "Bridge_Decode h c =
     (case ctx_err c of
        Some err \<Rightarrow> Inl err
      | None \<Rightarrow>
        if hb_closed h then Inl (Sentinel EOF)
        else if hb_respJSON h then
          (if hb_respBuffer h \<noteq> [] then unmarshal_raw (hb_respBuffer h)
           else Inl (status_error ErrHTTPEmptyResponse h))
        else if 200 \<le> hb_respCode h \<and> hb_respCode h < 300 then Inl (status_error ErrHTTPNotJSON h)
        else Inl (status_error ErrHTTPResponse h))"

subsection \<open>The server of one request\<close>

lemma http_server_simps [simp]:
  "pd_shim (rp_decoder (http_server slog h))"
  "pd_request (rp_decoder (http_server slog h)) = unmarshal_request"
  "pd_raws (rp_decoder (http_server slog h)) = unmarshal_raws"
  "rp_Handler (http_server slog h) = lift_handler (hh_handler h)"
  "SerialBatch (http_server slog h)" "NoRoutines (http_server slog h)"
  "OnExit (rp_Callbacks (http_server slog h)) = None"
  "OnDecodingError (rp_Callbacks (http_server slog h)) = None"
  "OnEncodingError (rp_Callbacks (http_server slog h)) = None"
  "OnHandlerPanic (rp_Callbacks (http_server slog h)) = Some (DefaultOnHandlerPanic (lift_slog slog))"
  by (simp_all add: http_server_def NewStreamServer_def newRPCServer_def decoderShim_def http_decoder_def)

lemma http_DecodeFrom:
  "pd_DecodeFrom (rp_decoder (http_server slog h)) c w =
     (case Decoder_Decode (ctx_env c) (hc_dec w) of
        (Inr raw, d) \<Rightarrow> ((None, raw, None), w\<lparr>hc_dec := d\<rparr>)
      | (Inl e, d) \<Rightarrow> ((None, [], Some e), w\<lparr>hc_dec := d\<rparr>))"
  by (auto simp: http_server_def NewStreamServer_def newRPCServer_def decoderShim_def http_decoder_def
      split: prod.splits sum.splits)

lemma http_EncodeTo:
  "pe_EncodeTo (rp_encoder (http_server slog h)) c v from w =
     (case Encoder_Encode (ctx_env c) marshal_outval append_write (hc_enc w) v (hc_buffer w) of
        (e, i, b) \<Rightarrow> (e, w\<lparr>hc_enc := i, hc_buffer := b\<rparr>))"
  by (simp add: http_server_def NewStreamServer_def newRPCServer_def encoderShim_def http_encoder_def)

lemma http_Close [simp]: "RPCServer_Close (http_server slog h) w = (None, w)"
  by (simp add: RPCServer_Close_def http_server_def NewStreamServer_def newRPCServer_def
      decoderShim_def encoderShim_def http_decoder_def http_encoder_def close_if_def
      Decoder_Close_def Encoder_Close_def errors_join_def)

lemma http_callbacks [simp]:
  "runOnDecodingError (rp_Callbacks (http_server slog h)) c m e w = w"
  "runOnEncodingError (rp_Callbacks (http_server slog h)) c v e w = w"
  "runOnExit (rp_Callbacks (http_server slog h)) c x w = w"
  by (simp_all add: runOnDecodingError_def runOnEncodingError_def runOnExit_def)

text \<open>It is a server on a stream, the buffer being what it sends.\<close>

interpretation http_side: stream_side "http_server slog h" "hh_handler h" hc_dec "\<lambda>d w. w\<lparr>hc_dec := d\<rparr>" hc_enc
    hc_buffer "\<lambda>b w. w\<lparr>hc_buffer := b\<rparr>" hc_user "\<lambda>u w. w\<lparr>hc_user := u\<rparr>"
  for slog :: "'u slog" and h :: "'u HTTPHandler"
proof unfold_locales
  fix w :: "'u http_conn" and v b c src
  assume "se_err (hc_enc w) = None" "marshal_outval v = Inr b"
  then show "pe_EncodeTo (rp_encoder (http_server slog h)) c v src w =
      (None, w\<lparr>hc_buffer := hc_buffer w @ b @ [CHR 0x0A]\<rparr>)"
    using Encode_append [of "hc_enc w" "ctx_env c" marshal_outval v "hc_buffer w"]
    by (auto simp: http_EncodeTo written_def)
qed (simp_all add: http_DecodeFrom lift_handler_def)

text \<open>Processing a message does not touch the decoder.\<close>

lemma http_encode_dec [simp]:
  "hc_dec (snd (pe_EncodeTo (rp_encoder (http_server slog h)) c v from w)) = hc_dec w"
  by (simp add: http_EncodeTo split: prod.split)

lemma http_report_dec [simp]: "hc_dec (encode_or_report (http_server slog h) c v from w) = hc_dec w"
  using http_encode_dec [of slog h c v "from" w]
  by (auto simp: encode_or_report_def simp del: http_encode_dec split: prod.splits option.splits)

lemma http_handle_dec: "hc_dec (snd (handleRequest (http_server slog h) c jr w)) = hc_dec w"
proof (cases "unmarshal_request jr")
  case (Inr req)
  obtain out u where "Handle (hh_handler h) c req (hc_user w) = (out, u)" by fastforce
  then show ?thesis
    using Inr by (cases out)
      (simp_all add: handleRequest_def lift_handler_def runOnHandlerPanic_def DefaultOnHandlerPanic_def
        lift_slog_def)
qed (simp add: handleRequest_def)

lemma http_handle_all_dec: "hc_dec (snd (handle_all (http_server slog h) c objs w)) = hc_dec w"
proof (induction objs arbitrary: w)
  case (Cons jr objs)
  then show ?case
    using http_handle_dec [of slog h c jr w] by (simp add: Let_def split_beta)
qed simp

lemma http_run_dec:
  "hc_dec (run (http_server slog h) (handle_all (http_server slog h)) c buf from w) = hc_dec w"
proof -
  have one: "hc_dec (runRequest (http_server slog h) cx buf a w) = hc_dec w" for cx a
    using http_handle_dec [of slog h cx buf w]
    by (auto simp: runRequest_def split: prod.splits option.splits)
  have many: "hc_dec (runRequests (http_server slog h) g cx buf a w) = hc_dec w" for g cx a
    using http_handle_all_dec [of slog h cx _ w]
    by (auto simp: runRequests_def Let_def split_beta split: sum.split)
  show ?thesis
    by (simp add: run_def Let_def one many split: TypeHint.split)
qed

subsection \<open>The handler always answers\<close>

text \<open>A reader or a context whose errors are not the library's type errors, which the server would
  take for a malformed message and go on reading.\<close>

definition not_type_error :: "go_error \<Rightarrow> bool" where
  "not_type_error e \<longleftrightarrow> \<not> is_type_error e"

lemma own_not_type [simp]: "own_error e \<Longrightarrow> \<not> is_type_error e"
  by (auto simp: own_error_def)

lemma http_Decode_error:
  assumes "Decoder_Decode (ctx_env c) d = (Inl e, d')" "decoder_sat not_type_error d"
    and "\<And>x. ctx_err c = Some x \<Longrightarrow> \<not> is_type_error x"
  shows "\<not> is_type_error e"
  using Decode_fails [OF assms(1,2)] assms(3)
  by (auto simp: not_type_error_def split: option.splits)

lemma http_loop_lowers:
  assumes "\<And>w e. cerr w = Some e \<Longrightarrow> \<not> is_type_error e"
  shows "loop_lowers (http_server slog h) (handle_all (http_server slog h)) cerr c
    (\<lambda>w. decoder_sat not_type_error (hc_dec w)) (\<lambda>w. decoder_weight (hc_dec w))"
  unfolding loop_lowers_def
proof (intro allI impI)
  fix w :: "'a http_conn"
  assume ok: "decoder_sat not_type_error (hc_dec w)"
  let ?c = "internal_ctx cerr False c w"
  obtain r d where dec: "Decoder_Decode (ctx_env ?c) (hc_dec w) = (r, d)" by fastforce
  show "case read_message (http_server slog h) ?c w of
      NExit e w' \<Rightarrow> True
    | NSkip w' \<Rightarrow> decoder_sat not_type_error (hc_dec w') \<and> decoder_weight (hc_dec w') < decoder_weight (hc_dec w)
    | NMessage buf from w' \<Rightarrow> let w2 = run (http_server slog h) (handle_all (http_server slog h))
          (internal_ctx cerr False c w') buf from w'
        in decoder_sat not_type_error (hc_dec w2) \<and> decoder_weight (hc_dec w2) < decoder_weight (hc_dec w)"
  proof (cases r)
    case (Inl e)
    have "\<not> is_type_error e"
      using http_Decode_error [of ?c "hc_dec w" e d] dec Inl ok assms by simp
    then show ?thesis
      by (simp add: read_message_def http_DecodeFrom dec Inl Let_def)
  next
    case (Inr v)
    have "decoder_sat not_type_error d" "decoder_weight d < decoder_weight (hc_dec w)"
      using Decode_fails [OF dec ok] Decode_lowers [of "ctx_env ?c" "hc_dec w" v d] dec Inr by simp_all
    then show ?thesis
      by (simp add: read_message_def http_DecodeFrom dec Inr http_run_dec Let_def)
  qed
qed

lemma max_bytes_fails:
  "fails_sat P evs \<Longrightarrow> P MaxBytesErr \<Longrightarrow> fails_sat P (max_bytes_reader n evs)"
  by (induction n evs rule: max_bytes_reader.induct) (auto simp: fails_sat_def)

lemma http_start_sat:
  assumes "fails_sat not_type_error (hr_body req)"
  shows "decoder_sat not_type_error (hc_dec (http_start h req u))"
  using assms max_bytes_fails [OF assms]
  by (simp add: decoder_sat_def http_start_def NewStreamDecoder_def NewJSONDecoder_def http_body_def
      not_type_error_def)

lemma http_loop_returns:
  assumes "fails_sat not_type_error (hr_body req)" "\<And>w e. cerr w = Some e \<Longrightarrow> \<not> is_type_error e"
  shows "\<exists>e w. run_loop (http_server slog h) (handle_all (http_server slog h)) cerr c
    (http_start h req u) = Some (e, w)"
  by (rule run_loop_returns [OF http_loop_lowers http_start_sat]) (use assms in auto)

subsection \<open>The reply\<close>

text \<open>A body that is not limited, comes as data, and is read under a context that stays alive.\<close>

definition plain_request :: "'u HTTPHandler \<Rightarrow> ('u http_conn \<Rightarrow> go_error option) \<Rightarrow> http_request \<Rightarrow> bool" where
  "plain_request h cerr req \<longleftrightarrow> hr_content_type req = ''application/json'' \<and> hh_Binder h = None
     \<and> hh_MaxBytes h \<le> 0 \<and> only_data (hr_body req) \<and> (\<forall>w. cerr w = None)"

lemma http_start_healthy:
  assumes "plain_request h cerr req"
  shows "healthy (hc_dec (http_start h req u))"
    "sd_pending (hc_dec (http_start h req u)) = data_of (hr_body req)"
    "sd_kind (hc_dec (http_start h req u)) = ReadCloser"
  using assms
  by (simp_all add: plain_request_def healthy_def http_start_def NewStreamDecoder_def NewJSONDecoder_def
      http_body_def sd_pending_def)

lemma ServeHTTP_run:
  assumes "plain_request h cerr req"
    and "run_loop (http_server slog h) (handle_all (http_server slog h)) cerr http_ctx (http_start h req u) = Some (e, w)"
  shows "ServeHTTP slog h stop cerr req u = Some (http_reply_of (Some (Joined [e])) (hc_buffer w), hc_user w)"
proof -
  have "(http_ctx\<lparr>ctx_err := None\<rparr>) = http_ctx" by (simp add: http_ctx_def background_def)
  with assms show ?thesis
    by (simp add: ServeHTTP_def plain_request_def Run_sync_def finish_def errors_join_def Let_def)
qed

lemma read_message_fatal:
  assumes "healthy (hc_dec w)" "sd_kind (hc_dec w) = ReadCloser" "next_value (sd_pending (hc_dec w)) = Inl e"
    and "\<forall>w. cerr w = None" "\<not> is_syntax_error e" "\<not> is_type_error e"
  shows "\<exists>d. read_message (http_server slog h) (internal_ctx cerr False c w) w = NExit (Joined [e]) (w\<lparr>hc_dec := d\<rparr>)"
  using http_side.read_fatal [OF assms(1,3), of "internal_ctx cerr False c w" slog h] assms by simp

lemma read_message_syntax:
  assumes "healthy (hc_dec w)" "sd_kind (hc_dec w) = ReadCloser" "next_value (sd_pending (hc_dec w)) = Inl (SyntaxErr m)"
    and "\<forall>w. cerr w = None"
  shows "\<exists>w'. read_message (http_server slog h) (internal_ctx cerr False c w) w = NExit (Joined [SyntaxErr m]) w'
    \<and> hc_user w' = hc_user w"
  using http_side.read_fails [OF assms(1,3), of "internal_ctx cerr False c w" slog h] assms
  by (auto simp: read_message_def http_EncodeTo Let_def simp del: http_side.reads split: prod.split)

lemma malformed_body:
  assumes "plain_request h cerr req" "next_value (data_of (hr_body req)) = Inl (SyntaxErr m)"
  shows "ServeHTTP slog h stop cerr req u = Some (http_status 500, u)"
proof -
  note start = http_start_healthy [OF assms(1), of u]
  have "\<forall>w. cerr w = None" using assms(1) by (simp add: plain_request_def)
  from read_message_syntax [OF start(1,3) _ this, where m = m and slog = slog and h = h and c = http_ctx] start(2) assms(2)
  obtain w' where "read_message (http_server slog h) (internal_ctx cerr False http_ctx (http_start h req u))
      (http_start h req u) = NExit (Joined [SyntaxErr m]) w'" "hc_user w' = hc_user (http_start h req u)"
    by auto
  then show ?thesis
    using ServeHTTP_run [OF assms(1) run_loop_exit]
    by (simp add: http_reply_of_def is_maxbytes_error_def) (simp add: http_start_def)
qed

lemma ended_body:
  assumes "plain_request h cerr req" "next_value (data_of (hr_body req)) = Inl (Sentinel s)"
  shows "ServeHTTP slog h stop cerr req u = Some (http_reply_of (Some (Joined [Joined [Sentinel s]])) [], u)"
proof -
  note start = http_start_healthy [OF assms(1), of u]
  have "\<forall>w. cerr w = None" using assms(1) by (simp add: plain_request_def)
  from read_message_fatal [OF start(1,3) _ this, where e = "Sentinel s" and slog = slog and h = h and c = http_ctx] start(2) assms(2)
  obtain d where "read_message (http_server slog h) (internal_ctx cerr False http_ctx (http_start h req u))
      (http_start h req u) = NExit (Joined [Sentinel s]) (http_start h req u\<lparr>hc_dec := d\<rparr>)"
    by auto
  then show ?thesis
    using ServeHTTP_run [OF assms(1) run_loop_exit] by simp (simp add: http_start_def)
qed

subsection \<open>A request and its response\<close>

text \<open>The first message of the body, and the end of the body after it.\<close>

lemma http_read_message:
  assumes "healthy (hc_dec w)" "sd_kind (hc_dec w) = ReadCloser" "framed v" "sd_pending (hc_dec w) = v @ rest"
    and "\<forall>w. cerr w = None"
  shows "\<exists>d. read_message (http_server slog h) (internal_ctx cerr False c w) w = NMessage v None (w\<lparr>hc_dec := d\<rparr>)
    \<and> healthy d \<and> sd_kind d = ReadCloser \<and> sd_pending d = rest"
  using http_side.reads_message [of w v "[]" rest] assms by simp

lemma http_encode:
  assumes "se_err (hc_enc w) = None" "marshal_outval v = Inr b"
  shows "encode_or_report (http_server slog h) c v from w = w\<lparr>hc_buffer := hc_buffer w @ b @ [CHR 0x0A]\<rparr>"
  using http_side.reports [OF assms] by simp

text \<open>A body that is one message: the reply is what processing the message left in the buffer.\<close>

lemma one_message:
  assumes "plain_request h cerr req" "data_of (hr_body req) = v @ sp" "framed v" "list_all is_space sp"
    and "\<And>d. run (http_server slog h) (handle_all (http_server slog h)) (http_ctx\<lparr>ctx_rpc_server := True\<rparr>) v None
      (http_start h req u\<lparr>hc_dec := d\<rparr>) = http_start h req u\<lparr>hc_dec := d, hc_user := u', hc_buffer := buf\<rparr>"
  shows "ServeHTTP slog h stop cerr req u = Some (http_flush buf, u')"
proof -
  let ?w = "http_start h req u" and ?rp = "http_server slog h"
  note start = http_start_healthy [OF assms(1), of u]
  have cerr: "\<forall>w. cerr w = None" using assms(1) by (simp add: plain_request_def)
  obtain d where d: "read_message ?rp (internal_ctx cerr False http_ctx ?w) ?w = NMessage v None (?w\<lparr>hc_dec := d\<rparr>)"
    "healthy d" "sd_kind d = ReadCloser" "sd_pending d = sp"
    using http_read_message [OF start(1,3) assms(3) _ cerr, where rest = sp and slog = slog and h = h and c = http_ctx]
      start(2) assms(2) by auto
  define w2 where "w2 = ?w\<lparr>hc_dec := d, hc_user := u', hc_buffer := buf\<rparr>"
  have "internal_ctx cerr False http_ctx w = http_ctx\<lparr>ctx_rpc_server := True\<rparr>" for w
    using cerr by (simp add: internal_ctx_def http_ctx_def background_def)
  then have run: "run ?rp (handle_all ?rp) (internal_ctx cerr False http_ctx (?w\<lparr>hc_dec := d\<rparr>)) v None (?w\<lparr>hc_dec := d\<rparr>) = w2"
    using assms(5) by (simp add: w2_def)
  have w2: "hc_dec w2 = d" "hc_buffer w2 = buf" "hc_user w2 = u'"
    by (simp_all add: w2_def)
  obtain d' where d': "read_message ?rp (internal_ctx cerr False http_ctx w2) w2 =
      NExit (Joined [Sentinel EOF]) (w2\<lparr>hc_dec := d'\<rparr>)"
    using read_message_fatal [of w2 "Sentinel EOF" cerr slog h http_ctx] d(2-4) w2 cerr
      next_value_spaces [OF assms(4)] by auto
  have "run_loop ?rp (handle_all ?rp) cerr http_ctx ?w = Some (Joined [Sentinel EOF], w2\<lparr>hc_dec := d'\<rparr>)"
    using run_loop_message [OF d(1), of "handle_all ?rp"] run run_loop_exit [OF d'] by simp
  from ServeHTTP_run [OF assms(1) this] w2 show ?thesis
    by (simp add: http_reply_of_def)
qed

lemma start_encoder [simp]:
  "hc_user (http_start h req u) = u" "se_err (hc_enc (http_start h req u)) = None" "hc_buffer (http_start h req u) = []"
  by (simp_all add: http_start_def NewStreamEncoder_def)

lemma single_request:
  assumes "plain_request h cerr req" "data_of (hr_body req) = v @ sp" "framed v" "list_all is_space sp"
    and "HintType v = TypeObject" "unmarshal_request v = Inr q" "\<not> Request_IsNotification q"
    and "Handle (hh_handler h) (http_ctx\<lparr>ctx_rpc_server := True\<rparr>) q u = (out, u')" "plain_outcome out"
    and "marshal_response (reply_of q out) = Inr b"
  shows "ServeHTTP slog h stop cerr req u = Some (http_flush (b @ [CHR 0x0A]), u')"
proof (rule one_message [OF assms(1-4)])
  fix d
  let ?w = "http_start h req u\<lparr>hc_dec := d\<rparr>" and ?c = "http_ctx\<lparr>ctx_rpc_server := True\<rparr>"
  have "handleRequest (http_server slog h) ?c v ?w =
      (Some (OutResponse (Some (reply_of q out))), ?w\<lparr>hc_user := u'\<rparr>)"
    using assms(6-9) by (intro handleRequest_reply) (simp_all add: lift_handler_def)
  moreover have "encode_or_report (http_server slog h) ?c (OutResponse (Some (reply_of q out))) None (?w\<lparr>hc_user := u'\<rparr>) =
      ?w\<lparr>hc_user := u', hc_buffer := b @ [CHR 0x0A]\<rparr>"
    using http_encode [of "?w\<lparr>hc_user := u'\<rparr>" "OutResponse (Some (reply_of q out))" b] assms(10) by simp
  ultimately show "run (http_server slog h) (handle_all (http_server slog h)) ?c v None ?w =
      ?w\<lparr>hc_user := u', hc_buffer := b @ [CHR 0x0A]\<rparr>"
    using assms(5) by (simp add: run_def runRequest_def)
qed

subsection \<open>A batch and its responses\<close>

lemma outcomes_lift:
  "outcomes h c qs (hc_user w) = (outs, u') \<Longrightarrow>
   outcomes (lift_handler h) c qs w = (outs, w\<lparr>hc_user := u'\<rparr>)"
proof (induction qs arbitrary: w outs)
  case (Cons q qs)
  obtain out u1 where out: "Handle h c q (hc_user w) = (out, u1)" by fastforce
  obtain outs' where outs': "outcomes h c qs u1 = (outs', u')" "outs = out # outs'"
    using Cons.prems out by (cases "outcomes h c qs u1") auto
  then show ?case
    using out Cons.IH [of "w\<lparr>hc_user := u1\<rparr>" outs'] by (simp add: lift_handler_def)
qed simp

lemma one_batch:
  assumes "plain_request h cerr req" "data_of (hr_body req) = v @ sp" "framed v" "list_all is_space sp"
    and "HintType v = TypeArray" "unmarshal_raws v = Inr objs" "objs \<noteq> []"
    and "list_all2 (\<lambda>jr q. unmarshal_request jr = Inr q) objs qs"
    and "outcomes (hh_handler h) (http_ctx\<lparr>ctx_rpc_server := True\<rparr>) qs u = (outs, u')" "list_all plain_outcome outs"
    and "mapM marshal_response (replies qs outs) = Inr bs"
  shows "ServeHTTP slog h stop cerr req u =
    Some (http_flush (if bs = [] then [] else json_array bs @ [CHR 0x0A]), u')"
proof (rule one_message [OF assms(1-4)])
  fix d
  let ?w = "http_start h req u\<lparr>hc_dec := d\<rparr>" and ?c = "http_ctx\<lparr>ctx_rpc_server := True\<rparr>"
  let ?rs = "map (\<lambda>r. OutResponse (Some r)) (replies qs outs)"
  have all: "handle_all (http_server slog h) ?c objs ?w = (?rs, ?w\<lparr>hc_user := u'\<rparr>)"
    by (rule handle_all_replies) (use assms outcomes_lift [of "hh_handler h" ?c qs ?w outs u'] in simp_all)
  have nil: "?rs = [] \<longleftrightarrow> bs = []"
    using mapM_length [OF assms(11)] by auto
  have "encode_or_report (http_server slog h) ?c (OutBatch ?rs) None (?w\<lparr>hc_user := u'\<rparr>) =
      ?w\<lparr>hc_user := u', hc_buffer := json_array bs @ [CHR 0x0A]\<rparr>"
    using http_encode [of "?w\<lparr>hc_user := u'\<rparr>" "OutBatch ?rs" "json_array bs"] marshal_replies [OF assms(11)] by simp
  then show "run (http_server slog h) (handle_all (http_server slog h)) ?c v None ?w =
      ?w\<lparr>hc_user := u', hc_buffer := if bs = [] then [] else json_array bs @ [CHR 0x0A]\<rparr>"
    using assms(5-7) all nil by (cases "bs = []") (simp_all add: run_def runRequests_def http_start_def)
qed

subsection \<open>The bridge\<close>

text \<open>What a call over the bridge gets back from an answer that was read without error.\<close>

lemma bridge_exchange:
  assumes "\<not> hb_closed h" "mar v = Inr buf" "newReq (hb_url h) = None"
    and "post c (hb_url h) buf w = (Inr a, w')" "ha_read_err a = None"
  shows "\<exists>h'. Bridge_Encode newReq post mar h c v w = (None, h', w') \<and>
    (ctx_err c2 = None \<longrightarrow> Bridge_Decode h' c2 =
      (if ha_content_type a = ''application/json'' then
         (if ha_body a \<noteq> [] then unmarshal_raw (ha_body a) else Inl (status_error ErrHTTPEmptyResponse h'))
       else if 200 \<le> ha_code a \<and> ha_code a < 300 then Inl (status_error ErrHTTPNotJSON h')
       else Inl (status_error ErrHTTPResponse h')))"
  using assms by (simp add: Bridge_Encode_def Bridge_Decode_def Let_def)

lemma bridge_closed:
  "Bridge_Close h = (e, h') \<Longrightarrow> Bridge_Encode newReq post mar h' c v w = (Some (Sentinel EOF), h', w)
    \<and> (ctx_err c = None \<longrightarrow> Bridge_Decode h' c = Inl (Sentinel EOF))"
  by (auto simp: Bridge_Close_def Bridge_Encode_def Bridge_Decode_def)

end
