(* ===== verification/ClientPool.thy ===== *)
theory ClientPool
  imports Transport
begin

text \<open>
  clientpool.go: a pool of connections with retries. The pool itself is the package puddle,
  which is not part of the repository: its operations are functions the model takes as arguments,
  on the state \<open>'w\<close>. The operations of this file also give the list of the resources they
  acquired, released and destroyed, in order.
\<close>

subsection \<open>Configuration\<close>

definition DefaultPoolDialTimeout :: int where
  "DefaultPoolDialTimeout = 30"

definition DefaultPoolIdleTimeout :: int where
  "DefaultPoolIdleTimeout = 300"

definition Second :: int where
  "Second = 1000000000"

record ClientPoolConfig =
  cfg_URI :: bytes
  cfg_IdleTimeout :: int
  cfg_DialTimeout :: int
  cfg_Retries :: int
  cfg_MaxSize :: int
  cfg_AcquireOnCreate :: bool

text \<open>Machine integers: the value of a signed \<open>w\<close>-bit integer after wrapping.\<close>

definition wrap_signed :: "nat \<Rightarrow> int \<Rightarrow> int" where
  "wrap_signed w x = (x + 2 ^ (w - 1)) mod 2 ^ w - 2 ^ (w - 1)"

definition effective_config :: "int \<Rightarrow> int \<Rightarrow> ClientPoolConfig \<Rightarrow> ClientPoolConfig" where
  "effective_config numCPU maxProcs config =
     (let c1 = (if cfg_IdleTimeout config = 0
                then config\<lparr>cfg_IdleTimeout := DefaultPoolIdleTimeout * Second\<rparr> else config);
          c2 = (if cfg_DialTimeout c1 \<le> 0
                then c1\<lparr>cfg_DialTimeout := DefaultPoolDialTimeout * Second\<rparr> else c1)
      in if cfg_MaxSize c2 \<le> 0
         then c2\<lparr>cfg_MaxSize := wrap_signed 32 (min numCPU maxProcs * 2)\<rparr> else c2)"

definition attempts_of :: "ClientPoolConfig \<Rightarrow> int" where
  "attempts_of config = wrap_signed 64 (max (cfg_Retries config) 1 + 1)"

subsection \<open>The pool of connections\<close>

record 'w Resource =
  res_key :: nat
  res_value :: "'w TransportClient"

record 'w Puddle =
  pu_Acquire :: "ctx \<Rightarrow> 'w \<Rightarrow> (go_error + 'w Resource) \<times> 'w"
  pu_AcquireAllIdle :: "'w \<Rightarrow> 'w Resource list \<times> 'w"
  pu_IdleDuration :: "'w Resource \<Rightarrow> 'w \<Rightarrow> int"
  pu_Release :: "'w Resource \<Rightarrow> 'w \<Rightarrow> 'w"
  pu_ReleaseUnused :: "'w Resource \<Rightarrow> 'w \<Rightarrow> 'w"
  pu_Destroy :: "'w Resource \<Rightarrow> 'w \<Rightarrow> 'w"
  pu_Close :: "'w \<Rightarrow> 'w"
  pu_Reset :: "'w \<Rightarrow> 'w"

datatype pool_event = PAcquired nat | PReleased nat | PUnused nat | PDestroyed nat

record 'w ClientPool =
  cp_pool :: "'w Puddle"
  cp_idle :: "int option"
  cp_retries :: int
  cp_closed :: bool

text \<open>The arguments the pool is built from: the constructor dials with the configured timeout, the
  destructor closes the client and drops its error. \<open>newPool\<close> is puddle's constructor, and
  \<open>cp_idle\<close> the delay the idle timer was set to.\<close>

definition pool_constructor :: "int \<Rightarrow> ClientPoolConfig
    \<Rightarrow> (ctx \<Rightarrow> bytes \<Rightarrow> 'w \<Rightarrow> (go_error + 'w TransportClient) \<times> 'w)
    \<Rightarrow> ctx \<Rightarrow> 'w \<Rightarrow> (go_error + 'w TransportClient) \<times> 'w" where
  "pool_constructor now config dialFunc c w =
     dialFunc (with_timeout now c (cfg_DialTimeout config)) (cfg_URI config) w"

definition pool_destructor :: "'w TransportClient \<Rightarrow> 'w \<Rightarrow> 'w" where
  "pool_destructor client w = snd (Transport_Close client w)"

type_synonym 'w new_pool = "(ctx \<Rightarrow> 'w \<Rightarrow> (go_error + 'w TransportClient) \<times> 'w)
    \<Rightarrow> ('w TransportClient \<Rightarrow> 'w \<Rightarrow> 'w) \<Rightarrow> int \<Rightarrow> go_error + 'w Puddle"

definition NewClientPoolWithDialer :: "int \<Rightarrow> int \<Rightarrow> int \<Rightarrow> 'w new_pool \<Rightarrow> ctx \<Rightarrow> ClientPoolConfig
    \<Rightarrow> (ctx \<Rightarrow> bytes \<Rightarrow> 'w \<Rightarrow> (go_error + 'w TransportClient) \<times> 'w)
    \<Rightarrow> 'w \<Rightarrow> (go_error + 'w ClientPool) \<times> pool_event list \<times> 'w" where
  "NewClientPoolWithDialer now numCPU maxProcs newPool nctx config0 dialFunc w =
     (let config = effective_config numCPU maxProcs config0 in
      case newPool (pool_constructor now config dialFunc) pool_destructor (cfg_MaxSize config) of
        Inl err \<Rightarrow> (Inl err, [], w)
      | Inr pool \<Rightarrow>
        (let cpool = \<lparr>cp_pool = pool,
               cp_idle = (if 0 < cfg_IdleTimeout config then Some (cfg_IdleTimeout config) else None),
               cp_retries = attempts_of config, cp_closed = False\<rparr>
         in if cfg_AcquireOnCreate config then
              (case pu_Acquire pool nctx w of
                 (Inl err, w1) \<Rightarrow> (Inl err, [], pu_Close pool w1)
               | (Inr res, w1) \<Rightarrow>
                   (Inr cpool, [PAcquired (res_key res), PReleased (res_key res)], pu_Release pool res w1))
            else (Inr cpool, [], w)))"

definition NewClientPool :: "int \<Rightarrow> int \<Rightarrow> int \<Rightarrow> 'w new_pool
    \<Rightarrow> (ctx \<Rightarrow> bytes \<Rightarrow> 'w \<Rightarrow> (go_error + 'w TransportClient) \<times> 'w) \<Rightarrow> ctx \<Rightarrow> ClientPoolConfig
    \<Rightarrow> 'w \<Rightarrow> (go_error + 'w ClientPool) \<times> pool_event list \<times> 'w" where
  "NewClientPool now numCPU maxProcs newPool dialTransport nctx config w =
     NewClientPoolWithDialer now numCPU maxProcs newPool nctx config dialTransport w"

text \<open>The idle timer's function: the resources it acquired, the shortest wait found so far.\<close>

fun reap :: "'w Puddle \<Rightarrow> int \<Rightarrow> 'w Resource list \<Rightarrow> int \<Rightarrow> 'w \<Rightarrow> (int \<times> pool_event list) \<times> 'w" where
  "reap P timeout [] nextWait w = ((nextWait, []), w)"
| "reap P timeout (res # rs) nextWait w =
     (let idleTime = pu_IdleDuration P res w in
      if timeout \<le> idleTime then
        (let ((n, evs), w') = reap P timeout rs nextWait (pu_Destroy P res w)
         in ((n, PDestroyed (res_key res) # evs), w'))
      else
        (let ((n, evs), w') = reap P timeout rs (min nextWait (timeout - idleTime)) (pu_ReleaseUnused P res w)
         in ((n, PUnused (res_key res) # evs), w')))"

definition idle_tick :: "'w ClientPool \<Rightarrow> int \<Rightarrow> 'w \<Rightarrow> ('w ClientPool \<times> pool_event list) \<times> 'w" where
  "idle_tick cp timeout w =
     (if cp_closed cp then ((cp, []), w)
      else (let (rs, w1) = pu_AcquireAllIdle (cp_pool cp) w;
                ((nextWait, evs), w2) = reap (cp_pool cp) timeout rs timeout w1
            in ((cp\<lparr>cp_idle := Some nextWait\<rparr>, map (\<lambda>r. PAcquired (res_key r)) rs @ evs), w2)))"

definition Pool_Close :: "'w ClientPool \<Rightarrow> 'w \<Rightarrow> 'w ClientPool \<times> 'w" where
  "Pool_Close cp w =
     (if cp_closed cp then (cp, w)
      else (cp\<lparr>cp_closed := True, cp_idle := None\<rparr>, pu_Close (cp_pool cp) w))"

definition Pool_Reset :: "'w ClientPool \<Rightarrow> 'w \<Rightarrow> 'w" where
  "Pool_Reset cp w = pu_Reset (cp_pool cp) w"

subsection \<open>Attempts\<close>

definition retryable :: "go_error \<Rightarrow> bool" where
  "retryable err \<longleftrightarrow>
     \<not> (errors_is err (Sentinel Canceled) \<or> errors_is err (Sentinel DeadlineExceeded))
     \<and> (errors_is err (Sentinel EOF) \<or> errors_is err (Sentinel ErrUnexpectedEOF)
        \<or> errors_is err (Sentinel NetErrClosed) \<or> errors_is err (Sentinel OSErrClosed))"

definition releaseMaybeRetry ::
  "'w Puddle \<Rightarrow> 'w Resource \<Rightarrow> go_error option \<Rightarrow> 'w \<Rightarrow> (bool \<times> pool_event) \<times> 'w" where
  "releaseMaybeRetry P res err w =
     (case err of
        Some e \<Rightarrow>
          ((if errors_is e (Sentinel Canceled) \<or> errors_is e (Sentinel DeadlineExceeded) then False
            else if errors_is e (Sentinel EOF) \<or> errors_is e (Sentinel ErrUnexpectedEOF)
              \<or> errors_is e (Sentinel NetErrClosed) \<or> errors_is e (Sentinel OSErrClosed) then True
            else False,
            PDestroyed (res_key res)), pu_Destroy P res w)
      | None \<Rightarrow> ((False, PReleased (res_key res)), pu_Release P res w))"

text \<open>The loop the six operations share; \<open>f\<close> is the operation on an acquired client, \<open>err\<close> the
  error of the last attempt, and \<open>cerr\<close> the method \<^verbatim>\<open>Err()\<close> of the context.\<close>

fun err_of :: "go_error + 'r \<Rightarrow> go_error option" where
  "err_of (Inl e) = Some e"
| "err_of (Inr r) = None"

fun attempts :: "'w Puddle \<Rightarrow> ('w \<Rightarrow> go_error option) \<Rightarrow> ctx
    \<Rightarrow> ('w TransportClient \<Rightarrow> ctx \<Rightarrow> 'w \<Rightarrow> (go_error + 'r) \<times> 'w)
    \<Rightarrow> nat \<Rightarrow> go_error option \<Rightarrow> 'w \<Rightarrow> ((go_error + 'r) \<times> pool_event list) \<times> 'w" where
  "attempts P cerr c f 0 err w =
     ((Inl (Joined (Sentinel ErrRetriesExceeded # (case err of Some e \<Rightarrow> [e] | None \<Rightarrow> []))), []), w)"
| "attempts P cerr c f (Suc n) err w =
     (case cerr w of
        Some e \<Rightarrow> ((Inl e, []), w)
      | None \<Rightarrow>
        (case pu_Acquire P c w of
           (Inl e, w1) \<Rightarrow> ((Inl e, []), w1)
         | (Inr res, w1) \<Rightarrow>
           (let (r, w2) = f (res_value res) (c\<lparr>ctx_err := cerr w1\<rparr>) w1;
                ((needsRetry, ev), w3) = releaseMaybeRetry P res (err_of r) w2
            in if needsRetry then
                 (let ((r', evs), w4) = attempts P cerr c f n (err_of r) w3
                  in ((r', PAcquired (res_key res) # ev # evs), w4))
               else ((r, [PAcquired (res_key res), ev]), w3))))"

definition pool_do :: "'w ClientPool \<Rightarrow> ('w \<Rightarrow> go_error option) \<Rightarrow> ctx
    \<Rightarrow> ('w TransportClient \<Rightarrow> ctx \<Rightarrow> 'w \<Rightarrow> (go_error + 'r) \<times> 'w)
    \<Rightarrow> 'w \<Rightarrow> ((go_error + 'r) \<times> pool_event list) \<times> 'w" where
  "pool_do cp cerr c f w = attempts (cp_pool cp) cerr c f (nat (cp_retries cp)) None w"

subsection \<open>The operations\<close>

text \<open>Each returns its result with the events, and the new state. \<open>now\<close> is the clock.\<close>

type_synonym 'r pool_result = "(go_error + 'r) \<times> pool_event list"

definition Pool_Call :: "'w ClientPool \<Rightarrow> ('w \<Rightarrow> go_error option) \<Rightarrow> ctx \<Rightarrow> Request \<Rightarrow> 'w
    \<Rightarrow> Response pool_result \<times> 'w" where
  "Pool_Call cp cerr c req w = pool_do cp cerr c (\<lambda>t c w. Transport_Call t c req w) w"

definition Pool_CallBatch :: "'w ClientPool \<Rightarrow> ('w \<Rightarrow> go_error option) \<Rightarrow> ctx \<Rightarrow> Request Batch \<Rightarrow> 'w
    \<Rightarrow> Response Batch pool_result \<times> 'w" where
  "Pool_CallBatch cp cerr c req w = pool_do cp cerr c (\<lambda>t c w. Transport_CallBatch t c req w) w"

definition Pool_CallRaw :: "'w ClientPool \<Rightarrow> ('w \<Rightarrow> go_error option) \<Rightarrow> ctx \<Rightarrow> RawRequest \<Rightarrow> 'w
    \<Rightarrow> Response pool_result \<times> 'w" where
  "Pool_CallRaw cp cerr c req w = pool_do cp cerr c (\<lambda>t c w. Transport_CallRaw t c req w) w"

definition error_result :: "go_error option \<times> 'w \<Rightarrow> (go_error + unit) \<times> 'w" where
  "error_result r = (case fst r of Some e \<Rightarrow> Inl e | None \<Rightarrow> Inr (), snd r)"

definition Pool_Notify :: "'w ClientPool \<Rightarrow> ('w \<Rightarrow> go_error option) \<Rightarrow> ctx \<Rightarrow> Notification \<Rightarrow> 'w
    \<Rightarrow> unit pool_result \<times> 'w" where
  "Pool_Notify cp cerr c n w = pool_do cp cerr c (\<lambda>t c w. error_result (Transport_Notify t c n w)) w"

definition Pool_NotifyBatch :: "'w ClientPool \<Rightarrow> ('w \<Rightarrow> go_error option) \<Rightarrow> ctx \<Rightarrow> Notification Batch \<Rightarrow> 'w
    \<Rightarrow> unit pool_result \<times> 'w" where
  "Pool_NotifyBatch cp cerr c n w =
     pool_do cp cerr c (\<lambda>t c w. error_result (Transport_NotifyBatch t c n w)) w"

definition Pool_NotifyRaw :: "'w ClientPool \<Rightarrow> ('w \<Rightarrow> go_error option) \<Rightarrow> ctx \<Rightarrow> RawNotification \<Rightarrow> 'w
    \<Rightarrow> unit pool_result \<times> 'w" where
  "Pool_NotifyRaw cp cerr c n w = pool_do cp cerr c (\<lambda>t c w. error_result (Transport_NotifyRaw t c n w)) w"

text \<open>\<open>tcerr now c d\<close> is \<^verbatim>\<open>Err()\<close> of the context derived with the timeout.\<close>

type_synonym 'w timed_err = "int \<Rightarrow> ctx \<Rightarrow> int \<Rightarrow> 'w \<Rightarrow> go_error option"

definition Pool_CallWithTimeout :: "'w ClientPool \<Rightarrow> 'w timed_err \<Rightarrow> int \<Rightarrow> ctx \<Rightarrow> int \<Rightarrow> Request \<Rightarrow> 'w
    \<Rightarrow> Response pool_result \<times> 'w" where
  "Pool_CallWithTimeout cp tcerr now c d r w =
     Pool_Call cp (tcerr now c d) (with_timeout now c d) r w"

definition Pool_CallBatchWithTimeout :: "'w ClientPool \<Rightarrow> 'w timed_err \<Rightarrow> int \<Rightarrow> ctx \<Rightarrow> int \<Rightarrow> Request Batch \<Rightarrow> 'w
    \<Rightarrow> Response Batch pool_result \<times> 'w" where
  "Pool_CallBatchWithTimeout cp tcerr now c d r w =
     Pool_CallBatch cp (tcerr now c d) (with_timeout now c d) r w"

definition Pool_CallRawWithTimeout :: "'w ClientPool \<Rightarrow> 'w timed_err \<Rightarrow> int \<Rightarrow> ctx \<Rightarrow> int \<Rightarrow> RawRequest \<Rightarrow> 'w
    \<Rightarrow> Response pool_result \<times> 'w" where
  "Pool_CallRawWithTimeout cp tcerr now c d r w =
     Pool_CallRaw cp (tcerr now c d) (with_timeout now c d) r w"

definition Pool_NotifyWithTimeout :: "'w ClientPool \<Rightarrow> 'w timed_err \<Rightarrow> int \<Rightarrow> ctx \<Rightarrow> int \<Rightarrow> Notification \<Rightarrow> 'w
    \<Rightarrow> unit pool_result \<times> 'w" where
  "Pool_NotifyWithTimeout cp tcerr now c d n w =
     Pool_Notify cp (tcerr now c d) (with_timeout now c d) n w"

definition Pool_NotifyBatchWithTimeout :: "'w ClientPool \<Rightarrow> 'w timed_err \<Rightarrow> int \<Rightarrow> ctx \<Rightarrow> int
    \<Rightarrow> Notification Batch \<Rightarrow> 'w \<Rightarrow> unit pool_result \<times> 'w" where
  "Pool_NotifyBatchWithTimeout cp tcerr now c d n w =
     Pool_NotifyBatch cp (tcerr now c d) (with_timeout now c d) n w"

definition Pool_NotifyRawWithTimeout :: "'w ClientPool \<Rightarrow> 'w timed_err \<Rightarrow> int \<Rightarrow> ctx \<Rightarrow> int \<Rightarrow> RawNotification \<Rightarrow> 'w
    \<Rightarrow> unit pool_result \<times> 'w" where
  "Pool_NotifyRawWithTimeout cp tcerr now c d n w =
     Pool_NotifyRaw cp (tcerr now c d) (with_timeout now c d) n w"

subsection \<open>Every acquired resource is given back\<close>

text \<open>The shape of an operation's events: each acquisition is followed by the destruction or the
  release of the same resource, and a release ends the operation.\<close>

fun settled :: "pool_event list \<Rightarrow> bool" where
  "settled [] = True"
| "settled [PAcquired k, PReleased j] = (j = k)"
| "settled (PAcquired k # PDestroyed j # evs) = (j = k \<and> settled evs)"
| "settled evs = False"

fun acquisitions :: "pool_event list \<Rightarrow> nat" where
  "acquisitions [] = 0"
| "acquisitions (PAcquired k # evs) = Suc (acquisitions evs)"
| "acquisitions (ev # evs) = acquisitions evs"

lemma releaseMaybeRetry_simps [simp]:
  "releaseMaybeRetry P res (Some e) w = ((retryable e, PDestroyed (res_key res)), pu_Destroy P res w)"
  "releaseMaybeRetry P res None w = ((False, PReleased (res_key res)), pu_Release P res w)"
  by (simp_all add: releaseMaybeRetry_def retryable_def)

lemma attempts_settled:
  "attempts P cerr c f n err w = ((r, evs), w') \<Longrightarrow> settled evs \<and> acquisitions evs \<le> n"
proof (induction n arbitrary: err w r evs w')
  case (Suc n)
  show ?case
  proof (cases "cerr w")
    case None
    obtain a w1 where a: "pu_Acquire P c w = (a, w1)" by fastforce
    show ?thesis
    proof (cases a)
      case (Inr res)
      obtain r1 w2 where f: "f (res_value res) (c\<lparr>ctx_err := cerr w1\<rparr>) w1 = (r1, w2)" by fastforce
      show ?thesis
      proof (cases r1)
        case (Inl e)
        obtain r2 evs2 w3 where rec: "attempts P cerr c f n (Some e) (pu_Destroy P res w2) = ((r2, evs2), w3)"
          by (metis surj_pair)
        then show ?thesis
          using Suc.prems Suc.IH [OF rec] None a Inr f Inl by (auto split: if_splits)
      qed (use Suc.prems None a Inr f in auto)
    qed (use Suc.prems None a in auto)
  qed (use Suc.prems in auto)
qed auto

subsection \<open>When an operation is tried again\<close>

text \<open>One attempt: the outcome and the state after the resource is given back, if a resource was
  acquired.\<close>

lemma attempts_Suc:
  assumes "cerr w = None" "pu_Acquire P c w = (Inr res, w1)"
    and "f (res_value res) (c\<lparr>ctx_err := cerr w1\<rparr>) w1 = (r, w2)"
  shows "attempts P cerr c f (Suc n) err w =
     (case r of
        Inr x \<Rightarrow> ((r, [PAcquired (res_key res), PReleased (res_key res)]), pu_Release P res w2)
      | Inl e \<Rightarrow>
        (if retryable e then
           (let ((r', evs), w4) = attempts P cerr c f n (Some e) (pu_Destroy P res w2)
            in ((r', PAcquired (res_key res) # PDestroyed (res_key res) # evs), w4))
         else ((r, [PAcquired (res_key res), PDestroyed (res_key res)]), pu_Destroy P res w2)))"
  using assms by (simp split: sum.split)

lemma attempts_success:
  assumes "attempts P cerr c f n err w = ((Inr x, evs), w')"
  shows "\<exists>k. evs \<noteq> [] \<and> last evs = PReleased k"
  using assms
proof (induction n arbitrary: err w evs w')
  case (Suc n)
  obtain a w1 where a: "pu_Acquire P c w = (a, w1)" by fastforce
  then obtain res where cerr: "cerr w = None" and res: "a = Inr res"
    using Suc.prems by (auto split: option.splits sum.splits)
  obtain r1 w2 where f: "f (res_value res) (c\<lparr>ctx_err := cerr w1\<rparr>) w1 = (r1, w2)" by fastforce
  note eq = attempts_Suc [where f = f, OF cerr a [unfolded res] f]
  show ?case
  proof (cases r1)
    case (Inl e)
    obtain r2 evs2 w3 where rec: "attempts P cerr c f n (Some e) (pu_Destroy P res w2) = ((r2, evs2), w3)"
      by (metis surj_pair)
    show ?thesis
      using Suc.prems eq Inl rec Suc.IH [of "Some e" "pu_Destroy P res w2" evs2 w3]
      by (auto split: if_splits)
  qed (use Suc.prems eq in auto)
qed simp

text \<open>The error an operation ends with: the context's, the pool's, one that is not retryable, or
  the exhaustion of the attempts joined with a retryable error.\<close>

lemma attempts_error:
  assumes "attempts P cerr c f n err w = ((Inl e, evs), w')" "err = None \<or> (\<exists>x. err = Some x \<and> retryable x)"
  shows "(\<exists>u. cerr u = Some e) \<or> (\<exists>u. fst (pu_Acquire P c u) = Inl e)
    \<or> (\<exists>t d u. fst (f t d u) = Inl e \<and> \<not> retryable e) \<or> (\<exists>x. e = Joined [Sentinel ErrRetriesExceeded, x] \<and> retryable x)
    \<or> n = 0"
  using assms
proof (induction n arbitrary: err w evs w')
  case (Suc n)
  show ?case
  proof (cases "cerr w")
    case None
    obtain a w1 where a: "pu_Acquire P c w = (a, w1)" by fastforce
    show ?thesis
    proof (cases a)
      case (Inl e2)
      with Suc.prems None a have "fst (pu_Acquire P c w) = Inl e" by simp
      then show ?thesis by blast
    next
      case (Inr res)
      obtain r1 w2 where f: "f (res_value res) (c\<lparr>ctx_err := cerr w1\<rparr>) w1 = (r1, w2)" by fastforce
      note eq = attempts_Suc [where f = f, OF None a [unfolded Inr] f]
      then obtain e1 where e1: "r1 = Inl e1"
        using Suc.prems(1) by (cases r1) auto
      obtain r2 evs2 w3 where rec: "attempts P cerr c f n (Some e1) (pu_Destroy P res w2) = ((r2, evs2), w3)"
        by (metis surj_pair)
      show ?thesis
      proof (cases "retryable e1")
        case True
        then have r2: "r2 = Inl e"
          using Suc.prems(1) eq e1 rec by simp
        show ?thesis
        proof (cases n)
          case 0
          then show ?thesis using rec r2 True by auto
        next
          case (Suc m)
          then show ?thesis using Suc.IH [OF rec [unfolded r2]] True by auto
        qed
      next
        case False
        then have "e1 = e" using Suc.prems(1) eq e1 by simp
        then have "fst (f (res_value res) (c\<lparr>ctx_err := cerr w1\<rparr>) w1) = Inl e" using f e1 by simp
        with False \<open>e1 = e\<close> show ?thesis by blast
      qed
    qed
  qed (use Suc.prems in auto)
qed simp

text \<open>If the context stays alive, resources are available and every call fails with a retryable
  error, all attempts are made, and the last error is joined with \<^verbatim>\<open>ErrRetriesExceeded\<close>.\<close>

lemma attempts_exhausted:
  assumes "\<And>u. cerr u = None" "\<And>u. \<exists>res u'. pu_Acquire P c u = (Inr res, u')"
    and "\<And>t c u. \<exists>e u'. f t c u = (Inl e, u') \<and> retryable e"
  shows "\<exists>e evs w'. attempts P cerr c f (Suc n) err w =
      ((Inl (Joined [Sentinel ErrRetriesExceeded, e]), evs), w') \<and> acquisitions evs = Suc n \<and> retryable e"
proof (induction n arbitrary: err w)
  case base: 0
  obtain res w1 where a: "pu_Acquire P c w = (Inr res, w1)" using assms(2) by blast
  obtain e w2 where f: "f (res_value res) (c\<lparr>ctx_err := cerr w1\<rparr>) w1 = (Inl e, w2)" "retryable e"
    using assms(3) by blast
  show ?case
    using attempts_Suc [where f = f and cerr = cerr and w = w and n = 0 and err = err, OF assms(1) a f(1)] f(2) by simp
next
  case (Suc n)
  obtain res w1 where a: "pu_Acquire P c w = (Inr res, w1)" using assms(2) by blast
  obtain e w2 where f: "f (res_value res) (c\<lparr>ctx_err := cerr w1\<rparr>) w1 = (Inl e, w2)" "retryable e"
    using assms(3) by blast
  obtain e' evs w' where IH: "attempts P cerr c f (Suc n) (Some e) (pu_Destroy P res w2) =
      ((Inl (Joined [Sentinel ErrRetriesExceeded, e']), evs), w')" "acquisitions evs = Suc n" "retryable e'"
    using Suc.IH by blast
  show ?case
    using attempts_Suc [where f = f and cerr = cerr and w = w and n = "Suc n" and err = err, OF assms(1) a f(1)] f(2) IH by simp
qed

subsection \<open>The attempts of an operation\<close>

text \<open>An attempt is the resource it acquired and what the operation gave on its client. What a sequence of
  attempts does to the state: the context is alive, a resource is acquired, the operation is called on its client,
  and the resource is destroyed if it failed and released if it did not.\<close>

type_synonym ('w, 'r) attempt = "'w Resource \<times> (go_error + 'r)"

fun tries :: "'w Puddle \<Rightarrow> ('w \<Rightarrow> go_error option) \<Rightarrow> ctx \<Rightarrow> ('w TransportClient \<Rightarrow> ctx \<Rightarrow> 'w \<Rightarrow> (go_error + 'r) \<times> 'w)
    \<Rightarrow> 'w \<Rightarrow> ('w, 'r) attempt list \<Rightarrow> 'w \<Rightarrow> bool" where
  "tries P cerr c f w [] w' \<longleftrightarrow> w' = w"
| "tries P cerr c f w ((res, r) # log) w' \<longleftrightarrow> cerr w = None \<and>
     (\<exists>w1 w2. pu_Acquire P c w = (Inr res, w1) \<and> f (res_value res) (c\<lparr>ctx_err := cerr w1\<rparr>) w1 = (r, w2)
        \<and> tries P cerr c f (if isl r then pu_Destroy P res w2 else pu_Release P res w2) log w')"

fun attempt_events :: "('w, 'r) attempt \<Rightarrow> pool_event list" where
  "attempt_events (res, r) = [PAcquired (res_key res), if isl r then PDestroyed (res_key res) else PReleased (res_key res)]"

definition all_failed :: "('w, 'r) attempt list \<Rightarrow> bool" where
  "all_failed log \<longleftrightarrow> (\<forall>a \<in> set log. \<exists>e. snd a = Inl e \<and> retryable e)"

text \<open>How an operation ends after its attempts: with what the last one gave, which is not worth a retry; with
  the error of the context or of the pool; or, when all attempts were made, with the error of the last one.\<close>

definition last_failure :: "go_error option \<Rightarrow> ('w, 'r) attempt list \<Rightarrow> go_error option" where
  "last_failure err log = (if log = [] then err else err_of (snd (last log)))"

definition ends_with :: "'w Puddle \<Rightarrow> ('w \<Rightarrow> go_error option) \<Rightarrow> ctx \<Rightarrow> nat \<Rightarrow> go_error option
    \<Rightarrow> ('w, 'r) attempt list \<Rightarrow> 'w \<Rightarrow> go_error + 'r \<Rightarrow> 'w \<Rightarrow> bool" where
  "ends_with P cerr c n err log w r w' \<longleftrightarrow>
     (w' = w \<and> (\<exists>before res. log = before @ [(res, r)] \<and> length log \<le> n \<and> all_failed before \<and> (\<forall>e. r = Inl e \<longrightarrow> \<not> retryable e)))
     \<or> (all_failed log \<and> length log < n \<and> (\<exists>e. r = Inl e
          \<and> (cerr w = Some e \<and> w' = w \<or> cerr w = None \<and> pu_Acquire P c w = (Inl e, w'))))
     \<or> (all_failed log \<and> length log = n \<and> w' = w \<and> Some r = map_option Inl (errors_join [Some (Sentinel ErrRetriesExceeded), last_failure err log]))"

lemma ends_with_more:
  assumes "ends_with P cerr c n (Some e) log w r w'" "retryable e"
  shows "ends_with P cerr c (Suc n) err ((res, Inl e) # log) w r w'"
proof -
  have fail: "all_failed ((res, Inl e) # l) = all_failed l" for l :: "('a Resource \<times> (go_error + 'b)) list"
    using assms(2) by (simp add: all_failed_def)
  have last: "last_failure err ((res, Inl e) # log) = last_failure (Some e) log"
    by (simp add: last_failure_def)
  from assms(1) consider
      (result) before res' where "w' = w" "log = before @ [(res', r)]" "length log \<le> n" "all_failed before" "\<forall>e. r = Inl e \<longrightarrow> \<not> retryable e"
    | (other) "(all_failed log \<and> length log < n \<and> (\<exists>e. r = Inl e \<and> (cerr w = Some e \<and> w' = w \<or> cerr w = None \<and> pu_Acquire P c w = (Inl e, w'))))
        \<or> (all_failed log \<and> length log = n \<and> w' = w \<and> Some r = map_option Inl (errors_join [Some (Sentinel ErrRetriesExceeded), last_failure (Some e) log]))"
    unfolding ends_with_def by blast
  then show ?thesis
  proof cases
    case result
    then show ?thesis
      unfolding ends_with_def using fail [of before]
      by (intro disjI1 conjI exI [of _ "(res, Inl e) # before"] exI [of _ res']) simp_all
  next
    case other
    then show ?thesis unfolding ends_with_def fail last by auto
  qed
qed

lemma attempts_tries:
  "attempts P cerr c f n err w = ((r, evs), w') \<Longrightarrow>
   \<exists>log w1. tries P cerr c f w log w1 \<and> evs = concat (map attempt_events log) \<and> ends_with P cerr c n err log w1 r w'"
proof (induction n arbitrary: err w r evs w')
  case 0
  then show ?case
    by (intro exI [of _ "[]"] exI [of _ w])
       (auto simp: ends_with_def all_failed_def last_failure_def errors_join_def List.map_filter_def split: option.split)
next
  case (Suc n)
  show ?case
  proof (cases "cerr w")
    case (Some e)
    with Suc.prems show ?thesis
      by (intro exI [of _ "[]"] exI [of _ w]) (auto simp: ends_with_def all_failed_def)
  next
    case None
    obtain a w1 where a: "pu_Acquire P c w = (a, w1)" by fastforce
    show ?thesis
    proof (cases a)
      case (Inl e)
      with Suc.prems None a show ?thesis
        by (intro exI [of _ "[]"] exI [of _ w]) (auto simp: ends_with_def all_failed_def)
    next
      case (Inr res)
      obtain r1 w2 where f: "f (res_value res) (c\<lparr>ctx_err := cerr w1\<rparr>) w1 = (r1, w2)" by fastforce
      note eq = attempts_Suc [where f = f and n = n and err = err, OF None a [unfolded Inr] f]
      show ?thesis
      proof (cases "\<exists>e. r1 = Inl e \<and> retryable e")
        case True
        then obtain e where e: "r1 = Inl e" "retryable e" by blast
        obtain r2 evs2 w3 where rec: "attempts P cerr c f n (Some e) (pu_Destroy P res w2) = ((r2, evs2), w3)"
          by (metis surj_pair)
        then have now: "r2 = r" "w3 = w'" "evs = PAcquired (res_key res) # PDestroyed (res_key res) # evs2"
          using Suc.prems eq e by auto
        obtain log w4 where log: "tries P cerr c f (pu_Destroy P res w2) log w4" "evs2 = concat (map attempt_events log)"
          "ends_with P cerr c n (Some e) log w4 r w'"
          using Suc.IH [OF rec] now by blast
        show ?thesis
          by (intro exI [of _ "(res, Inl e) # log"] exI [of _ w4] conjI ends_with_more [OF log(3) e(2)])
             (use None a Inr f e log now in auto)
      next
        case False
        then have now: "r1 = r" "w' = (if isl r then pu_Destroy P res w2 else pu_Release P res w2)"
          "evs = attempt_events (res, r)"
          using Suc.prems eq by (auto split: sum.splits)
        then show ?thesis
          using False None a Inr f
          by (intro exI [of _ "[(res, r)]"] exI [of _ w']) (auto simp: ends_with_def all_failed_def)
      qed
    qed
  qed
qed

lemma tries_fail:
  assumes "tries P cerr c f w log w'" "\<And>t d u. \<exists>e u'. f t d u = (Inl e, u') \<and> retryable e" "(res, x) \<in> set log"
  shows "\<exists>e. x = Inl e \<and> retryable e"
  using assms(1,3)
proof (induction log arbitrary: w)
  case (Cons a log)
  obtain res' r where a: "a = (res', r)" by (cases a)
  obtain w1 w2 where f: "f (res_value res') (c\<lparr>ctx_err := cerr w1\<rparr>) w1 = (r, w2)"
    "tries P cerr c f (if isl r then pu_Destroy P res' w2 else pu_Release P res' w2) log w'"
    using Cons.prems(1) unfolding a by auto
  obtain e u' where "f (res_value res') (c\<lparr>ctx_err := cerr w1\<rparr>) w1 = (Inl e, u')" "retryable e"
    using assms(2) by blast
  with f Cons.IH [OF f(2)] Cons.prems(2) show ?case unfolding a by auto
qed simp

subsection \<open>Configuration and the idle timer\<close>

lemma wrap_signed_id:
  "0 < w \<Longrightarrow> - (2 ^ (w - 1)) \<le> x \<Longrightarrow> x < 2 ^ (w - 1) \<Longrightarrow> wrap_signed w x = x"
  by (cases w) (simp_all add: wrap_signed_def)

lemma attempts_of_eq:
  assumes "cfg_Retries config < 2 ^ 63 - 1"
  shows "attempts_of config = max (cfg_Retries config) 1 + 1"
  using assms by (simp add: attempts_of_def wrap_signed_id)

lemma effective_config_simps [go_simps]:
  "cfg_IdleTimeout (effective_config n m config) =
     (if cfg_IdleTimeout config = 0 then 300 * Second else cfg_IdleTimeout config)"
  "cfg_DialTimeout (effective_config n m config) =
     (if cfg_DialTimeout config \<le> 0 then 30 * Second else cfg_DialTimeout config)"
  "cfg_MaxSize (effective_config n m config) =
     (if cfg_MaxSize config \<le> 0 then wrap_signed 32 (min n m * 2) else cfg_MaxSize config)"
  "cfg_Retries (effective_config n m config) = cfg_Retries config"
  "cfg_URI (effective_config n m config) = cfg_URI config"
  "cfg_AcquireOnCreate (effective_config n m config) = cfg_AcquireOnCreate config"
  by (simp_all add: effective_config_def Let_def DefaultPoolIdleTimeout_def DefaultPoolDialTimeout_def)

fun event_key :: "pool_event \<Rightarrow> nat" where
  "event_key (PAcquired k) = k"
| "event_key (PReleased k) = k"
| "event_key (PUnused k) = k"
| "event_key (PDestroyed k) = k"

lemma reap_keys:
  "reap P timeout rs n w = ((n', evs), w') \<Longrightarrow> map event_key evs = map res_key rs"
  by (induction rs arbitrary: n w evs n' w') (auto simp: Let_def split: if_splits prod.splits)

lemma reap_wait:
  "reap P timeout rs n w = ((n', evs), w') \<Longrightarrow> 0 < n \<Longrightarrow> n \<le> timeout \<Longrightarrow> 0 < n' \<and> n' \<le> timeout"
proof (induction rs arbitrary: n w evs n' w')
  case (Cons r rs)
  show ?case
  proof (cases "timeout \<le> pu_IdleDuration P r w")
    case True
    then show ?thesis
      using Cons.prems Cons.IH [of n "pu_Destroy P r w"] by (auto simp: Let_def split: prod.splits)
  next
    case False
    then show ?thesis
      using Cons.prems Cons.IH [of "min n (timeout - pu_IdleDuration P r w)" "pu_ReleaseUnused P r w"]
      by (auto simp: Let_def split: prod.splits)
  qed
qed auto

text \<open>When giving one resource back does not change how long the others have been idle, exactly
  those idle for the timeout are destroyed, and the next tick is due when the first of the others
  reaches it.\<close>

lemma reap_exact:
  assumes "\<And>r w. idle r = pu_IdleDuration P r w"
  shows "fst (reap P timeout rs n w) =
    (fold (\<lambda>r m. min m (timeout - idle r)) (filter (\<lambda>r. idle r < timeout) rs) n,
     map (\<lambda>r. if idle r < timeout then PUnused (res_key r) else PDestroyed (res_key r)) rs)"
proof (induction rs arbitrary: n w)
  case (Cons r rs)
  show ?case
  proof (cases "timeout \<le> idle r")
    case True
    then have "timeout \<le> pu_IdleDuration P r w" using assms by simp
    then show ?thesis
      using Cons.IH [of n "pu_Destroy P r w"] True
      by (cases "reap P timeout rs n (pu_Destroy P r w)") (simp add: Let_def split_beta)
  next
    case False
    moreover have "pu_IdleDuration P r w = idle r" using assms by simp
    ultimately show ?thesis
      using Cons.IH [of "min n (timeout - idle r)" "pu_ReleaseUnused P r w"]
      by (simp add: Let_def split_beta)
  qed
qed simp

lemma Pool_Close_twice:
  "Pool_Close cp w = (cp1, w1) \<Longrightarrow> Pool_Close cp1 w2 = (cp1, w2)"
  by (auto simp: Pool_Close_def split: if_splits)

end
