(* ===== verification/Clients.thy ===== *)
theory Clients
  imports ClientPool "HOL-Library.Word"
begin

text \<open>
  client.go and batchbuilder.go: the client that numbers requests, checks parameters and applies
  a default timeout, and the builder of batches. The counter of identifiers is a 32-bit word,
  which wraps. The client sees the pool through an interface, a record of functions.
\<close>

subsection \<open>Parameters\<close>

text \<open>The dynamic type of the argument: a \<^verbatim>\<open>Params\<close>, an untyped nil, or another value;
  \<open>tn\<close> gives the type name \<^verbatim>\<open>%T\<close> prints.\<close>

datatype params_arg = ArgParams params | ArgNil | ArgValue gval

definition makeParamsFromAny :: "(gval \<Rightarrow> bytes) \<Rightarrow> params_arg \<Rightarrow> go_error + params" where
  "makeParamsFromAny tn v =
     (case v of
        ArgParams p \<Rightarrow> Inr p
      | ArgNil \<Rightarrow> Inr zero_params
      | ArgValue x \<Rightarrow>
        (case marshal x of
           Inl err \<Rightarrow> Inl (Wrapf [Txt ''jsonrpc2: failed to marshal params: '', Wrap err])
         | Inr raw \<Rightarrow>
           if HintType raw \<noteq> TypeObject \<and> HintType raw \<noteq> TypeArray
           then Inl (Wrapf [Wrap (Sentinel ErrInvalidParamsType), Txt ('': got '' @ tn x)])
           else Inr (NewParamsRaw raw)))"

subsection \<open>The client\<close>

record 'w poolClientInterface =
  if_Call :: "ctx \<Rightarrow> Request \<Rightarrow> 'w \<Rightarrow> (go_error + Response) \<times> 'w"
  if_CallWithTimeout :: "ctx \<Rightarrow> int \<Rightarrow> Request \<Rightarrow> 'w \<Rightarrow> (go_error + Response) \<times> 'w"
  if_Notify :: "ctx \<Rightarrow> Notification \<Rightarrow> 'w \<Rightarrow> go_error option \<times> 'w"
  if_NotifyWithTimeout :: "ctx \<Rightarrow> int \<Rightarrow> Notification \<Rightarrow> 'w \<Rightarrow> go_error option \<times> 'w"
  if_CallBatch :: "ctx \<Rightarrow> Request Batch \<Rightarrow> 'w \<Rightarrow> (go_error + Response Batch) \<times> 'w"
  if_CallBatchWithTimeout :: "ctx \<Rightarrow> int \<Rightarrow> Request Batch \<Rightarrow> 'w \<Rightarrow> (go_error + Response Batch) \<times> 'w"
  if_NotifyBatch :: "ctx \<Rightarrow> Notification Batch \<Rightarrow> 'w \<Rightarrow> go_error option \<times> 'w"
  if_NotifyBatchWithTimeout :: "ctx \<Rightarrow> int \<Rightarrow> Notification Batch \<Rightarrow> 'w \<Rightarrow> go_error option \<times> 'w"
  if_Close :: "'w \<Rightarrow> 'w"

record 'w Client =
  cl_pool :: "'w poolClientInterface"
  cl_id :: "32 word"
  cl_defaultTimeout :: int

definition nextID :: "'w Client \<Rightarrow> int \<times> 'w Client" where
  "nextID c = (uint (cl_id c + 1), c\<lparr>cl_id := cl_id c + 1\<rparr>)"

definition SetDefaultTimeout :: "'w Client \<Rightarrow> int \<Rightarrow> 'w Client" where
  "SetDefaultTimeout c d = c\<lparr>cl_defaultTimeout := d\<rparr>"

definition Client_Close :: "'w Client \<Rightarrow> 'w \<Rightarrow> 'w" where
  "Client_Close c w = if_Close (cl_pool c) w"

definition Client_Call :: "(gval \<Rightarrow> bytes) \<Rightarrow> 'w Client \<Rightarrow> ctx \<Rightarrow> bytes \<Rightarrow> params_arg \<Rightarrow> 'w
    \<Rightarrow> (go_error + Response) \<times> 'w Client \<times> 'w" where
  "Client_Call tn c cx method p w =
     (case makeParamsFromAny tn p of
        Inl err \<Rightarrow> (Inl err, c, w)
      | Inr reqParams \<Rightarrow>
        (let (i, c1) = nextID c;
             req = NewRequestWithParams (IdInt i) method reqParams;
             (r, w1) = (if 0 < cl_defaultTimeout c1
                        then if_CallWithTimeout (cl_pool c1) cx (cl_defaultTimeout c1) req w
                        else if_Call (cl_pool c1) cx req w)
         in (r, c1, w1)))"

definition Client_Notify :: "(gval \<Rightarrow> bytes) \<Rightarrow> 'w Client \<Rightarrow> ctx \<Rightarrow> bytes \<Rightarrow> params_arg \<Rightarrow> 'w
    \<Rightarrow> go_error option \<times> 'w" where
  "Client_Notify tn c cx method p w =
     (case makeParamsFromAny tn p of
        Inl err \<Rightarrow> (Some err, w)
      | Inr notifyParams \<Rightarrow>
        (let notif = NewNotificationWithParams method notifyParams in
         if 0 < cl_defaultTimeout c
         then if_NotifyWithTimeout (cl_pool c) cx (cl_defaultTimeout c) notif w
         else if_Notify (cl_pool c) cx notif w))"

definition Client_callBatch ::
  "'w Client \<Rightarrow> ctx \<Rightarrow> Request Batch \<Rightarrow> 'w \<Rightarrow> (go_error + Response Batch) \<times> 'w" where
  "Client_callBatch c cx batch w =
     (if 0 < cl_defaultTimeout c
      then if_CallBatchWithTimeout (cl_pool c) cx (cl_defaultTimeout c) batch w
      else if_CallBatch (cl_pool c) cx batch w)"

definition Client_notifyBatch ::
  "'w Client \<Rightarrow> ctx \<Rightarrow> Notification Batch \<Rightarrow> 'w \<Rightarrow> go_error option \<times> 'w" where
  "Client_notifyBatch c cx batch w =
     (if 0 < cl_defaultTimeout c
      then if_NotifyBatchWithTimeout (cl_pool c) cx (cl_defaultTimeout c) batch w
      else if_NotifyBatch (cl_pool c) cx batch w)"

subsection \<open>The batch builder\<close>

text \<open>The type parameter selects the alternative; the client the builder points to is passed and
  returned beside it.\<close>

datatype BatchBuilder = RequestBatch "Request Batch" | NotificationBatch "Notification Batch"

definition NewRequestBatch :: "int \<Rightarrow> BatchBuilder option" where
  "NewRequestBatch n = map_option RequestBatch (NewBatch n)"

definition NewNotificationBatch :: "int \<Rightarrow> BatchBuilder option" where
  "NewNotificationBatch n = map_option NotificationBatch (NewBatch n)"

definition BatchBuilder_Add :: "(gval \<Rightarrow> bytes) \<Rightarrow> 'w Client \<Rightarrow> BatchBuilder \<Rightarrow> bytes \<Rightarrow> params_arg
    \<Rightarrow> go_error option \<times> 'w Client \<times> BatchBuilder" where
  "BatchBuilder_Add tn c b method p =
     (case makeParamsFromAny tn p of
        Inl err \<Rightarrow> (Some err, c, b)
      | Inr reqParams \<Rightarrow>
        (case b of
           RequestBatch bb \<Rightarrow>
             (let (i, c1) = nextID c in
              (None, c1, RequestBatch (Batch_Add bb [Some (NewRequestWithParams (IdInt i) method reqParams)])))
         | NotificationBatch bb \<Rightarrow>
             (None, c, NotificationBatch (Batch_Add bb [Some (NewNotificationWithParams method reqParams)]))))"

definition BatchBuilder_Call :: "'w Client \<Rightarrow> BatchBuilder \<Rightarrow> ctx \<Rightarrow> 'w
    \<Rightarrow> (Response Batch \<times> go_error option) \<times> 'w" where
  "BatchBuilder_Call c b cx w =
     (case b of
        RequestBatch batch \<Rightarrow>
          (case Client_callBatch c cx batch w of
             (Inl err, w') \<Rightarrow> (([], Some err), w')
           | (Inr resp, w') \<Rightarrow> ((resp, None), w'))
      | NotificationBatch batch \<Rightarrow>
          (let (err, w') = Client_notifyBatch c cx batch w in (([], err), w')))"

subsection \<open>Parameters are an object, an array or absent\<close>

lemma makeParams_raw:
  assumes "makeParamsFromAny tn (ArgValue x) = Inr p"
  shows "\<exists>raw. marshal x = Inr raw \<and> params_value p = GRaw raw \<and> (HintType raw = TypeObject \<or> HintType raw = TypeArray)"
  using assms
  by (auto simp: makeParamsFromAny_def NewParamsRaw_def NewParamsArray_def split: sum.splits if_splits)

lemma makeParams_refused:
  "marshal x = Inr raw \<Longrightarrow> HintType raw \<noteq> TypeObject \<Longrightarrow> HintType raw \<noteq> TypeArray \<Longrightarrow>
   \<exists>e. makeParamsFromAny tn (ArgValue x) = Inl e \<and> errors_is e (Sentinel ErrInvalidParamsType)"
  by (simp add: makeParamsFromAny_def)

subsection \<open>Identifiers\<close>

text \<open>The identifiers of the next \<open>n\<close> requests.\<close>

fun next_ids :: "nat \<Rightarrow> 'w Client \<Rightarrow> int list \<times> 'w Client" where
  "next_ids 0 c = ([], c)"
| "next_ids (Suc n) c = (let (i, c1) = nextID c; (is, c2) = next_ids n c1 in (i # is, c2))"

lemma next_ids_eq:
  "next_ids n c = (map (\<lambda>k. uint (cl_id c + of_nat (Suc k))) [0..<n], c\<lparr>cl_id := cl_id c + of_nat n\<rparr>)"
proof (induction n arbitrary: c)
  case (Suc n)
  have "[0..<Suc n] = 0 # map Suc [0..<n]"
    by (simp add: upt_conv_Cons map_Suc_upt del: upt_Suc)
  with Suc show ?case
    by (simp add: nextID_def Let_def ac_simps o_def del: upt_Suc)
qed simp

lemma uint_plus_inj:
  fixes a :: "'a::len word"
  assumes "uint (a + of_nat i) = uint (a + of_nat j)" "i < 2 ^ LENGTH('a)" "j < 2 ^ LENGTH('a)"
  shows "i = j"
proof -
  have "a + of_nat i = a + of_nat j" using assms(1) by (simp only: word_uint_eq_iff)
  then have "(of_nat i :: 'a word) = of_nat j" by simp
  then show ?thesis
    using assms(2,3) by (simp add: word_of_nat_eq_iff take_bit_nat_eq_self)
qed

lemma next_ids_distinct:
  assumes "n \<le> 2 ^ 32"
  shows "distinct (fst (next_ids n c))"
proof -
  have "inj_on (\<lambda>k. uint (cl_id c + of_nat (Suc k))) {0..<n}"
  proof (rule inj_onI)
    fix i j
    assume ij: "i \<in> {0..<n}" "j \<in> {0..<n}"
      and "uint (cl_id c + of_nat (Suc i)) = uint (cl_id c + of_nat (Suc j))"
    then have "uint ((cl_id c + 1) + of_nat i) = uint ((cl_id c + 1) + of_nat j)"
      by (simp add: ac_simps)
    then show "i = j"
      by (rule uint_plus_inj) (use ij assms in auto)
  qed
  then show ?thesis
    by (simp add: next_ids_eq distinct_map)
qed

lemma nextID_range: "0 \<le> fst (nextID c) \<and> fst (nextID c) < 2 ^ 32"
  using uint_bounded [of "cl_id c + 1"] by (simp add: nextID_def)

text \<open>A request batch built by \<open>Add\<close> carries the next identifiers of the client.\<close>

fun add_all :: "(gval \<Rightarrow> bytes) \<Rightarrow> 'w Client \<Rightarrow> BatchBuilder \<Rightarrow> (bytes \<times> params_arg) list
    \<Rightarrow> (go_error option) list \<times> 'w Client \<times> BatchBuilder" where
  "add_all tn c b [] = ([], c, b)"
| "add_all tn c b ((m, p) # ms) =
     (let (e, c1, b1) = BatchBuilder_Add tn c b m p; (es, c2, b2) = add_all tn c1 b1 ms
      in (e # es, c2, b2))"

definition good_args :: "(gval \<Rightarrow> bytes) \<Rightarrow> (bytes \<times> params_arg) list \<Rightarrow> (bytes \<times> params) list" where
  "good_args tn ms = List.map_filter (\<lambda>(m, p). case makeParamsFromAny tn p of
     Inl e \<Rightarrow> None | Inr q \<Rightarrow> Some (m, q)) ms"

lemma add_all_requests:
  "add_all tn c (RequestBatch bb) ms = (es, c', b') \<Longrightarrow>
   b' = RequestBatch (bb @ map2 (\<lambda>i (m, q). Some (NewRequestWithParams (IdInt i) m q))
          (fst (next_ids (length (good_args tn ms)) c)) (good_args tn ms))
   \<and> c' = snd (next_ids (length (good_args tn ms)) c)"
proof (induction ms arbitrary: c bb es)
  case (Cons mp ms)
  obtain m p where mp: "mp = (m, p)" by (cases mp)
  show ?case
  proof (cases "makeParamsFromAny tn p")
    case (Inl e)
    then show ?thesis
      using Cons mp by (auto simp: BatchBuilder_Add_def good_args_def map_filter_simps Let_def split: prod.splits)
  next
    case (Inr q)
    let ?r = "NewRequestWithParams (IdInt (fst (nextID c))) m q"
    let ?rest = "add_all tn (snd (nextID c)) (RequestBatch (bb @ [Some ?r])) ms"
    have "snd ?rest = (c', b')"
      using Cons.prems mp Inr by (simp add: BatchBuilder_Add_def Batch_Add_def Let_def split_beta)
    then have "?rest = (fst ?rest, c', b')"
      by (metis prod.collapse)
    from Cons.IH [OF this] show ?thesis
      using mp Inr by (simp add: good_args_def map_filter_simps Let_def split_beta)
  qed
qed (simp add: good_args_def map_filter_simps)

lemma next_ids_length: "length (fst (next_ids n c)) = n"
  by (simp add: next_ids_eq)

lemma request_ids_built:
  "length is = length gs \<Longrightarrow>
   map (\<lambda>r. Request_id (the r)) (map2 (\<lambda>i (m, q). Some (NewRequestWithParams (IdInt i) m q)) is gs) =
   map (\<lambda>i. NewID (IdInt i)) is"
  by (induction "is" gs rule: list_induct2) (auto simp: Request_id_def NewRequestWithParams_def)

lemma inj_NewID: "inj (\<lambda>i. NewID (IdInt i))"
  by (auto simp: inj_def NewID_def)

lemma built_ids_distinct:
  assumes "length (good_args tn ms) \<le> 2 ^ 32"
    and "add_all tn c (RequestBatch []) ms = (es, c', RequestBatch b)"
  shows "distinct (map (\<lambda>r. Request_id (the r)) b)"
proof -
  let ?n = "length (good_args tn ms)"
  have "b = map2 (\<lambda>i (m, q). Some (NewRequestWithParams (IdInt i) m q)) (fst (next_ids ?n c)) (good_args tn ms)"
    using add_all_requests [OF assms(2)] by simp
  then have "map (\<lambda>r. Request_id (the r)) b = map (\<lambda>i. NewID (IdInt i)) (fst (next_ids ?n c))"
    using request_ids_built [of "fst (next_ids ?n c)" "good_args tn ms"] by (simp add: next_ids_length)
  then show ?thesis
    using next_ids_distinct [OF assms(1), of c] inj_on_subset [OF inj_NewID subset_UNIV]
    by (simp add: distinct_map)
qed

end
