(* ===== verification/Net.thy ===== *)
theory Net
  imports Http Clients
begin

text \<open>
  server.go and dial.go: which network a URI stands for, the accept loop of a listener, the
  group of servers on a packet connection, and how a client is dialled. \<open>parse\<close> is
  \<^verbatim>\<open>url.Parse\<close>; \<^verbatim>\<open>net.Listen\<close>, the dialers and the HTTP server are arguments.
\<close>

record url =
  url_Scheme :: bytes
  url_Host :: bytes
  url_Path :: bytes

subsection \<open>The server\<close>

record 'w Server =
  sv_handler :: "'w Handler"
  sv_Binder :: "'w Binder option"
  sv_HTTPReadTimeout :: int
  sv_HTTPShutdownTimeout :: int
  sv_PacketRoutines :: int

definition DefaultHTTPReadTimeout :: int where
  "DefaultHTTPReadTimeout = 5"

definition DefaultHTTPShutdownTimeout :: int where
  "DefaultHTTPShutdownTimeout = 30"

definition NewServer :: "int \<Rightarrow> int \<Rightarrow> 'w Handler \<Rightarrow> 'w Server" where
  "NewServer numCPU maxProcs h = \<lparr>sv_handler = h, sv_Binder = None,
     sv_HTTPReadTimeout = DefaultHTTPReadTimeout * Second,
     sv_HTTPShutdownTimeout = DefaultHTTPShutdownTimeout * Second,
     sv_PacketRoutines = min numCPU maxProcs\<rparr>"

text \<open>The \<^verbatim>\<open>http.Server\<close> that is set up for a URI: its address, the path its mux serves, and the
  fields of the \<^verbatim>\<open>HTTPHandler\<close> and of the server.\<close>

record 'w http_service =
  hs_Addr :: bytes
  hs_Path :: bytes
  hs_handler :: "'w Handler"
  hs_Binder :: "'w Binder option"
  hs_ReadHeaderTimeout :: int

text \<open>What serving needs of the rest of the program: listening on a stream or packet network
  (\<open>'l\<close> is a listener, \<open>'p\<close> a packet connection), and serving what was opened.\<close>

record ('w, 'l, 'p) net_ops =
  net_Listen :: "bytes \<Rightarrow> bytes \<Rightarrow> 'w \<Rightarrow> (go_error + 'l) \<times> 'w"
  net_ListenPacket :: "bytes \<Rightarrow> bytes \<Rightarrow> 'w \<Rightarrow> (go_error + 'p) \<times> 'w"
  net_Serve :: "'l \<Rightarrow> 'w \<Rightarrow> go_error option \<times> 'w"
  net_ServePacket :: "'p \<Rightarrow> 'w \<Rightarrow> go_error option \<times> 'w"
  net_ServeHTTP :: "'w http_service \<Rightarrow> 'w \<Rightarrow> go_error option \<times> 'w"

definition listenAndServe :: "('w, 'l, 'p) net_ops \<Rightarrow> bytes \<Rightarrow> bytes \<Rightarrow> 'w \<Rightarrow> go_error option \<times> 'w" where
  "listenAndServe ops network addr w =
     (case net_Listen ops network addr w of
        (Inl err, w') \<Rightarrow> (Some err, w')
      | (Inr ln, w') \<Rightarrow> net_Serve ops ln w')"

definition listenAndServePacket :: "('w, 'l, 'p) net_ops \<Rightarrow> bytes \<Rightarrow> bytes \<Rightarrow> 'w \<Rightarrow> go_error option \<times> 'w" where
  "listenAndServePacket ops network addr w =
     (case net_ListenPacket ops network addr w of
        (Inl err, w') \<Rightarrow> (Some err, w')
      | (Inr pc, w') \<Rightarrow> net_ServePacket ops pc w')"

definition listenAndServeHTTP :: "('w, 'l, 'p) net_ops \<Rightarrow> 'w Server \<Rightarrow> url \<Rightarrow> 'w \<Rightarrow> go_error option \<times> 'w" where
  "listenAndServeHTTP ops s uri w =
     (let path = (if url_Path uri = [] then ''/'' else url_Path uri)
      in net_ServeHTTP ops
           \<lparr>hs_Addr = url_Host uri, hs_Path = path, hs_handler = sv_handler s, hs_Binder = sv_Binder s,
            hs_ReadHeaderTimeout = sv_HTTPReadTimeout s\<rparr> w)"

text \<open>The goroutine that ends the HTTP server when the context is cancelled: \<open>shutdown\<close> gets its own
  timeout, and when it fails the server is closed.\<close>

definition http_shutdown :: "(int \<Rightarrow> 'w \<Rightarrow> go_error option \<times> 'w) \<Rightarrow> ('w \<Rightarrow> go_error option \<times> 'w) \<Rightarrow> 'w Server \<Rightarrow> 'w \<Rightarrow> 'w" where
  "http_shutdown shutdown close s w =
     (case shutdown (sv_HTTPShutdownTimeout s) w of
        (Some err, w') \<Rightarrow> snd (close w')
      | (None, w') \<Rightarrow> w')"

definition ListenAndServe :: "(bytes \<Rightarrow> go_error + url) \<Rightarrow> ('w, 'l, 'p) net_ops \<Rightarrow> 'w Server \<Rightarrow> bytes \<Rightarrow> 'w
    \<Rightarrow> go_error option \<times> 'w" where
  "ListenAndServe parse ops s listenURI w =
     (case parse listenURI of
        Inl err \<Rightarrow> (Some err, w)
      | Inr uri \<Rightarrow>
        (let scheme = url_Scheme uri in
         if scheme \<in> {''tcp'', ''tcp4'', ''tcp6''} then
           listenAndServe ops scheme (trim_prefix listenURI (scheme @ '':'')) w
         else if scheme = ''unix'' then listenAndServe ops scheme (url_Path uri) w
         else if scheme \<in> {''udp'', ''udp4'', ''udp6''} then
           listenAndServePacket ops scheme (trim_prefix listenURI (scheme @ '':'')) w
         else if scheme \<in> {''unixgram'', ''unixpacket''} then
           listenAndServePacket ops scheme (url_Path uri) w
         else if scheme = ''http'' then listenAndServeHTTP ops s uri w
         else (Some (Sentinel ErrUnknownScheme), w)))"

subsection \<open>Stream servers\<close>

text \<open>The server the goroutine of a connection builds and binds, with its context.\<close>

definition connection_server :: "'w slog \<Rightarrow> ('c \<Rightarrow> 'w Decoder) \<Rightarrow> ('c \<Rightarrow> 'w Encoder) \<Rightarrow> ('c \<Rightarrow> 'w CancelCauseFunc)
    \<Rightarrow> 'w Server \<Rightarrow> ctx \<Rightarrow> 'c \<Rightarrow> 'w \<Rightarrow> ('w RPCServer \<times> ctx) \<times> 'w" where
  "connection_server slog newDecoder newEncoder connStop s c conn w =
     (let rp = NewStreamServer slog (newDecoder conn) (newEncoder conn) (sv_handler s);
          cctx = c\<lparr>ctx_net_conn := True\<rparr>;
          (rp', w') = bind_if (sv_Binder s) cctx rp (connStop conn) w
      in ((rp', cctx), w'))"

subsection \<open>Packet servers\<close>

text \<open>The server each routine of a packet connection builds and binds.\<close>

definition packet_server :: "'w slog \<Rightarrow> 'w PacketDecoder \<Rightarrow> 'w PacketEncoder \<Rightarrow> 'w CancelCauseFunc
    \<Rightarrow> 'w Server \<Rightarrow> ctx \<Rightarrow> 'w \<Rightarrow> ('w RPCServer \<times> ctx) \<times> 'w" where
  "packet_server slog dec enc stop s c w =
     (let rp = NewPacketServer slog dec enc (sv_handler s); gctx = c\<lparr>ctx_packet_conn := True\<rparr>;
          (rp', w') = bind_if (sv_Binder s) gctx rp stop w
      in ((rp', gctx), w'))"

subsection \<open>Dialling\<close>

text \<open>\<open>client_bridge\<close> puts a new bridge into the state and gives the client whose encoder and decoder it is.\<close>

record ('w, 'c) dial_ops =
  dial_Context :: "ctx \<Rightarrow> bytes \<Rightarrow> bytes \<Rightarrow> 'w \<Rightarrow> (go_error + 'c) \<times> 'w"
  dial_TLS :: "ctx \<Rightarrow> bytes \<Rightarrow> bytes \<Rightarrow> 'w \<Rightarrow> (go_error + 'c) \<times> 'w"
  client_io :: "'c \<Rightarrow> 'w TransportClient"
  client_bridge :: "HTTPBridge \<Rightarrow> 'w \<Rightarrow> 'w TransportClient \<times> 'w"

definition dial :: "('w, 'c) dial_ops \<Rightarrow> ctx \<Rightarrow> bytes \<Rightarrow> bytes \<Rightarrow> 'w \<Rightarrow> (go_error + 'w TransportClient) \<times> 'w" where
  "dial ops c network addr w =
     (case dial_Context ops c network addr w of
        (Inl err, w') \<Rightarrow> (Inl err, w')
      | (Inr conn, w') \<Rightarrow> (Inr (client_io ops conn), w'))"

definition dialHTTP :: "('w, 'c) dial_ops \<Rightarrow> ctx \<Rightarrow> bytes \<Rightarrow> 'w \<Rightarrow> (go_error + 'w TransportClient) \<times> 'w" where
  "dialHTTP ops c uri w =
     (case ctx_err c of
        Some e \<Rightarrow> (Inl e, w)
      | None \<Rightarrow> (case client_bridge ops (NewHTTPBridge uri) w of (client, w') \<Rightarrow> (Inr client, w')))"

definition tls_network :: "bytes \<Rightarrow> bytes" where
  "tls_network network =
     (if has_suffix network ''6'' then ''tcp6'' else if has_suffix network ''4'' then ''tcp4'' else ''tcp'')"

definition dialTLS :: "('w, 'c) dial_ops \<Rightarrow> ctx \<Rightarrow> bytes \<Rightarrow> bytes \<Rightarrow> 'w \<Rightarrow> (go_error + 'w TransportClient) \<times> 'w" where
  "dialTLS ops c network addr w =
     (case dial_TLS ops c (tls_network network) addr w of
        (Inl err, w') \<Rightarrow> (Inl err, w')
      | (Inr conn, w') \<Rightarrow> (Inr (client_io ops conn), w'))"

definition DialTransport :: "(bytes \<Rightarrow> go_error + url) \<Rightarrow> ('w, 'c) dial_ops \<Rightarrow> ctx \<Rightarrow> bytes \<Rightarrow> 'w
    \<Rightarrow> (go_error + 'w TransportClient) \<times> 'w" where
  "DialTransport parse ops c destURI w =
     (case parse destURI of
        Inl err \<Rightarrow> (Inl err, w)
      | Inr uri \<Rightarrow>
        (let scheme = url_Scheme uri in
         if has_prefix scheme ''tcp'' \<or> has_prefix scheme ''udp'' then
           dial ops c scheme (trim_prefix destURI (scheme @ '':'')) w
         else if has_prefix scheme ''tls'' then
           dialTLS ops c scheme (trim_prefix destURI (scheme @ '':'')) w
         else if has_prefix scheme ''unix'' then dial ops c scheme (url_Path uri) w
         else if has_prefix scheme ''http'' then dialHTTP ops c destURI w
         else (Inl (Sentinel ErrUnknownScheme), w)))"

text \<open>A client is its pool and its first identifier, \<open>rand\<close>.\<close>

definition DialWithConfig :: "int \<Rightarrow> int \<Rightarrow> int \<Rightarrow> 'w new_pool
    \<Rightarrow> (ctx \<Rightarrow> bytes \<Rightarrow> 'w \<Rightarrow> (go_error + 'w TransportClient) \<times> 'w) \<Rightarrow> 32 word
    \<Rightarrow> ctx \<Rightarrow> ClientPoolConfig \<Rightarrow> 'w \<Rightarrow> (go_error + 'w ClientPool \<times> 32 word) \<times> pool_event list \<times> 'w" where
  "DialWithConfig now numCPU maxProcs newPool dialTransport rand c config w =
     (case NewClientPool now numCPU maxProcs newPool dialTransport c config w of
        (Inl err, evs, w') \<Rightarrow> (Inl err, evs, w')
      | (Inr pool, evs, w') \<Rightarrow> (Inr (pool, rand), evs, w'))"

definition Dial :: "int \<Rightarrow> int \<Rightarrow> int \<Rightarrow> 'w new_pool
    \<Rightarrow> (ctx \<Rightarrow> bytes \<Rightarrow> 'w \<Rightarrow> (go_error + 'w TransportClient) \<times> 'w) \<Rightarrow> 32 word
    \<Rightarrow> ctx \<Rightarrow> bytes \<Rightarrow> 'w \<Rightarrow> (go_error + 'w ClientPool \<times> 32 word) \<times> pool_event list \<times> 'w" where
  "Dial now numCPU maxProcs newPool dialTransport rand c destURI w =
     DialWithConfig now numCPU maxProcs newPool dialTransport rand c
       \<lparr>cfg_URI = destURI, cfg_IdleTimeout = 0, cfg_DialTimeout = 0, cfg_Retries = 0, cfg_MaxSize = 0,
        cfg_AcquireOnCreate = True\<rparr> w"

end
