(* ===== verification/EndToEnd.thy ===== *)
theory EndToEnd
  imports Net
begin

text \<open>
  A call from end to end over HTTP: the transport client of dial.go's \<^verbatim>\<open>dialHTTP\<close>, whose
  encoder and decoder are one bridge, against the HTTP handler. The state is the bridge and
  the state of the handler.
\<close>

subsection \<open>The transport client of a bridge\<close>

definition bridge_transport :: "(bytes \<Rightarrow> go_error option) \<Rightarrow> (ctx \<Rightarrow> bytes \<Rightarrow> bytes \<Rightarrow> 'w \<Rightarrow> (go_error + http_answer) \<times> 'w)
    \<Rightarrow> (HTTPBridge \<times> 'w) TransportClient" where
  "bridge_transport newReq post = NewTransportClient
     (\<lambda>c v (h, w). case Bridge_Encode newReq post marshal_outgoing h c v w of (e, h', w') \<Rightarrow> (e, (h', w')))
     (\<lambda>c (h, w). (Bridge_Decode h c, (h, w)))
     (Some (\<lambda>(h, w). case Bridge_Close h of (e, h') \<Rightarrow> (e, (h', w))))
     (Some (\<lambda>(h, w). case Bridge_Close h of (e, h') \<Rightarrow> (e, (h', w))))"

text \<open>A network that carries a POST to the handler and its reply back; a handler that would never answer
  shows as an error.\<close>

definition answer_of :: "http_reply \<Rightarrow> http_answer" where
  "answer_of r = \<lparr>ha_code = int (ht_status r), ha_status = show_nat (ht_status r),
     ha_content_type = ht_content_type r, ha_body = ht_body r, ha_read_err = None\<rparr>"

definition http_network :: "'u slog \<Rightarrow> 'u HTTPHandler \<Rightarrow> ('u http_conn) CancelCauseFunc \<Rightarrow> ('u http_conn \<Rightarrow> go_error option)
    \<Rightarrow> ctx \<Rightarrow> bytes \<Rightarrow> bytes \<Rightarrow> 'u \<Rightarrow> (go_error + http_answer) \<times> 'u" where
  "http_network slog h stop cerr c url buf u =
     (case ServeHTTP slog h stop cerr \<lparr>hr_content_type = ''application/json'', hr_body = [RData buf]\<rparr> u of
        Some (reply, u') \<Rightarrow> (Inr (answer_of reply), u')
      | None \<Rightarrow> (Inl (Sentinel EOF), u))"

subsection \<open>A framed text with the newline after it\<close>

lemma framed_run:
  assumes "framed v"
  shows "sc_run sc_reset v = (StEndTop, [])"
proof -
  obtain c cs where v: "v = c # cs" and c: "c = CHR ''{'' \<or> c = CHR ''[''"
    using assms by (cases v) (auto simp: framed_def)
  let ?s = "fst (sc_step sc_reset c)"
  have "value_end ?s cs (Suc 0) = VEnd (Suc (length cs))"
    using framed_value_end [OF assms] c by (elim disjE) (simp_all add: v Let_def split_beta first_step)
  then show ?thesis
    using value_end_inner [OF first_inner [OF c], of cs "Suc 0"] by (simp add: v)
qed

lemma unmarshal_raw_line:
  assumes "framed v"
  shows "unmarshal_raw (v @ [CHR 0x0A]) = Inr v"
proof -
  have "check_valid (v @ [CHR 0x0A]) = None"
    using framed_run [OF assms] by (simp add: check_valid_def end_top_def is_space_def sc_eof_def)
  moreover have "jtrim (v @ [CHR 0x0A]) = v"
  proof -
    have "ltrim v = v" "v \<noteq> []"
      using assms by (cases v; auto simp: framed_def ltrim_def is_space_def)+
    moreover from this have "ltrim (v @ [CHR 0x0A]) = v @ [CHR 0x0A]"
      by (cases v) (auto simp: ltrim_def split: if_splits dest: dropWhile_eq_Cons_conv [THEN iffD1])
    moreover have "\<not> is_space (last v)" using assms by (simp add: framed_def)
    then have "dropWhile is_space (rev v) = rev v"
      using \<open>v \<noteq> []\<close> by (cases v rule: rev_cases) simp_all
    ultimately show ?thesis by (simp add: jtrim_def is_space_def)
  qed
  ultimately show ?thesis by (simp add: unmarshal_raw_def checked_def)
qed

subsection \<open>The exchange\<close>

lemma http_exchange:
  assumes "ServeHTTP slog h stop cerr \<lparr>hr_content_type = ''application/json'', hr_body = [RData buf]\<rparr> u =
      Some (\<lparr>ht_status = 200, ht_content_type = ''application/json'', ht_body = b @ [CHR 0x0A]\<rparr>, u')"
    and "framed b" "\<not> hb_closed br" "newReq (hb_url br) = None" "ctx_err c = None" "marshal_outgoing m = Inr buf"
  shows "\<exists>br'. transport_call (bridge_transport newReq (http_network slog h stop cerr)) c m False (br, u) = (Inr b, (br', u'))"
  using assms
  by (simp add: transport_call_def bridge_transport_def NewTransportClient_def Bridge_Encode_def Bridge_Decode_def
      http_network_def answer_of_def unmarshal_raw_line)

lemma http_call:
  assumes "sendable_request r" "\<not> Request_IsNotification r"
    and "plain_request h cerr \<lparr>hr_content_type = ''application/json'', hr_body = []\<rparr>"
    and "\<not> hb_closed br" "newReq (hb_url br) = None" "ctx_err c = None"
    and "Handle (hh_handler h) (http_ctx\<lparr>ctx_rpc_server := True\<rparr>) (received_request r) u = (out, u')"
    and "plain_outcome out" "sendable_response (reply_of (received_request r) out)"
  shows "\<exists>br'. Transport_Call (bridge_transport newReq (http_network slog h stop cerr)) c r (br, u) =
    (Inr (received_response (reply_of (received_request r) out)), (br', u'))"
proof -
  obtain buf where buf: "marshal_request r = Inr buf" "framed buf" "HintType buf = TypeObject"
    "unmarshal_request buf = Inr (received_request r)"
    using request_wire [OF assms(1)] by blast
  obtain b where b: "marshal_response (reply_of (received_request r) out) = Inr b" "framed b"
    "unmarshal_response b = Inr (received_response (reply_of (received_request r) out))"
    using response_wire [OF assms(9)] by blast
  let ?req = "\<lparr>hr_content_type = ''application/json'', hr_body = [RData buf]\<rparr>"
  have "plain_request h cerr ?req"
    using assms(3) by (simp add: plain_request_def only_data_def)
  moreover have "\<not> Request_IsNotification (received_request r)"
    using assms(2) by (simp add: Request_IsNotification_def received_request_def received_id_def ID_IsZero_def zero_ID_def)
  ultimately have "ServeHTTP slog h stop cerr ?req u = Some (http_flush (b @ [CHR 0x0A]), u')"
    using single_request [of h cerr ?req buf "[]" "received_request r" u out u' b slog] buf b assms by simp
  from http_exchange [OF this [unfolded http_flush_def, simplified], of br newReq c "OutRequest r"] b(2) assms(4-6) buf(1)
  obtain br' where "transport_call (bridge_transport newReq (http_network slog h stop cerr)) c (OutRequest r) False (br, u) =
      (Inr b, (br', u'))" by auto
  then show ?thesis
    using b(3) by (simp add: Transport_Call_def) (simp add: bridge_transport_def NewTransportClient_def)
qed

subsection \<open>A batch\<close>

lemma requests_wire:
  assumes "\<forall>r \<in> set rs. sendable_request r"
  shows "\<exists>bs. mapM marshal_request rs = Inr bs \<and> (\<forall>b \<in> set bs. array_ready b)
    \<and> list_all2 (\<lambda>b q. unmarshal_request b = Inr q) bs (map received_request rs)"
  using assms
proof (induction rs)
  case (Cons r rs)
  obtain b where "marshal_request r = Inr b" "array_ready b" "unmarshal_request b = Inr (received_request r)"
    using request_wire [of r] Cons.prems by auto
  moreover obtain bs where "mapM marshal_request rs = Inr bs" "\<forall>b \<in> set bs. array_ready b"
    "list_all2 (\<lambda>b q. unmarshal_request b = Inr q) bs (map received_request rs)"
    using Cons by auto
  ultimately show ?case by (intro exI [of _ "b # bs"]) simp
qed simp

lemma responses_wire:
  assumes "\<forall>r \<in> set rs. sendable_response r"
  shows "\<exists>bs. mapM marshal_response rs = Inr bs \<and> (\<forall>b \<in> set bs. array_ready b)
    \<and> mapM set_response_ptr bs = Inr (map (\<lambda>r. (Some (received_response r), None)) rs)"
  using assms
proof (induction rs)
  case (Cons r rs)
  obtain b where "marshal_response r = Inr b" "array_ready b" "set_response_ptr b = Inr (Some (received_response r), None)"
    using response_wire [of r] Cons.prems by auto
  moreover obtain bs where "mapM marshal_response rs = Inr bs" "\<forall>b \<in> set bs. array_ready b"
    "mapM set_response_ptr bs = Inr (map (\<lambda>r. (Some (received_response r), None)) rs)"
    using Cons by auto
  ultimately show ?case by (intro exI [of _ "b # bs"]) simp
qed simp

lemma no_errors_saved: "fold (\<lambda>r e. or_first e (snd r)) (map (\<lambda>r. (f r, None)) rs) None = None"
  by (induction rs) (simp_all add: or_first_def)

lemma unmarshal_responses_wire:
  assumes "bs \<noteq> []" "\<forall>b \<in> set bs. array_ready b" "mapM set_response_ptr bs = Inr (map (\<lambda>r. (Some (f r), None)) rs)"
  shows "unmarshal_responses (json_array bs) = Inr (map (\<lambda>r. Some (f r)) rs)"
  using json_array_wire [OF assms(1,2)] checked_framed [of "json_array bs"] assms(3)
  by (simp add: unmarshal_responses_def no_errors_saved o_def)

lemma mapM_Some: "mapM (\<lambda>r. case r of None \<Rightarrow> z | Some q \<Rightarrow> f q) (map Some rs) = mapM f rs"
  by (induction rs) simp_all

lemma http_call_batch:
  assumes "\<forall>r \<in> set rs. sendable_request r"
    and "plain_request h cerr \<lparr>hr_content_type = ''application/json'', hr_body = []\<rparr>"
    and "\<not> hb_closed br" "newReq (hb_url br) = None" "ctx_err c = None"
    and "outcomes (hh_handler h) (http_ctx\<lparr>ctx_rpc_server := True\<rparr>) (map received_request rs) u = (outs, u')"
    and "list_all plain_outcome outs" "\<forall>r \<in> set (replies (map received_request rs) outs). sendable_response r"
    and "replies (map received_request rs) outs \<noteq> []"
  shows "\<exists>br'. Transport_CallBatch (bridge_transport newReq (http_network slog h stop cerr)) c (map Some rs) (br, u) =
    (Inr (map (\<lambda>r. Some (received_response r)) (replies (map received_request rs) outs)), (br', u'))"
proof -
  let ?rs = "replies (map received_request rs) outs"
  obtain qs where qs: "mapM marshal_request rs = Inr qs" "\<forall>b \<in> set qs. array_ready b"
    "list_all2 (\<lambda>b q. unmarshal_request b = Inr q) qs (map received_request rs)"
    using requests_wire [OF assms(1)] by blast
  obtain bs where bs: "mapM marshal_response ?rs = Inr bs" "\<forall>b \<in> set bs. array_ready b"
    "mapM set_response_ptr bs = Inr (map (\<lambda>r. (Some (received_response r), None)) ?rs)"
    using responses_wire [OF assms(8)] by blast
  have ne: "qs \<noteq> []" "bs \<noteq> []"
    using mapM_length [OF qs(1)] mapM_length [OF bs(1)] assms(9) by (auto simp: replies_def)
  note wq = json_array_wire [OF ne(1) qs(2)] and wb = json_array_wire [OF ne(2) bs(2)]
  let ?req = "\<lparr>hr_content_type = ''application/json'', hr_body = [RData (json_array qs)]\<rparr>"
  have "plain_request h cerr ?req"
    using assms(2) by (simp add: plain_request_def only_data_def)
  then have "ServeHTTP slog h stop cerr ?req u = Some (http_flush (json_array bs @ [CHR 0x0A]), u')"
    using one_batch [of h cerr ?req "json_array qs" "[]" qs "map received_request rs" u outs u' bs slog]
      wq unmarshal_raws_wire [OF ne(1) qs(2)] ne qs(3) assms(6,7) bs(1) by simp
  from http_exchange [OF this [unfolded http_flush_def, simplified], of br newReq c "OutRequests (map Some rs)"]
    wb assms(3-5) qs(1)
  obtain br' where "transport_call (bridge_transport newReq (http_network slog h stop cerr)) c
      (OutRequests (map Some rs)) False (br, u) = (Inr (json_array bs), (br', u'))"
    by (auto simp: mapM_Some)
  from CallBatch_array [OF this] wb have "Transport_CallBatch (bridge_transport newReq (http_network slog h stop cerr)) c (map Some rs) (br, u) =
      (unmarshal_responses (json_array bs), (br', u'))"
    by (simp add: bridge_transport_def NewTransportClient_def)
  then show ?thesis
    using unmarshal_responses_wire [OF ne(2) bs(2,3)] by simp
qed

text \<open>A handler that, in whatever state, leaves the response to a request to the server and gives it
  something that can be sent.\<close>

definition handler_answers :: "'u Handler \<Rightarrow> ctx \<Rightarrow> Request \<Rightarrow> bool" where
  "handler_answers h c r \<longleftrightarrow> (\<forall>u. case Handle h c (received_request r) u of (out, u') \<Rightarrow> plain_outcome out
     \<and> (\<not> Request_IsNotification r \<longrightarrow> sendable_response (reply_of (received_request r) out)))"

text \<open>Which requests are answered: those with an identifier, in order.\<close>

lemma outcomes_length: "outcomes h c qs w = (outs, w') \<Longrightarrow> length outs = length qs"
  by (induction qs arbitrary: w outs) (auto simp: Let_def split: prod.splits)

lemma reply_of_id: "resp_id (reply_of q out) = req_id q"
  by (cases "(q, out)" rule: reply_of.cases) simp_all

lemma replies_ids:
  "length outs = length qs \<Longrightarrow>
   map resp_id (replies qs outs) = map req_id (filter (\<lambda>q. \<not> Request_IsNotification q) qs)"
  by (induction outs qs rule: list_induct2) (simp_all add: replies_def reply_of_id)

lemma received_notification: "Request_IsNotification (received_request r) = Request_IsNotification r"
  by (simp add: Request_IsNotification_def received_request_def received_id_def ID_IsZero_def zero_ID_def)

subsection \<open>The transport client of a connection\<close>

text \<open>One connection read by a stream decoder and written by a stream encoder. Closing a connection
  that is closed is an error, as package net documents for its connections.\<close>

record stream_conn =
  io_dec :: StreamDecoder
  io_enc :: StreamEncoder
  io_sent :: bytes
  io_closed :: bool

definition conn_close :: "stream_conn \<Rightarrow> go_error option \<times> stream_conn" where
  "conn_close w = (if io_closed w then (Some (Sentinel NetErrClosed), w) else (None, w\<lparr>io_closed := True\<rparr>))"

definition NewTransportClientIO :: "stream_conn TransportClient" where
  "NewTransportClientIO = NewTransportClient
     (\<lambda>c v w. case Encoder_Encode (ctx_env c) marshal_outgoing append_write (io_enc w) v (io_sent w) of
        (e, i, b) \<Rightarrow> (e, w\<lparr>io_enc := i, io_sent := b\<rparr>))
     (\<lambda>c w. case Decoder_Decode (ctx_env c) (io_dec w) of (r, d) \<Rightarrow> (r, w\<lparr>io_dec := d\<rparr>))
     (Some (\<lambda>w. Encoder_Close conn_close (io_enc w) w))
     (Some (\<lambda>w. Decoder_Close conn_close (io_dec w) w))"

lemma io_transport_simps [simp]:
  "tc_response NewTransportClientIO = unmarshal_response"
  "tc_Decode NewTransportClientIO c w = (case Decoder_Decode (ctx_env c) (io_dec w) of (r, d) \<Rightarrow> (r, w\<lparr>io_dec := d\<rparr>))"
  "tc_Encode NewTransportClientIO c v w =
     (case Encoder_Encode (ctx_env c) marshal_outgoing append_write (io_enc w) v (io_sent w) of
        (e, i, b) \<Rightarrow> (e, w\<lparr>io_enc := i, io_sent := b\<rparr>))"
  by (simp_all add: NewTransportClientIO_def NewTransportClient_def)

lemma ctx_env_clear [simp]: "env_clear_err (ctx_env c) = None"
  by (simp add: ctx_env_def)

text \<open>A decoder that failed is \<open>dead\<close>: it fails from then on.\<close>

definition dead :: "StreamDecoder \<Rightarrow> bool" where
  "dead i \<longleftrightarrow> jd_err (sd_d i) \<noteq> None"

lemma Decode_dead:
  assumes "dead i" "env_clear_err env = None"
  shows "\<exists>e i'. Decoder_Decode env i = (Inl e, i') \<and> dead i'"
proof -
  define k where "k = (if sd_lr i \<noteq> None then i\<lparr>sd_lr := Some (sd_n i)\<rparr> else i)"
  have "sd_d k = sd_d i" by (simp add: k_def)
  then obtain e1 where "jd_err (sd_d k) = Some e1"
    using assms(1) by (auto simp: dead_def)
  from plain_decode_failed [OF this] this show ?thesis
    using assms(2) by (auto simp: Decoder_Decode_def cancelDecode_def dead_def k_def Let_def split: option.splits)
qed

lemma Decode_fails_dead:
  assumes "Decoder_Decode env i = (Inl e, i')" "env_clear_err env = None"
  shows "dead i'"
proof -
  define j where "j = (if sd_lr i \<noteq> None then i\<lparr>sd_lr := Some (sd_n i)\<rparr> else i)"
  have "\<exists>e1. plain_decode j = (Inl e1, i')"
    using assms by (auto simp: Decoder_Decode_def cancelDecode_def Let_def j_def split: if_splits sum.splits prod.splits)
  then show ?thesis
    using plain_decode_error_stays unfolding dead_def by blast
qed

lemma io_call_dead:
  assumes "dead (io_dec w)"
  shows "\<exists>e w'. transport_call NewTransportClientIO c m False w = (Inl e, w') \<and> dead (io_dec w')"
proof (cases "ctx_err c")
  case None
  obtain e i b where enc: "Encoder_Encode (ctx_env c) marshal_outgoing append_write (io_enc w) m (io_sent w) = (e, i, b)"
    by (metis surj_pair)
  obtain e2 d where "Decoder_Decode (ctx_env c) (io_dec w) = (Inl e2, d)" "dead d"
    using Decode_dead [OF assms ctx_env_clear] by blast
  then show ?thesis
    using None enc assms by (cases e) (simp_all add: transport_call_def)
qed (use assms in simp)

end
