(* ===== verification/StreamServer.thy ===== *)
theory StreamServer
  imports EndToEnd
begin

text \<open>
  The servers rpcserver.go makes from a connection: \<^verbatim>\<open>NewStreamServerFromIO\<close> and
  \<^verbatim>\<open>NewRPCServerFromPacket\<close>, with a whole session of requests on each.
\<close>

subsection \<open>A server on a stream connection\<close>

record 'u stream_world =
  sw_user :: 'u
  sw_conn :: stream_conn

definition io_decoder :: "('u stream_world) Decoder" where
  "io_decoder = \<lparr>
     dec_Decode = (\<lambda>c w. case Decoder_Decode (ctx_env c) (io_dec (sw_conn w)) of
         (Inr raw, d) \<Rightarrow> ((raw, None), w\<lparr>sw_conn := (sw_conn w)\<lparr>io_dec := d\<rparr>\<rparr>)
       | (Inl e, d) \<Rightarrow> (([], Some e), w\<lparr>sw_conn := (sw_conn w)\<lparr>io_dec := d\<rparr>\<rparr>)),
     dec_request = unmarshal_request, dec_raws = unmarshal_raws,
     dec_Close = Some (\<lambda>w. case Decoder_Close conn_close (io_dec (sw_conn w)) (sw_conn w) of
         (e, k) \<Rightarrow> (e, w\<lparr>sw_conn := k\<rparr>))\<rparr>"

definition io_encoder :: "('u stream_world) Encoder" where
  "io_encoder = \<lparr>
     enc_Encode = (\<lambda>c v w. case Encoder_Encode (ctx_env c) marshal_outval append_write
           (io_enc (sw_conn w)) v (io_sent (sw_conn w)) of
         (e, i, b) \<Rightarrow> (e, w\<lparr>sw_conn := (sw_conn w)\<lparr>io_enc := i, io_sent := b\<rparr>\<rparr>)),
     enc_Close = Some (\<lambda>w. case Encoder_Close conn_close (io_enc (sw_conn w)) (sw_conn w) of
         (e, k) \<Rightarrow> (e, w\<lparr>sw_conn := k\<rparr>))\<rparr>"

definition on_user :: "'u Handler \<Rightarrow> ('w \<Rightarrow> 'u) \<Rightarrow> ('u \<Rightarrow> 'w \<Rightarrow> 'w) \<Rightarrow> 'w Handler" where
  "on_user h get put = FuncHandler (\<lambda>c r w. case Handle h c r (get w) of (out, u) \<Rightarrow> (out, put u w))"

definition NewStreamServerFromIO :: "'u slog \<Rightarrow> 'u Handler \<Rightarrow> ('u stream_world) RPCServer" where
  "NewStreamServerFromIO slog h =
     NewStreamServer (\<lambda>c m attrs w. w\<lparr>sw_user := slog c m attrs (sw_user w)\<rparr>) io_decoder io_encoder
       (on_user h sw_user (\<lambda>u w. w\<lparr>sw_user := u\<rparr>))"

lemma stream_server_simps [simp]:
  "pd_request (rp_decoder (NewStreamServerFromIO slog h)) = unmarshal_request"
  "runOnExit (rp_Callbacks (NewStreamServerFromIO slog h)) c e w = w"
  by (simp_all add: NewStreamServerFromIO_def NewStreamServer_def newRPCServer_def decoderShim_def io_decoder_def runOnExit_def)

lemma stream_DecodeFrom:
  "pd_DecodeFrom (rp_decoder (NewStreamServerFromIO slog h)) c w =
     (case Decoder_Decode (ctx_env c) (io_dec (sw_conn w)) of
        (Inr raw, d) \<Rightarrow> ((None, raw, None), w\<lparr>sw_conn := (sw_conn w)\<lparr>io_dec := d\<rparr>\<rparr>)
      | (Inl e, d) \<Rightarrow> ((None, [], Some e), w\<lparr>sw_conn := (sw_conn w)\<lparr>io_dec := d\<rparr>\<rparr>))"
  by (auto simp: NewStreamServerFromIO_def NewStreamServer_def newRPCServer_def decoderShim_def io_decoder_def
      split: prod.splits sum.splits)

lemma stream_EncodeTo:
  "pe_EncodeTo (rp_encoder (NewStreamServerFromIO slog h)) c v src w =
     (case Encoder_Encode (ctx_env c) marshal_outval append_write (io_enc (sw_conn w)) v (io_sent (sw_conn w)) of
        (e, i, b) \<Rightarrow> (e, w\<lparr>sw_conn := (sw_conn w)\<lparr>io_enc := i, io_sent := b\<rparr>\<rparr>))"
  by (simp add: NewStreamServerFromIO_def NewStreamServer_def newRPCServer_def encoderShim_def io_encoder_def)

lemma stream_Close:
  "sw_user (snd (RPCServer_Close (NewStreamServerFromIO slog h) w)) = sw_user w"
  "io_sent (sw_conn (snd (RPCServer_Close (NewStreamServerFromIO slog h) w))) = io_sent (sw_conn w)"
  by (auto simp: RPCServer_Close_def NewStreamServerFromIO_def NewStreamServer_def newRPCServer_def
      decoderShim_def encoderShim_def io_decoder_def io_encoder_def close_if_def Decoder_Close_def Encoder_Close_def
      conn_close_def)

interpretation conn_side: stream_side "NewStreamServerFromIO slog h" h
    "\<lambda>w. io_dec (sw_conn w)" "\<lambda>d w. w\<lparr>sw_conn := (sw_conn w)\<lparr>io_dec := d\<rparr>\<rparr>" "\<lambda>w. io_enc (sw_conn w)"
    "\<lambda>w. io_sent (sw_conn w)" "\<lambda>b w. w\<lparr>sw_conn := (sw_conn w)\<lparr>io_sent := b\<rparr>\<rparr>" sw_user "\<lambda>u w. w\<lparr>sw_user := u\<rparr>"
  for slog :: "'u slog" and h :: "'u Handler"
proof unfold_locales
  fix w :: "'u stream_world" and v b c src
  assume "se_err (io_enc (sw_conn w)) = None" "marshal_outval v = Inr b"
  then show "pe_EncodeTo (rp_encoder (NewStreamServerFromIO slog h)) c v src w =
      (None, w\<lparr>sw_conn := (sw_conn w)\<lparr>io_sent := io_sent (sw_conn w) @ b @ [CHR 0x0A]\<rparr>\<rparr>)"
    using Encode_append [of "io_enc (sw_conn w)" "ctx_env c" marshal_outval v "io_sent (sw_conn w)"]
    by (auto simp: stream_EncodeTo written_def)
next
  fix w :: "'u stream_world" and c q
  show "Handle (rp_Handler (NewStreamServerFromIO slog h)) c q w =
      (case Handle h c q (sw_user w) of (out, u) \<Rightarrow> (out, w\<lparr>sw_user := u\<rparr>))"
    by (simp add: NewStreamServerFromIO_def NewStreamServer_def newRPCServer_def on_user_def)
qed (simp_all add: stream_DecodeFrom)

subsection \<open>A session from end to end\<close>

lemma requests_lines:
  assumes "\<forall>r \<in> set rs. sendable_request r"
  shows "\<exists>vs. mapM marshal_request rs = Inr vs \<and> (\<forall>v \<in> set vs. framed v \<and> HintType v = TypeObject)
    \<and> list_all2 (\<lambda>v q. unmarshal_request v = Inr q) vs (map received_request rs)"
  using assms
proof (induction rs)
  case (Cons r rs)
  obtain b where "marshal_request r = Inr b" "framed b" "HintType b = TypeObject" "unmarshal_request b = Inr (received_request r)"
    using request_wire [of r] Cons.prems by auto
  moreover obtain vs where "mapM marshal_request rs = Inr vs" "\<forall>v \<in> set vs. framed v \<and> HintType v = TypeObject"
    "list_all2 (\<lambda>v q. unmarshal_request v = Inr q) vs (map received_request rs)"
    using Cons by auto
  ultimately show ?case by (intro exI [of _ "b # vs"]) simp
qed simp

lemma responses_lines:
  assumes "\<forall>r \<in> set rs. sendable_response r"
  shows "\<exists>bs. mapM marshal_response rs = Inr bs \<and> (\<forall>b \<in> set bs. framed b)
    \<and> mapM unmarshal_response bs = Inr (map received_response rs)"
  using assms
proof (induction rs)
  case (Cons r rs)
  obtain b where "marshal_response r = Inr b" "framed b" "unmarshal_response b = Inr (received_response r)"
    using response_wire [of r] Cons.prems by auto
  moreover obtain bs where "mapM marshal_response rs = Inr bs" "\<forall>b \<in> set bs. framed b"
    "mapM unmarshal_response bs = Inr (map received_response rs)"
    using Cons by auto
  ultimately show ?case by (intro exI [of _ "b # bs"]) simp
qed simp

text \<open>What the client's encoder wrote for the requests.\<close>

lemma encoded_requests:
  assumes "mapM marshal_request rs = Inr vs" "se_err i = None" "env_clear_err env = None"
  shows "snd (encode_seq (map (\<lambda>r. (env, OutRequest r)) rs) marshal_outgoing i w) = w @ concat (map line_of vs)"
proof -
  have "concat (map (written marshal_outgoing \<circ> snd) (map (\<lambda>r. (env, OutRequest r)) rs)) = vs"
    using assms(1) by (induction rs arbitrary: vs) (auto simp: written_def rbind_Inr_iff rmap_Inr_iff)
  then show ?thesis
    using encode_seq_written [OF assms(2), of "map (\<lambda>r. (env, OutRequest r)) rs" marshal_outgoing w] assms(3)
    by (auto simp: line_of_def [abs_def])
qed

lemma stream_run:
  assumes "\<forall>w. cerr w = None" "healthy (io_dec k)" "se_err (io_enc k) = None" "io_sent k = []"
    and "sd_pending (io_dec k) = concat (map line_of vs)"
    and "\<forall>v \<in> set vs. framed v \<and> HintType v = TypeObject"
    and "list_all2 (\<lambda>v q. unmarshal_request v = Inr q) vs qs"
    and "outcomes h (c\<lparr>ctx_rpc_server := True, ctx_err := None\<rparr>) qs u = (outs, u')" "list_all plain_outcome outs"
    and "mapM marshal_response (replies qs outs) = Inr bs"
  shows "\<exists>e w'. Run_sync ((NewStreamServerFromIO slog h)\<lparr>NoRoutines := True\<rparr>) gather cerr c \<lparr>sw_user = u, sw_conn = k\<rparr> = Some (e, w')
    \<and> is_err e EOF \<and> sw_user w' = u' \<and> io_sent (sw_conn w') = concat (map line_of bs)"
proof -
  let ?rp = "NewStreamServerFromIO slog h" and ?w = "\<lparr>sw_user = u, sw_conn = k\<rparr>"
  have "internal_ctx cerr False c ?w = c\<lparr>ctx_rpc_server := True, ctx_err := None\<rparr>"
    using assms(1) by (simp add: internal_ctx_def)
  then have "\<exists>e w'. run_loop ?rp gather cerr c ?w = Some (e, w') \<and> is_err (Some e) EOF
      \<and> io_sent (sw_conn w') = io_sent (sw_conn ?w) @ concat (map line_of bs) \<and> sw_user w' = u'"
    by (intro conn_side.session [where sp = "[]" and vs = vs and qs = qs and outs = outs]) (use assms in simp_all)
  then obtain e w1 where w1: "run_loop ?rp gather cerr c ?w = Some (e, w1)" "is_err (Some e) EOF"
    "io_sent (sw_conn w1) = concat (map line_of bs)" "sw_user w1 = u'"
    using assms(4) by auto
  obtain e2 w2 where "RPCServer_Close ?rp w1 = (e2, w2)" by fastforce
  then show ?thesis
    using w1 stream_Close [of slog h w1] by (simp add: Run_sync_NoRoutines finish_def is_err_join)
qed

subsection \<open>A server on a packet connection\<close>

text \<open>The connection gives its datagrams, each with its sender or an error, and is then closed.\<close>

record 'u packet_world =
  pw_user :: 'u
  pw_in :: "(bytes \<times> bytes option \<times> go_error option) list"
  pw_sent :: "(bytes \<times> bytes option) list"
  pw_closed :: bool

definition packet_recv :: "'u packet_world \<Rightarrow> (bytes \<times> bytes option \<times> go_error option) \<times> 'u packet_world" where
  "packet_recv w = (case pw_in w of
     [] \<Rightarrow> (([], None, Some (Sentinel NetErrClosed)), w)
   | x # xs \<Rightarrow> (x, w\<lparr>pw_in := xs\<rparr>))"

definition packet_send :: "bytes \<Rightarrow> bytes option \<Rightarrow> 'u packet_world \<Rightarrow> go_error option \<times> 'u packet_world" where
  "packet_send b addr w = (None, w\<lparr>pw_sent := pw_sent w @ [(b, addr)]\<rparr>)"

definition packet_close :: "'u packet_world \<Rightarrow> go_error option \<times> 'u packet_world" where
  "packet_close w = (if pw_closed w then (Some (Sentinel NetErrClosed), w) else (None, w\<lparr>pw_closed := True\<rparr>))"

definition packet_env_of :: "ctx \<Rightarrow> packet_env" where
  "packet_env_of c = \<lparr>env_clear_err = None, env_ctx_err = ctx_err c, penv_fired = (ctx_err c \<noteq> None)\<rparr>"

text \<open>The codecs of a packet connection: \<open>recv\<close> is its \<^verbatim>\<open>ReadFrom\<close>, \<open>send\<close> its \<^verbatim>\<open>WriteTo\<close>.\<close>

definition NewPacketDecoder :: "('w \<Rightarrow> (bytes \<times> bytes option \<times> go_error option) \<times> 'w)
    \<Rightarrow> ('w \<Rightarrow> go_error option \<times> 'w) \<Rightarrow> 'w PacketDecoder" where
  "NewPacketDecoder recv close = \<lparr>
     pd_DecodeFrom = (\<lambda>c w. PacketConn_DecodeFrom (packet_env_of c) recv NewPacketConnDecoder w),
     pd_request = unmarshal_request, pd_raws = unmarshal_raws,
     pd_Close = Some (PacketDecoder_Close close), pd_shim = False\<rparr>"

definition NewPacketEncoder :: "(bytes \<Rightarrow> bytes option \<Rightarrow> 'w \<Rightarrow> go_error option \<times> 'w)
    \<Rightarrow> ('w \<Rightarrow> go_error option \<times> 'w) \<Rightarrow> 'w PacketEncoder" where
  "NewPacketEncoder send close = \<lparr>
     pe_EncodeTo = (\<lambda>c v addr w. PacketConn_EncodeTo (packet_env_of c) marshal_outval send
       NewPacketConnEncoder v addr w),
     pe_Close = Some (PacketEncoder_Close close)\<rparr>"

definition packet_decoder :: "('u packet_world) PacketDecoder" where
  "packet_decoder = NewPacketDecoder packet_recv packet_close"

definition packet_encoder :: "('u packet_world) PacketEncoder" where
  "packet_encoder = NewPacketEncoder packet_send packet_close"

definition NewRPCServerFromPacket :: "'u slog \<Rightarrow> 'u Handler \<Rightarrow> ('u packet_world) RPCServer" where
  "NewRPCServerFromPacket slog h =
     NewPacketServer (\<lambda>c m attrs w. w\<lparr>pw_user := slog c m attrs (pw_user w)\<rparr>) packet_decoder packet_encoder
       (on_user h pw_user (\<lambda>u w. w\<lparr>pw_user := u\<rparr>))"

text \<open>What a packet server is to answer to one datagram of one message: the reference the server
  is compared with.\<close>

definition parse_error :: "bytes \<Rightarrow> Response" where
  "parse_error m = NewResponseError (RpcErr (Error_WithData ErrParseError (GStr (error_text (SyntaxErr m)))))"

definition packet_answer :: "'u Handler \<Rightarrow> ctx \<Rightarrow> bytes \<Rightarrow> 'u \<Rightarrow> Response list \<times> 'u" where
  "packet_answer h c d u =
     (case check_valid d of
        Some m \<Rightarrow> ([parse_error m], u)
      | None \<Rightarrow>
        if HintType (jtrim d) \<noteq> TypeObject then ([NewResponseError (RpcErr ErrParseError)], u)
        else (case unmarshal_request (jtrim d) of
            Inl e \<Rightarrow> ([invalid_request e], u)
          | Inr q \<Rightarrow> (case Handle h c q u of
              (out, u') \<Rightarrow> (if Request_IsNotification q then [] else [reply_of q out], u'))))"

fun packet_answers :: "'u Handler \<Rightarrow> ctx \<Rightarrow> (bytes \<times> bytes option) list \<Rightarrow> 'u
    \<Rightarrow> (Response \<times> bytes option) list \<times> 'u" where
  "packet_answers h c [] u = ([], u)"
| "packet_answers h c ((d, addr) # ds) u =
     (let (rs, u1) = packet_answer h (if addr \<noteq> None then c\<lparr>ctx_from_addr := addr\<rparr> else c) d u;
          (rest, u2) = packet_answers h c ds u1
      in (map (\<lambda>r. (r, addr)) rs @ rest, u2))"

lemma packet_server_simps [simp]:
  "pd_request (rp_decoder (NewRPCServerFromPacket slog h)) = unmarshal_request"
  "\<not> pd_shim (rp_decoder (NewRPCServerFromPacket slog h))"
  "rp_Handler (NewRPCServerFromPacket slog h) = on_user h pw_user (\<lambda>u w. w\<lparr>pw_user := u\<rparr>)"
  "runOnExit (rp_Callbacks (NewRPCServerFromPacket slog h)) c x w = w"
  "runOnDecodingError (rp_Callbacks (NewRPCServerFromPacket slog h)) c m e w = w"
  "runOnEncodingError (rp_Callbacks (NewRPCServerFromPacket slog h)) c v e w = w"
  by (simp_all add: NewRPCServerFromPacket_def NewPacketServer_def newRPCServer_def packet_decoder_def NewPacketDecoder_def
      runOnExit_def runOnDecodingError_def runOnEncodingError_def)

lemma packet_Close:
  "pw_user (snd (RPCServer_Close (NewRPCServerFromPacket slog h) w)) = pw_user w"
  "pw_sent (snd (RPCServer_Close (NewRPCServerFromPacket slog h) w)) = pw_sent w"
  by (auto simp: RPCServer_Close_def NewRPCServerFromPacket_def NewPacketServer_def newRPCServer_def close_if_def
      packet_decoder_def NewPacketDecoder_def packet_encoder_def NewPacketEncoder_def PacketDecoder_Close_def PacketEncoder_Close_def packet_close_def)

lemma packet_EncodeTo:
  assumes "ctx_err c = None" "marshal_outval v = Inr b"
  shows "pe_EncodeTo (rp_encoder (NewRPCServerFromPacket slog h)) c v addr w = (None, w\<lparr>pw_sent := pw_sent w @ [(b, addr)]\<rparr>)"
  using assms
  by (simp add: NewRPCServerFromPacket_def NewPacketServer_def newRPCServer_def packet_encoder_def NewPacketEncoder_def
      PacketConn_EncodeTo_def packet_env_of_def packet_send_def)

lemma packet_DecodeFrom:
  assumes "ctx_err c = None" "pw_in w = (d, addr, None) # xs" "length d \<le> 65507"
  shows "pd_DecodeFrom (rp_decoder (NewRPCServerFromPacket slog h)) c w =
    (case check_valid d of
       Some m \<Rightarrow> ((addr, [], Some (SyntaxErr m)), w\<lparr>pw_in := xs\<rparr>)
     | None \<Rightarrow> ((addr, jtrim d, None), w\<lparr>pw_in := xs\<rparr>))"
  using assms
  by (simp add: NewRPCServerFromPacket_def NewPacketServer_def newRPCServer_def packet_decoder_def NewPacketDecoder_def
      PacketConn_DecodeFrom_def packet_env_of_def packet_recv_def NewPacketConnDecoder_def DefaultPacketBufferSize_def
      unmarshal_raw_def checked_def Let_def split: option.split)

lemma packet_closed:
  assumes "ctx_err c = None" "pw_in w = []"
  shows "read_message (NewRPCServerFromPacket slog h) c w = NExit (Sentinel NetErrClosed) w"
  using assms
  by (simp add: read_message_def NewRPCServerFromPacket_def NewPacketServer_def newRPCServer_def packet_decoder_def NewPacketDecoder_def
      PacketConn_DecodeFrom_def packet_env_of_def packet_recv_def NewPacketConnDecoder_def Let_def)

lemma check_valid_nonempty:
  assumes "check_valid d = None"
  shows "jtrim d \<noteq> []"
proof -
  obtain c s where "ltrim d = c # s" "value_start c"
    using valid_start [of d] assms by (auto simp: json_valid_def)
  then show ?thesis using jtrim_first start_not_space by fastforce
qed

lemma mapM_append_Inr:
  "mapM f (xs @ ys) = Inr zs \<longleftrightarrow> (\<exists>as bs. mapM f xs = Inr as \<and> mapM f ys = Inr bs \<and> zs = as @ bs)"
proof (induction xs arbitrary: zs)
  case (Cons x xs)
  then show ?case by (auto simp: rbind_Inr_iff rmap_Inr_iff)
qed simp

text \<open>One datagram: what the server sends for it, in whatever way the message was handled.\<close>

lemma packet_handles:
  assumes "ctx_err c = None" "plain_outcome out" "Handle h c q (pw_user w) = (out, u)"
    and "unmarshal_request v = Inr q" "mapM marshal_response (if Request_IsNotification q then [] else [reply_of q out]) = Inr bs"
  shows "runRequest (NewRPCServerFromPacket slog h) c v addr w =
    w\<lparr>pw_user := u, pw_sent := pw_sent w @ map (\<lambda>b. (b, addr)) bs\<rparr>"
proof -
  let ?rp = "NewRPCServerFromPacket slog h"
  have dec: "pd_request (rp_decoder ?rp) v = Inr q" using assms(4) by simp
  have h: "Handle (rp_Handler ?rp) c q w = (out, w\<lparr>pw_user := u\<rparr>)"
    using assms(3) by (simp add: on_user_def)
  show ?thesis
  proof (cases "Request_IsNotification q")
    case True
    with dec h assms(2,5) show ?thesis
      by (cases "(q, out)" rule: reply_of.cases) (simp_all add: runRequest_def handleRequest_def)
  next
    case False
    then obtain b where b: "marshal_response (reply_of q out) = Inr b" "bs = [b]"
      using assms(5) by (auto simp: rbind_Inr_iff rmap_Inr_iff)
    have "handleRequest ?rp c v w = (Some (OutResponse (Some (reply_of q out))), w\<lparr>pw_user := u\<rparr>)"
      by (rule handleRequest_reply [OF dec False h assms(2)])
    with b assms(1) show ?thesis
      by (simp add: runRequest_def encode_or_report_def packet_EncodeTo)
  qed
qed

lemma packet_reports:
  "ctx_err c = None \<Longrightarrow> marshal_outval v = Inr b \<Longrightarrow>
   encode_or_report (NewRPCServerFromPacket slog h) c v addr w = w\<lparr>pw_sent := pw_sent w @ [(b, addr)]\<rparr>"
  by (simp add: encode_or_report_def packet_EncodeTo)

lemma packet_dispatch:
  "run rp gather c v addr w =
     (let c = (if addr \<noteq> None then c\<lparr>ctx_from_addr := addr\<rparr> else c) in
      case HintType v of
        TypeArray \<Rightarrow> runRequests rp (gather c) c v addr w
      | TypeObject \<Rightarrow> runRequest rp c v addr w
      | _ \<Rightarrow> runOnDecodingError (rp_Callbacks rp) c v (RpcErr ErrParseError)
          (encode_or_report rp c (OutResponse (Some (NewResponseError (RpcErr ErrParseError)))) addr w))"
  unfolding run_def Let_def by (rule refl)

lemma packet_message:
  assumes "ctx_err c = None" "plain_handler h" "check_valid d = None" "HintType (jtrim d) \<noteq> TypeArray"
    and "packet_answer h (if addr \<noteq> None then c\<lparr>ctx_from_addr := addr\<rparr> else c) d (pw_user w) = (rs, u)"
    and "mapM marshal_response rs = Inr bs"
  shows "run (NewRPCServerFromPacket slog h) gather c (jtrim d) addr w =
    w\<lparr>pw_user := u, pw_sent := pw_sent w @ map (\<lambda>b. (b, addr)) bs\<rparr>"
proof -
  let ?rp = "NewRPCServerFromPacket slog h"
  define cx where "cx = (if addr \<noteq> None then c\<lparr>ctx_from_addr := addr\<rparr> else c)"
  have live: "ctx_err cx = None" using assms(1) by (simp add: cx_def)
  note answer = assms(5) [folded cx_def] and dispatch = packet_dispatch [of ?rp gather c "jtrim d" addr w, folded cx_def]
  show ?thesis
  proof (cases "HintType (jtrim d) = TypeObject")
    case object: True
    show ?thesis
    proof (cases "unmarshal_request (jtrim d)")
      case (Inl e)
      then obtain b where b: "marshal_response (invalid_request e) = Inr b" "bs = [b]" "u = pw_user w"
        using assms(3,6) answer object by (auto simp: packet_answer_def rbind_Inr_iff rmap_Inr_iff)
      have "handleRequest ?rp cx (jtrim d) w = (Some (OutResponse (Some (invalid_request e))), w)"
        using Inl by (simp add: handleRequest_def)
      with b live object show ?thesis
        by (simp add: dispatch runRequest_def packet_reports)
    next
      case (Inr q)
      obtain out u1 where out: "Handle h cx q (pw_user w) = (out, u1)" by fastforce
      then have "rs = (if Request_IsNotification q then [] else [reply_of q out])" "u1 = u"
        using assms(3) answer object Inr by (auto simp: packet_answer_def)
      moreover have "plain_outcome out"
        using assms(2) out by (metis plain_handler_def fst_conv)
      ultimately have "runRequest ?rp cx (jtrim d) addr w =
          w\<lparr>pw_user := u, pw_sent := pw_sent w @ map (\<lambda>b. (b, addr)) bs\<rparr>"
        using packet_handles [OF live _ out Inr, of bs slog addr] assms(6) by simp
      with object show ?thesis by (simp add: dispatch)
    qed
  next
    case False
    then obtain b where "marshal_response (NewResponseError (RpcErr ErrParseError)) = Inr b" "bs = [b]" "u = pw_user w"
      using assms(3,6) answer by (auto simp: packet_answer_def rbind_Inr_iff rmap_Inr_iff)
    with live False assms(4) show ?thesis
      by (simp add: dispatch packet_reports split: TypeHint.split)
  qed
qed

lemma packet_run:
  assumes "\<forall>w. cerr w = None" "plain_handler h" "sc = c\<lparr>ctx_rpc_server := True, ctx_err := None\<rparr>"
    and "pw_in w = map (\<lambda>(d, addr). (d, addr, None)) ds"
    and "\<forall>(d, addr) \<in> set ds. length d \<le> 65507 \<and> HintType (jtrim d) \<noteq> TypeArray"
    and "packet_answers h sc ds (pw_user w) = (rs, u)" "mapM marshal_response (map fst rs) = Inr bs"
  shows "\<exists>w'. run_loop (NewRPCServerFromPacket slog h) gather cerr c w = Some (Sentinel NetErrClosed, w')
    \<and> pw_sent w' = pw_sent w @ zip bs (map snd rs) \<and> pw_user w' = u"
  using assms(4-)
proof (induction ds arbitrary: w rs bs)
  let ?rp = "NewRPCServerFromPacket slog h"
  have ctx: "internal_ctx cerr False c w1 = sc" for w1
    using assms(1,3) by (simp add: internal_ctx_def)
  have live: "ctx_err sc = None" using assms(3) by simp
  {
    case Nil
    then show ?case
      using run_loop_exit [of ?rp cerr c w "Sentinel NetErrClosed" w gather] packet_closed [of sc w slog h] live ctx
      by simp
  next
    case (Cons da ds)
    obtain d addr where da: "da = (d, addr)" by (cases da)
    let ?w = "w\<lparr>pw_in := map (\<lambda>(d, addr). (d, addr, None)) ds\<rparr>"
    obtain rs1 u1 where rs1: "packet_answer h (if addr \<noteq> None then sc\<lparr>ctx_from_addr := addr\<rparr> else sc) d (pw_user w) = (rs1, u1)"
      by fastforce
    obtain rs2 where rs2: "packet_answers h sc ds u1 = (rs2, u)" "rs = map (\<lambda>r. (r, addr)) rs1 @ rs2"
      using Cons.prems(3) da rs1 by (cases "packet_answers h sc ds u1") auto
    obtain bs1 bs2 where bs: "mapM marshal_response rs1 = Inr bs1" "mapM marshal_response (map fst rs2) = Inr bs2" "bs = bs1 @ bs2"
      using Cons.prems(4) rs2(2) by (auto simp: mapM_append_Inr o_def)
    define w2 where "w2 = ?w\<lparr>pw_user := u1, pw_sent := pw_sent w @ map (\<lambda>b. (b, addr)) bs1\<rparr>"
    have read: "pd_DecodeFrom (rp_decoder ?rp) sc w =
        (case check_valid d of Some m \<Rightarrow> ((addr, [], Some (SyntaxErr m)), ?w) | None \<Rightarrow> ((addr, jtrim d, None), ?w))"
      using packet_DecodeFrom [OF live, of w d addr] Cons.prems(1,2) da by simp
    have step: "run_loop ?rp gather cerr c w = run_loop ?rp gather cerr c w2"
    proof (cases "check_valid d")
      case (Some m)
      then have "rs1 = [parse_error m]" "u1 = pw_user w"
        using rs1 by (simp_all add: packet_answer_def)
      with bs(1) obtain b where "marshal_response (parse_error m) = Inr b" "bs1 = [b]"
        by (auto simp: rbind_Inr_iff rmap_Inr_iff)
      then have "read_message ?rp sc w = NSkip w2"
        using Some read live \<open>u1 = pw_user w\<close>
        by (simp add: read_message_def packet_EncodeTo parse_error_def w2_def)
      then show ?thesis
        using run_loop_skip [of ?rp cerr c w] ctx by simp
    next
      case None
      then have "jtrim d \<noteq> []" using check_valid_nonempty by blast
      then have "read_message ?rp sc w = NMessage (jtrim d) addr ?w"
        using None read by (simp add: read_message_def)
      moreover have "run ?rp gather sc (jtrim d) addr ?w = w2"
        using packet_message [OF live assms(2) None, of addr ?w rs1 u1 bs1 slog gather] Cons.prems(2) da rs1 bs(1)
        by (simp add: w2_def)
      ultimately show ?thesis
        using run_loop_message [of ?rp cerr c w "jtrim d" addr ?w gather] ctx by simp
    qed
    have "\<exists>w'. run_loop ?rp gather cerr c w2 = Some (Sentinel NetErrClosed, w')
        \<and> pw_sent w' = pw_sent w2 @ zip bs2 (map snd rs2) \<and> pw_user w' = u"
      by (rule Cons.IH) (use Cons.prems(2) rs2 bs in \<open>simp_all add: w2_def\<close>)
    moreover have "length bs1 = length rs1" using mapM_length [OF bs(1)] by simp
    then have "zip bs (map snd rs) = map (\<lambda>b. (b, addr)) bs1 @ zip bs2 (map snd rs2)"
      by (simp add: bs(3) rs2(2) o_def zip_append) (induction bs1 rs1 rule: list_induct2; simp)
    ultimately show ?case using step by (simp add: w2_def)
  }
qed

end
