(* ===== verification/MessageProps.thy ===== *)
theory MessageProps
  imports EndToEnd
begin

text \<open>
  The properties of messages: their round trips over the wire, identifiers, the members that
  decide the kind of a request, batches and their correlation.
\<close>

section \<open>Round trips\<close>

text \<open>C13: A request or notification that was encoded decodes to the same message: the method, the
  identifier as the wire writes it, and the parameters as raw text; and it is a notification for the
  receiver exactly when it is one for the sender.\<close>

theorem request_roundtrip:
  assumes "sendable_request r"
  shows "\<exists>b. marshal_request r = Inr b \<and> HintType b = TypeObject \<and> unmarshal_request b = Inr (received_request r)
    \<and> Request_IsNotification (received_request r) = Request_IsNotification r"
  using request_wire [OF assms] received_notification [of r] by blast

definition add_request :: Request where
  "add_request = NewRequestWithParams (IdInt 7) ''add'' (NewParamsRaw ''[1, 2]'')"

lemma add_sendable: "sendable_request add_request"
  by code_simp

theorem request_roundtrip_witness:
  "\<exists>b. marshal_request add_request = Inr b \<and> unmarshal_request b =
     Inr \<lparr>req_jsonrpc = \<lparr>ver_present = True\<rparr>, req_method = ''add'', req_params = NewParamsRaw ''[1,2]'',
          req_id = NewID (IdNum ''7'')\<rparr>"
proof -
  have "received_request add_request = \<lparr>req_jsonrpc = \<lparr>ver_present = True\<rparr>, req_method = ''add'',
      req_params = NewParamsRaw ''[1,2]'', req_id = NewID (IdNum ''7'')\<rparr>"
    by code_simp
  with request_roundtrip [OF add_sendable] show ?thesis by auto
qed

text \<open>C14: A response that was encoded decodes to the same response: its result or its error, with code,
  message and data, and the identifier as the wire writes it, whose absence is null.\<close>

theorem response_roundtrip:
  assumes "sendable_response r"
  shows "\<exists>b. marshal_response r = Inr b \<and> unmarshal_response b = Inr (received_response r)
    \<and> Response_IsError (received_response r) = Response_IsError r"
proof -
  have "Response_IsError (received_response r) = Response_IsError r"
    by (simp add: Response_IsError_def received_response_def received_error_def Error_IsZero_def zero_error_def)
  then show ?thesis using response_wire [OF assms] by blast
qed

definition bad_params :: Response where
  "bad_params = NewResponseWithError (IdStr ''a'') (RpcErr (Error_WithData ErrInvalidParams (GStr ''no <x>'')))"

lemma bad_params_sendable: "sendable_response bad_params"
  by code_simp

theorem response_roundtrip_witness:
  "\<exists>b. marshal_response bad_params = Inr b \<and> (\<exists>r. unmarshal_response b = Inr r
     \<and> err_code (resp_error r) = -32602 \<and> resp_id r = NewID (IdStr ''a''))"
proof -
  have "err_code (resp_error (received_response bad_params)) = -32602
      \<and> resp_id (received_response bad_params) = NewID (IdStr ''a'')"
    by (simp add: received_response_def bad_params_def NewResponseWithError_def received_error_def
        received_id_def asError_def Error_IsZero_def)
  with response_roundtrip [OF bad_params_sendable] show ?thesis by blast
qed

section \<open>Identifiers\<close>

text \<open>An identifier survives the wire: what a peer decodes from it equals it, in both
  directions, and the identifier the peer sends back, decoded again, still does.\<close>

theorem id_survives_wire:
  assumes "id_present i" "wf_idval (id_value i)"
  shows "\<exists>b j c k. ID_MarshalJSON i = Inr b \<and> ID_UnmarshalJSON zero_ID b = Inr j \<and> ID_Equal i j \<and> ID_Equal j i
    \<and> ID_MarshalJSON j = Inr c \<and> ID_UnmarshalJSON zero_ID c = Inr k \<and> ID_Equal i k"
proof -
  note eq = received_id_equal [OF assms]
  obtain b where b: "ID_MarshalJSON i = Inr b" using ID_MarshalJSON_wf [OF assms] by blast
  have j: "ID_UnmarshalJSON zero_ID b = Inr (received_id i)"
    using ID_wire [OF assms b] assms(1) by (simp add: received_id_def)
  have "id_present (received_id i)" "wf_idval (id_value (received_id i))"
    using received_wf [OF assms(2)] by (simp_all add: received_id_def NewNullID_def)
  then obtain c where c: "ID_MarshalJSON (received_id i) = Inr c" "ID_UnmarshalJSON zero_ID c = Inr (received_id i)"
    using ID_MarshalJSON_wf [of "received_id i"] ID_wire [of "received_id i"] received_id_twice [of i]
    by (auto simp: received_id_def)
  show ?thesis
    using b j c eq ID_Equal_sym [of i] by blast
qed

theorem id_survives_wire_witness:
  "\<exists>b j. ID_MarshalJSON (NewID (IdInt (-12))) = Inr b \<and> ID_UnmarshalJSON zero_ID b = Inr j
     \<and> ID_Equal (NewID (IdInt (-12))) j"
  using id_survives_wire [of "NewID (IdInt (-12))"] by (auto simp: in_int64_def)

text \<open>C35: Equality of identifiers is symmetric, and reflexive on those that are present, but it is
  not transitive: the number literals 0 and -0 both equal the integer 0 and differ from each other.\<close>

theorem id_equal_not_transitive:
  "(\<forall>i t. ID_Equal i t = ID_Equal t i) \<and> (\<forall>i. ID_Equal i i = id_present i)
   \<and> ID_Equal (NewID (IdNum ''0'')) (NewID (IdInt 0)) \<and> ID_Equal (NewID (IdInt 0)) (NewID (IdNum ''-0''))
   \<and> \<not> ID_Equal (NewID (IdNum ''0'')) (NewID (IdNum ''-0''))"
proof -
  have "ID_Equal (NewID (IdNum ''0'')) (NewID (IdInt 0))" "ID_Equal (NewID (IdInt 0)) (NewID (IdNum ''-0''))"
    "\<not> ID_Equal (NewID (IdNum ''0'')) (NewID (IdNum ''-0''))"
    by code_simp+
  then show ?thesis using ID_Equal_sym ID_Equal_refl by blast
qed

section \<open>What a text is taken for\<close>

text \<open>On valid JSON the type hint, by which the server tells requests from batches and the client
  one response from many, is the kind of the value.\<close>

theorem hint_is_kind:
  assumes "json_valid d"
  shows "hint_kind (HintType d) = Some (kind_of (jtrim d))"
  by (rule HintType_kind [OF assms])

theorem hint_is_kind_witness:
  "hint_kind (HintType '' [1]'') = Some KArray"
proof -
  have "json_valid '' [1]''" "kind_of (jtrim '' [1]'') = KArray" by code_simp+
  with hint_is_kind [of "'' [1]''"] show ?thesis by simp
qed

text \<open>C34: A decoded request is a notification exactly when its object has no member whose name is
  \<^verbatim>\<open>id\<close>, up to case, and its version is valid exactly when it has a member
  \<^verbatim>\<open>jsonrpc\<close>: a request without one is accepted.\<close>

theorem members_decide:
  assumes "unmarshal_request d = Inr r" "kind_of (jtrim d) = KObject"
  shows "(Request_IsNotification r \<longleftrightarrow>
      \<not> (\<exists>(k, v) \<in> set (object_members (jtrim d)). resolves_to request_fields ''id'' k))
    \<and> (Version_IsValid (req_jsonrpc r) \<longleftrightarrow>
      (\<exists>(k, v) \<in> set (object_members (jtrim d)). resolves_to request_fields ''jsonrpc'' k))"
  using unmarshal_request_members [OF assms] by blast

theorem members_decide_witness:
  "\<exists>r. unmarshal_request (json_object [(''ID'', ''5'')]) = Inr r \<and> \<not> Request_IsNotification r
     \<and> \<not> Version_IsValid (req_jsonrpc r)"
proof -
  let ?d = "json_object [(''ID'', ''5'')]"
  have u: "unmarshal_request ?d = Inr (NewRequest (IdNum ''5'') [])" by code_simp
  have "kind_of (jtrim ?d) = KObject" by code_simp
  from members_decide [OF u this] show ?thesis
    using u by (intro exI [of _ "NewRequest (IdNum ''5'') []"] conjI)
      (simp_all add: Request_IsNotification_def NewRequest_def Version_IsValid_def zero_Request_def zero_Version_def)
qed

section \<open>Batches\<close>

text \<open>In a batch without nil members, \<^verbatim>\<open>Get\<close> finds the first member whose identifier equals
  the one asked for, and \<^verbatim>\<open>Delete\<close> removes that member and no other.\<close>

theorem batch_lookup:
  "Batch_Get idf (map Some b) i = Some (first_match idf b i, first_match idf b i \<noteq> None)
   \<and> Batch_Delete idf (map Some b) i =
      (case first_match idf b i of
         None \<Rightarrow> Some ((None, False), map Some b)
       | Some x \<Rightarrow> Some ((Some x, True), map Some (remove1 x b)))"
  using Batch_Get_find [of idf b i] Batch_Delete_find [of idf b i] by blast

text \<open>C30: \<^verbatim>\<open>BatchCorrelate\<close> calls the callback once for each request, in order, with the first
  response that carries its identifier or nil, and then once for each response that was not given to
  a request.\<close>

theorem correlate_calls:
  "BatchCorrelate (map Some reqs) (map Some resps) recording [] = Some (correlation reqs resps)"
  by (simp add: correlate_recording)

text \<open>If the responses carry distinct identifiers, every response is reported to the callback.\<close>

theorem correlate_complete:
  assumes "distinct (map Response_id resps)" "r \<in> set resps"
  shows "\<exists>calls q. BatchCorrelate (map Some reqs) (map Some resps) recording [] = Some calls \<and> (q, Some r) \<in> set calls"
  using correlation_complete [OF assms, of reqs] by (auto simp: correlate_recording)

theorem correlate_complete_witness:
  "\<exists>calls q. BatchCorrelate [Some (NewRequest (IdInt 1) ''a'')]
      [Some (NewResponseWithResult (IdNum ''1'') (GInt 5)), Some (NewResponseWithResult (IdNum ''2'') (GInt 6))]
      recording [] = Some calls \<and> (q, Some (NewResponseWithResult (IdNum ''2'') (GInt 6))) \<in> set calls"
  using correlate_complete [of "[NewResponseWithResult (IdNum ''1'') (GInt 5), NewResponseWithResult (IdNum ''2'') (GInt 6)]"
      "NewResponseWithResult (IdNum ''2'') (GInt 6)" "[NewRequest (IdInt 1) ''a'']"]
  by (simp add: Response_id_def NewResponseWithResult_def NewID_def)

text \<open>A callback that answers false ends the correlation: it has seen exactly the first calls of
  the full sequence.\<close>

theorem correlate_stops:
  assumes "0 < n"
  shows "BatchCorrelate (map Some reqs) (map Some resps) (stop_after n) [] = Some (take n (correlation reqs resps))"
  by (rule correlate_stop [OF assms])

theorem correlate_stops_witness:
  "BatchCorrelate [Some (NewRequest (IdInt 1) ''a''), Some (NewRequest (IdInt 2) ''b'')] [] (stop_after 1) [] =
     Some [(Some (NewRequest (IdInt 1) ''a''), None)]"
  using correlate_stops [of 1 "[NewRequest (IdInt 1) ''a'', NewRequest (IdInt 2) ''b'']" "[]"]
  by (simp add: correlation_def first_match_def)

text \<open>C40: A server that answers a batch with an array that holds null makes the correlation panic:
  the array decodes to a batch with a nil response, whose identifier is then asked for.\<close>

theorem null_response_panics:
  assumes "\<not> ID_IsZero (Request_id q)"
  shows "unmarshal_responses ''[null]'' = Inr [None] \<and> BatchCorrelate (Some q # reqs) [None] cb s = None"
proof -
  have "unmarshal_responses ''[null]'' = Inr [None]" by code_simp
  then show ?thesis
    using assms by (simp add: BatchCorrelate_def Batch_Get_def Batch_Index_def)
qed

theorem null_response_panics_witness:
  "BatchCorrelate [Some (NewRequest (IdInt 1) ''a'')] [None] recording [] = None"
  using null_response_panics [of "NewRequest (IdInt 1) ''a''" "[]" recording "[]"]
  by (simp add: Request_id_def NewRequest_def)

end
