(* ===== verification/SessionProps.thy ===== *)
theory SessionProps
  imports StreamServer MessageProps
begin

text \<open>
  The properties of whole sessions: a stream server and a packet server, from the first message to the
  error their connection ends with, for servers on which \<^verbatim>\<open>NoRoutines\<close> is set: they process a
  message before they read the next one. Each theorem also says that the step relation of the server has
  that run.
\<close>

section \<open>A stream connection\<close>

text \<open>C4: A client writes any number of requests and notifications, one after the other, to the
  connection of a stream server with \<^verbatim>\<open>NoRoutines\<close> set, however the network cuts the bytes. The server
  hands them to the handler in order, returns when the input ends, and has written what a client decodes as exactly the responses to
  the requests, in order, and nothing for the notifications.\<close>

theorem stream_session:
  assumes "\<forall>r \<in> set rs. sendable_request r" "se_err i = None" "env_clear_err env = None"
    and "healthy (io_dec k)" "se_err (io_enc k) = None" "io_sent k = []"
    and "sd_pending (io_dec k) = snd (encode_seq (map (\<lambda>r. (env, OutRequest r)) rs) marshal_outgoing i [])"
    and "outcomes h (c\<lparr>ctx_rpc_server := True, ctx_err := None\<rparr>) (map received_request rs) u = (outs, u')"
    and "list_all plain_outcome outs" "\<forall>r \<in> set (replies (map received_request rs) outs). sendable_response r"
  shows "\<exists>e w' bs. Run_sync ((NewStreamServerFromIO slog h)\<lparr>NoRoutines := True\<rparr>) gather (\<lambda>_. None) c \<lparr>sw_user = u, sw_conn = k\<rparr> = Some (e, w')
    \<and> is_err e EOF \<and> sw_user w' = u'
    \<and> mapM unmarshal_response bs = Inr (map received_response (replies (map received_request rs) outs))
    \<and> (\<forall>d. healthy d \<longrightarrow> sd_pending d = io_sent (sw_conn w') \<longrightarrow>
        fst (decode_seq (replicate (length bs) env) d) = map Inr bs)
    \<and> (schedule ((NewStreamServerFromIO slog h)\<lparr>NoRoutines := True\<rparr>) gather \<longrightarrow>
        (\<exists>s. (srv_step ((NewStreamServerFromIO slog h)\<lparr>NoRoutines := True\<rparr>) (\<lambda>_. None) c)\<^sup>*\<^sup>*
            (srv_start \<lparr>sw_user = u, sw_conn = k\<rparr>) s \<and> srv_phase s = Returned e \<and> srv_world s = w'))"
proof -
  let ?rep = "replies (map received_request rs) outs"
  obtain vs where vs: "mapM marshal_request rs = Inr vs" "\<forall>v \<in> set vs. framed v \<and> HintType v = TypeObject"
    "list_all2 (\<lambda>v q. unmarshal_request v = Inr q) vs (map received_request rs)"
    using requests_lines [OF assms(1)] by blast
  obtain bs where bs: "mapM marshal_response ?rep = Inr bs" "\<forall>b \<in> set bs. framed b"
    "mapM unmarshal_response bs = Inr (map received_response ?rep)"
    using responses_lines [OF assms(10)] by blast
  have "sd_pending (io_dec k) = concat (map line_of vs)"
    using encoded_requests [OF vs(1) assms(2,3), of "[]"] assms(7) by simp
  from stream_run [OF _ assms(4-6) this vs(2,3) assms(8,9) bs(1), of "\<lambda>_. None" slog gather]
  obtain e w' where w': "Run_sync ((NewStreamServerFromIO slog h)\<lparr>NoRoutines := True\<rparr>) gather (\<lambda>_. None) c \<lparr>sw_user = u, sw_conn = k\<rparr> = Some (e, w')"
    "is_err e EOF" "sw_user w' = u'" "io_sent (sw_conn w') = concat (map line_of bs)"
    by auto
  have "fst (decode_seq (replicate (length bs) env) d) = map Inr bs"
    if "healthy d" "sd_pending d = io_sent (sw_conn w')" for d
    using decode_seq_framed [OF that(1), of "replicate (length bs) env" bs "[]" "[]"] that(2) w'(4) bs(2) assms(3)
    by (simp add: line_of_def [abs_def])
  with w' bs(3) Run_sync_steps [OF w'(1)] show ?thesis
    by (intro exI [of _ e] exI [of _ w'] exI [of _ bs]) simp
qed

text \<open>A handler that counts the requests and answers with their number.\<close>

definition counter :: "nat handle_fn" where
  "counter c req n = (HReturn (ResValue (GInt (int n))) None, Suc n)"

definition three_calls :: "Request list" where
  "three_calls = [NewRequest (IdInt 1) ''tick'', NewNotification ''tick'', NewRequest (IdStr ''b'') ''tick'']"

lemma counter_outcomes:
  "outcomes (NewFuncHandler counter) c (map received_request three_calls) 5 =
     (map (\<lambda>n. HReturn (ResValue (GInt n)) None) [5, 6, 7], 8)"
  by (simp add: three_calls_def NewFuncHandler_def counter_def)

lemma three_ready:
  "list_all sendable_request three_calls"
  "list_all sendable_response (replies (map received_request three_calls) (map (\<lambda>n. HReturn (ResValue (GInt n)) None) [5, 6, 7]))"
  by code_simp+

definition fed_conn :: "bytes \<Rightarrow> stream_conn" where
  "fed_conn b = \<lparr>io_dec = NewStreamDecoder DeadlineReader (map (\<lambda>x. RData [x]) b),
     io_enc = NewStreamEncoder DeadlineWriter, io_sent = [], io_closed = False\<rparr>"

lemma fed_conn_simps [simp]:
  "healthy (io_dec (fed_conn b))" "se_err (io_enc (fed_conn b)) = None" "io_sent (fed_conn b) = []"
  "sd_pending (io_dec (fed_conn b)) = b"
proof -
  have "data_of (map (\<lambda>x. RData [x]) b) = b \<and> only_data (map (\<lambda>x. RData [x]) b)"
    by (induction b) (auto simp: only_data_def)
  then show "healthy (io_dec (fed_conn b))" "se_err (io_enc (fed_conn b)) = None" "io_sent (fed_conn b) = []"
    "sd_pending (io_dec (fed_conn b)) = b"
    by (simp_all add: fed_conn_def healthy_def NewStreamDecoder_def NewJSONDecoder_def sd_pending_def NewStreamEncoder_def)
qed

definition tick_server :: "(nat stream_world) RPCServer" where
  "tick_server = (NewStreamServerFromIO (\<lambda>_ _ _ w. w) (NewFuncHandler counter))\<lparr>NoRoutines := True\<rparr>"

definition tick_start :: "nat stream_world" where
  "tick_start = \<lparr>sw_user = 5, sw_conn = fed_conn (snd (encode_seq (map (\<lambda>r. (ctx_env background, OutRequest r)) three_calls)
     marshal_outgoing (NewStreamEncoder PlainWriter) []))\<rparr>"

lemma three_replies:
  "replies (map received_request three_calls) (map (\<lambda>n. HReturn (ResValue (GInt n)) None) [5, 6, 7]) =
     [NewResponseWithResult (IdNum ''1'') (GInt 5), NewResponseWithResult (IdStr ''b'') (GInt 7)]"
proof -
  have "show_int 1 = ''1''" by code_simp
  then show ?thesis
    by (simp add: replies_def three_calls_def received_request_def NewRequest_def NewNotification_def
        Request_IsNotification_def received_id_def Request_ResponseWithResult_def NewResponseWithResult_def
        zero_Request_def ID_IsZero_def zero_ID_def)
qed

theorem stream_session_witness:
  "\<exists>e w' bs s. Run_sync tick_server (handle_all tick_server) (\<lambda>_. None) background tick_start = Some (e, w')
    \<and> sw_user w' = 8 \<and> length bs = 2 \<and> mapM unmarshal_response bs =
      Inr [received_response (NewResponseWithResult (IdNum ''1'') (GInt 5)), received_response (NewResponseWithResult (IdStr ''b'') (GInt 7))]
    \<and> (srv_step tick_server (\<lambda>_. None) background)\<^sup>*\<^sup>* (srv_start tick_start) s \<and> srv_phase s = Returned e \<and> srv_world s = w'"
proof -
  let ?outs = "map (\<lambda>n. HReturn (ResValue (GInt n)) None) [5, 6, 7]"
  have ready: "\<forall>r \<in> set three_calls. sendable_request r"
    "\<forall>r \<in> set (replies (map received_request three_calls) ?outs). sendable_response r"
    using three_ready by (simp_all only: list_all_iff)
  have "\<exists>e w' bs. Run_sync tick_server (handle_all tick_server) (\<lambda>_. None) background tick_start = Some (e, w')
    \<and> is_err e EOF \<and> sw_user w' = 8
    \<and> mapM unmarshal_response bs = Inr (map received_response (replies (map received_request three_calls) ?outs))
    \<and> (\<forall>d. healthy d \<longrightarrow> sd_pending d = io_sent (sw_conn w') \<longrightarrow>
        fst (decode_seq (replicate (length bs) (ctx_env background)) d) = map Inr bs)
    \<and> (schedule tick_server (handle_all tick_server) \<longrightarrow>
        (\<exists>s. (srv_step tick_server (\<lambda>_. None) background)\<^sup>*\<^sup>* (srv_start tick_start) s
          \<and> srv_phase s = Returned e \<and> srv_world s = w'))"
    unfolding tick_server_def tick_start_def
    by (rule stream_session [OF ready(1) _ _ _ _ _ _ counter_outcomes _ ready(2)]) (simp_all add: NewStreamEncoder_def)
  then obtain e w' bs s where run: "Run_sync tick_server (handle_all tick_server) (\<lambda>_. None) background tick_start = Some (e, w')"
    "sw_user w' = 8" "mapM unmarshal_response bs = Inr (map received_response [NewResponseWithResult (IdNum ''1'') (GInt 5),
       NewResponseWithResult (IdStr ''b'') (GInt 7)])"
    "(srv_step tick_server (\<lambda>_. None) background)\<^sup>*\<^sup>* (srv_start tick_start) s" "srv_phase s = Returned e" "srv_world s = w'"
    unfolding three_replies using schedule_serial by blast
  moreover from mapM_length [OF run(3)] have "length bs = 2" by simp
  ultimately show ?thesis
    by (intro exI [of _ e] exI [of _ w'] exI [of _ bs] exI [of _ s] conjI) (simp_all only: list.map)
qed

section \<open>A packet connection\<close>

text \<open>C8: A packet server with \<^verbatim>\<open>NoRoutines\<close> set answers every datagram that is not a batch as \<open>packet_answers\<close> says, the reference that
  takes the datagrams one by one: a malformed one with a Parse error, one that is not a request with
  Invalid request, a request with its response, a notification with nothing; each answer goes to the
  sender of its datagram, in order, and the server goes on until its connection is closed.\<close>

theorem packet_session:
  assumes "plain_handler h" "pw_in w = map (\<lambda>(d, addr). (d, addr, None)) ds"
    and "\<forall>(d, addr) \<in> set ds. length d \<le> 65507 \<and> HintType (jtrim d) \<noteq> TypeArray"
    and "packet_answers h (c\<lparr>ctx_rpc_server := True, ctx_err := None\<rparr>) ds (pw_user w) = (rs, u)"
    and "mapM marshal_response (map fst rs) = Inr bs"
  shows "\<exists>e w'. Run_sync ((NewRPCServerFromPacket slog h)\<lparr>NoRoutines := True\<rparr>) gather (\<lambda>_. None) c w = Some (e, w')
    \<and> is_err e NetErrClosed \<and> pw_sent w' = pw_sent w @ zip bs (map snd rs) \<and> pw_user w' = u
    \<and> (schedule ((NewRPCServerFromPacket slog h)\<lparr>NoRoutines := True\<rparr>) gather \<longrightarrow>
        (\<exists>s. (srv_step ((NewRPCServerFromPacket slog h)\<lparr>NoRoutines := True\<rparr>) (\<lambda>_. None) c)\<^sup>*\<^sup>* (srv_start w) s
          \<and> srv_phase s = Returned e \<and> srv_world s = w'))"
proof -
  obtain w1 where w1: "run_loop (NewRPCServerFromPacket slog h) gather (\<lambda>_. None) c w = Some (Sentinel NetErrClosed, w1)"
    "pw_sent w1 = pw_sent w @ zip bs (map snd rs)" "pw_user w1 = u"
    using packet_run [OF _ assms(1) refl assms(2-), of "\<lambda>_. None" slog gather] by auto
  obtain e2 w2 where "RPCServer_Close (NewRPCServerFromPacket slog h) w1 = (e2, w2)" by fastforce
  moreover have "is_err (Some (Sentinel NetErrClosed)) NetErrClosed" by (simp add: is_err_def)
  ultimately obtain e w' where run: "Run_sync ((NewRPCServerFromPacket slog h)\<lparr>NoRoutines := True\<rparr>) gather (\<lambda>_. None) c w = Some (e, w')"
    "is_err e NetErrClosed" "pw_sent w' = pw_sent w @ zip bs (map snd rs)" "pw_user w' = u"
    using w1 packet_Close [of slog h w1] by (simp add: Run_sync_NoRoutines finish_def is_err_join)
  from run Run_sync_steps [OF run(1)] show ?thesis by (intro exI [of _ e] exI [of _ w']) simp
qed

text \<open>Three senders: a request, a text that is not JSON, a notification.\<close>

definition datagrams :: "(bytes \<times> bytes option) list" where
  "datagrams = [(json_object [(''method'', quote ''tick''), (''id'', ''1'')], Some ''a''), (''{'', Some ''b''),
     (json_object [(''method'', quote ''tick'')], Some ''c'')]"

lemma datagram_facts:
  "check_valid (json_object [(''method'', quote ''tick''), (''id'', ''1'')]) = None"
  "check_valid (json_object [(''method'', quote ''tick'')]) = None"
  "check_valid ''{'' = Some ''unexpected end of JSON input''"
  "HintType (json_object [(''method'', quote ''tick''), (''id'', ''1'')]) = TypeObject"
  "HintType (json_object [(''method'', quote ''tick'')]) = TypeObject" "HintType (jtrim ''{'') = TypeObject"
  "unmarshal_request (json_object [(''method'', quote ''tick''), (''id'', ''1'')]) = Inr (NewRequest (IdNum ''1'') ''tick'')"
  "unmarshal_request (json_object [(''method'', quote ''tick'')]) = Inr (NewNotification ''tick'')"
  "length (json_object [(''method'', quote ''tick''), (''id'', ''1'')]) = 24"
  "length (json_object [(''method'', quote ''tick'')]) = 17"
  by code_simp+

lemma datagram_answers:
  "packet_answers (NewFuncHandler counter) c datagrams 5 =
     ([(Request_ResponseWithResult (NewRequest (IdNum ''1'') ''tick'') (GInt 5), Some ''a''),
       (parse_error ''unexpected end of JSON input'', Some ''b'')], 7)"
  by (simp add: datagrams_def packet_answer_def datagram_facts NewFuncHandler_def counter_def
      Request_IsNotification_def NewRequest_def NewNotification_def)

lemma answers_sendable:
  "sendable_response (Request_ResponseWithResult (NewRequest (IdNum ''1'') ''tick'') (GInt 5))"
  "sendable_response (parse_error ''unexpected end of JSON input'')"
  by code_simp+

lemma datagrams_marshalled:
  "\<exists>a b. mapM marshal_response [Request_ResponseWithResult (NewRequest (IdNum ''1'') ''tick'') (GInt 5),
     parse_error ''unexpected end of JSON input''] = Inr [a, b]"
  using response_wire [OF answers_sendable(1)] response_wire [OF answers_sendable(2)] by auto

definition tick_socket :: "(nat packet_world) RPCServer" where
  "tick_socket = (NewRPCServerFromPacket (\<lambda>_ _ _ w. w) (NewFuncHandler counter))\<lparr>NoRoutines := True\<rparr>"

definition tick_packets :: "nat packet_world" where
  "tick_packets = \<lparr>pw_user = 5, pw_in = map (\<lambda>(d, addr). (d, addr, None)) datagrams, pw_sent = [], pw_closed = False\<rparr>"

theorem packet_session_witness:
  "\<exists>a b e w' s. Run_sync tick_socket (handle_all tick_socket) (\<lambda>_. None) background tick_packets = Some (e, w')
    \<and> pw_sent w' = [(a, Some ''a''), (b, Some ''b'')] \<and> pw_user w' = 7
    \<and> (srv_step tick_socket (\<lambda>_. None) background)\<^sup>*\<^sup>* (srv_start tick_packets) s \<and> srv_phase s = Returned e \<and> srv_world s = w'"
proof -
  obtain a b where ab: "mapM marshal_response [Request_ResponseWithResult (NewRequest (IdNum ''1'') ''tick'') (GInt 5),
     parse_error ''unexpected end of JSON input''] = Inr [a, b]"
    using datagrams_marshalled by blast
  have "plain_handler (NewFuncHandler counter)"
    by (simp add: plain_handler_def NewFuncHandler_def counter_def)
  then have "\<exists>e w'. Run_sync tick_socket (handle_all tick_socket) (\<lambda>_. None) background tick_packets
        = Some (e, w') \<and> is_err e NetErrClosed \<and> pw_sent w' = pw_sent tick_packets @ zip [a, b] (map snd
          [(Request_ResponseWithResult (NewRequest (IdNum ''1'') ''tick'') (GInt 5), Some ''a''),
           (parse_error ''unexpected end of JSON input'', Some ''b'')]) \<and> pw_user w' = 7
      \<and> (schedule tick_socket (handle_all tick_socket) \<longrightarrow>
          (\<exists>s. (srv_step tick_socket (\<lambda>_. None) background)\<^sup>*\<^sup>* (srv_start tick_packets) s
            \<and> srv_phase s = Returned e \<and> srv_world s = w'))"
    unfolding tick_socket_def
    by (rule packet_session [where ds = datagrams])
       (use ab datagram_answers [of "background\<lparr>ctx_rpc_server := True, ctx_err := None\<rparr>"] in
         \<open>simp_all add: datagram_facts datagrams_def tick_packets_def\<close>)
  then show ?thesis
    using schedule_serial [of tick_socket] by (auto simp: tick_packets_def)
qed

end
