(* ===== verification/ClientProps.thy ===== *)
theory ClientProps
  imports MessageProps
begin

text \<open>
  The properties of calls over HTTP from end to end, and of the transport client of a connection.
\<close>

section \<open>Calls from end to end\<close>

text \<open>The identifier of the response to a request equals the request's.\<close>

lemma own_id:
  assumes "sendable_request r" "\<not> Request_IsNotification r"
  shows "ID_Equal (req_id r) (resp_id (received_response (reply_of (received_request r) out)))"
proof -
  have "id_present (req_id r)" "wf_idval (id_value (req_id r))"
    using assms by (simp_all add: Request_IsNotification_def ID_IsZero_def sendable_request_def)
  from received_id_equal [OF this] this show ?thesis
    by (simp add: received_response_def reply_of_id received_request_def ID_IsZero_def received_id_twice)
qed

text \<open>C1: A call over the HTTP bridge to the HTTP handler returns the response the server built from
  what the handler did with the request as it was sent: its result or its error, with an identifier
  that equals the request's.\<close>

theorem http_call_answered:
  assumes "sendable_request r" "\<not> Request_IsNotification r"
    and "plain_request h cerr \<lparr>hr_content_type = ''application/json'', hr_body = []\<rparr>"
    and "\<not> hb_closed br" "newReq (hb_url br) = None" "ctx_err c = None"
    and "Handle (hh_handler h) (http_ctx\<lparr>ctx_rpc_server := True\<rparr>) (received_request r) u = (out, u')"
    and "plain_outcome out" "sendable_response (reply_of (received_request r) out)"
  shows "\<exists>br' resp. Transport_Call (bridge_transport newReq (http_network slog h stop cerr)) c r (br, u) = (Inr resp, (br', u'))
    \<and> resp = received_response (reply_of (received_request r) out) \<and> ID_Equal (req_id r) (resp_id resp)"
proof -
  have "ID_Equal (req_id r) (resp_id (received_response (reply_of (received_request r) out)))"
    using assms(1,2) by (rule own_id)
  moreover have "\<exists>br'. Transport_Call (bridge_transport newReq (http_network slog h stop cerr)) c r (br, u) =
      (Inr (received_response (reply_of (received_request r) out)), (br', u'))"
    by (rule http_call) (use assms in simp_all)
  ultimately show ?thesis by blast
qed

lemma plain_post_nil:
  "plain_request (NewHTTPHandler h) (\<lambda>_. None) \<lparr>hr_content_type = ''application/json'', hr_body = []\<rparr>"
  by (simp add: plain_request_def NewHTTPHandler_def only_data_def)

definition adder :: "'w handle_fn" where
  "adder c req w = (if req_method req = ''add'' then HReturn (ResValue (GInt 3)) None
     else HReturn (ResValue GNil) (Some (RpcErr ErrMethodNotFound)), w)"

lemma adder_simps:
  "Handle (hh_handler (NewHTTPHandler (NewFuncHandler adder))) c r u =
     (if req_method r = ''add'' then HReturn (ResValue (GInt 3)) None
      else HReturn (ResValue GNil) (Some (RpcErr ErrMethodNotFound)), u)"
  by (simp add: NewHTTPHandler_def NewFuncHandler_def adder_def)

lemma adder_answer: "sendable_response (reply_of (received_request add_request) (HReturn (ResValue (GInt 3)) None))"
  by code_simp

theorem http_call_answered_witness:
  "\<exists>br' resp. Transport_Call (bridge_transport (\<lambda>_. None) (http_network (\<lambda>_ _ _ w. w)
      (NewHTTPHandler (NewFuncHandler adder)) (\<lambda>_ w. w) (\<lambda>_. None))) background add_request (NewHTTPBridge ''http://h/'', 0 :: nat) =
      (Inr resp, (br', 0)) \<and> ID_Equal (NewID (IdInt 7)) (resp_id resp)"
proof -
  have m: "req_method (received_request add_request) = ''add''" "\<not> Request_IsNotification add_request"
    "req_id add_request = NewID (IdInt 7)"
    by (simp_all add: received_request_def add_request_def NewRequestWithParams_def Request_IsNotification_def)
  from http_call_answered [OF add_sendable m(2) plain_post_nil, of "NewHTTPBridge ''http://h/''" "\<lambda>_. None" background
      "NewFuncHandler adder" "0 :: nat" "HReturn (ResValue (GInt 3)) None" 0 "\<lambda>_ _ _ w. w" "\<lambda>_ w. w"] adder_answer m
  show ?thesis by (auto simp: NewHTTPBridge_def background_def adder_simps)
qed

text \<open>C2: A batch called over the HTTP bridge is answered with one response for each of its requests,
  in the order of the requests, with their identifiers, and none for its notifications.\<close>

theorem http_batch_answered:
  assumes "\<forall>r \<in> set rs. sendable_request r" "\<exists>r \<in> set rs. \<not> Request_IsNotification r"
    and "plain_request h cerr \<lparr>hr_content_type = ''application/json'', hr_body = []\<rparr>"
    and "\<not> hb_closed br" "newReq (hb_url br) = None" "ctx_err c = None"
    and "outcomes (hh_handler h) (http_ctx\<lparr>ctx_rpc_server := True\<rparr>) (map received_request rs) u = (outs, u')"
    and "list_all plain_outcome outs" "\<forall>r \<in> set (replies (map received_request rs) outs). sendable_response r"
  shows "\<exists>br' resps. Transport_CallBatch (bridge_transport newReq (http_network slog h stop cerr)) c (map Some rs) (br, u) =
      (Inr (map Some resps), (br', u'))
    \<and> resps = map received_response (replies (map received_request rs) outs)
    \<and> map resp_id resps = map (\<lambda>r. received_id (req_id r)) (filter (\<lambda>r. \<not> Request_IsNotification r) rs)"
proof -
  let ?rep = "replies (map received_request rs) outs"
  have "length outs = length (map received_request rs)"
    using outcomes_length [OF assms(7)] by simp
  note ids = replies_ids [OF this]
  have "map resp_id (map received_response ?rep) = map received_id (map resp_id ?rep)"
    by (simp add: received_response_def)
  also have "\<dots> = map (\<lambda>r. received_id (req_id (received_request r))) (filter (\<lambda>r. \<not> Request_IsNotification r) rs)"
    unfolding ids by (simp add: filter_map o_def received_notification)
  also have "\<dots> = map (\<lambda>r. received_id (req_id r)) (filter (\<lambda>r. \<not> Request_IsNotification r) rs)"
    by (auto simp: received_request_def Request_IsNotification_def received_id_twice)
  finally have map: "map resp_id (map received_response ?rep) =
      map (\<lambda>r. received_id (req_id r)) (filter (\<lambda>r. \<not> Request_IsNotification r) rs)" .
  have "filter (\<lambda>r. \<not> Request_IsNotification r) rs \<noteq> []"
    using assms(2) by (simp add: filter_empty_conv)
  with map have "?rep \<noteq> []" by (metis list.map_disc_iff)
  then have "\<exists>br'. Transport_CallBatch (bridge_transport newReq (http_network slog h stop cerr)) c (map Some rs) (br, u) =
      (Inr (map (\<lambda>r. Some (received_response r)) ?rep), (br', u'))"
    by (intro http_call_batch) (use assms in simp_all)
  with map show ?thesis by (auto simp: o_def)
qed

definition mixed_batch :: "Request list" where
  "mixed_batch = [add_request, NewNotification ''add'', NewRequest (IdStr ''b'') ''mul'']"

lemma mixed_ready:
  "list_all sendable_request mixed_batch"
  "list_all sendable_response (replies (map received_request mixed_batch)
     [HReturn (ResValue (GInt 3)) None, HReturn (ResValue (GInt 3)) None,
      HReturn (ResValue GNil) (Some (RpcErr ErrMethodNotFound))])"
  by code_simp+

theorem http_batch_answered_witness:
  "\<exists>br' resps. Transport_CallBatch (bridge_transport (\<lambda>_. None) (http_network (\<lambda>_ _ _ w. w)
      (NewHTTPHandler (NewFuncHandler adder)) (\<lambda>_ w. w) (\<lambda>_. None))) background (map Some mixed_batch)
      (NewHTTPBridge ''http://h/'', 0 :: nat) = (Inr (map Some resps), (br', 0))
    \<and> map resp_id resps = [NewID (IdNum ''7''), NewID (IdStr ''b'')]"
proof -
  have run: "outcomes (hh_handler (NewHTTPHandler (NewFuncHandler adder))) c (map received_request mixed_batch) (0 :: nat) =
      ([HReturn (ResValue (GInt 3)) None, HReturn (ResValue (GInt 3)) None,
        HReturn (ResValue GNil) (Some (RpcErr ErrMethodNotFound))], 0)" for c
    by (simp add: mixed_batch_def adder_simps received_request_def add_request_def NewRequestWithParams_def
        NewNotification_def NewRequest_def)
  have ids: "map (\<lambda>r. received_id (req_id r)) (filter (\<lambda>r. \<not> Request_IsNotification r) mixed_batch) =
      [NewID (IdNum ''7''), NewID (IdStr ''b'')]"
    by code_simp
  have ready: "\<forall>r \<in> set mixed_batch. sendable_request r"
    using mixed_ready(1) by (simp only: list_all_iff)
  have some: "\<exists>r \<in> set mixed_batch. \<not> Request_IsNotification r"
    by (simp add: mixed_batch_def add_request_def NewRequestWithParams_def Request_IsNotification_def)
  have out: "list_all plain_outcome [HReturn (ResValue (GInt 3)) None, HReturn (ResValue (GInt 3)) None,
      HReturn (ResValue GNil) (Some (RpcErr ErrMethodNotFound))]"
    by simp
  have "\<exists>br' resps. Transport_CallBatch (bridge_transport (\<lambda>_. None) (http_network (\<lambda>_ _ _ w. w)
      (NewHTTPHandler (NewFuncHandler adder)) (\<lambda>_ w. w) (\<lambda>_. None))) background (map Some mixed_batch)
      (NewHTTPBridge ''http://h/'', 0 :: nat) = (Inr (map Some resps), (br', 0))
    \<and> resps = map received_response (replies (map received_request mixed_batch)
        [HReturn (ResValue (GInt 3)) None, HReturn (ResValue (GInt 3)) None,
         HReturn (ResValue GNil) (Some (RpcErr ErrMethodNotFound))])
    \<and> map resp_id resps = map (\<lambda>r. received_id (req_id r)) (filter (\<lambda>r. \<not> Request_IsNotification r) mixed_batch)"
    by (rule http_batch_answered [OF ready some plain_post_nil _ _ _ run out])
       (use mixed_ready(2) in \<open>simp_all only: list_all_iff NewHTTPBridge_def background_def HTTPBridge.simps ctx.simps not_False_eq_True\<close>)
  then show ?thesis unfolding ids by (elim exE conjE) (intro exI conjI)
qed

section \<open>A client on a connection\<close>

text \<open>Calls made one after the other, each with its context.\<close>

fun calls :: "(ctx \<times> Request) list \<Rightarrow> stream_conn \<Rightarrow> (go_error + Response) list \<times> stream_conn" where
  "calls [] w = ([], w)"
| "calls ((c, r) # crs) w =
     (let (x, w1) = Transport_Call NewTransportClientIO c r w; (xs, w2) = calls crs w1 in (x # xs, w2))"

lemma calls_dead:
  "dead (io_dec w) \<Longrightarrow> list_all isl (fst (calls crs w))"
proof (induction crs w rule: calls.induct)
  case (2 c r crs w)
  obtain e w1 where "transport_call NewTransportClientIO c (OutRequest r) False w = (Inl e, w1)" "dead (io_dec w1)"
    using io_call_dead [OF "2.prems"] by blast
  then have "Transport_Call NewTransportClientIO c r w = (Inl e, w1)" "dead (io_dec w1)"
    by (simp_all add: Transport_Call_def)
  then show ?case
    using "2.IH" [OF _ refl] by (cases "calls crs w1") auto
qed simp

text \<open>C22: After a call on a connection whose request was written and whose answer could not be read (a
  timeout, a cancellation, a broken frame), no later call on it returns a response: a late answer is
  never taken for the answer to another request.\<close>

theorem no_late_answer:
  assumes "ctx_err c = None" "fst (Encoder_Encode (ctx_env c) marshal_outgoing append_write (io_enc w) (OutRequest r) (io_sent w)) = None"
    and "fst (Decoder_Decode (ctx_env c) (io_dec w)) = Inl e"
  shows "fst (Transport_Call NewTransportClientIO c r w) = Inl e
    \<and> list_all isl (fst (calls crs (snd (Transport_Call NewTransportClientIO c r w))))"
proof -
  obtain i b where enc: "Encoder_Encode (ctx_env c) marshal_outgoing append_write (io_enc w) (OutRequest r) (io_sent w) = (None, i, b)"
    using assms(2) by (metis prod.collapse)
  obtain d where dec: "Decoder_Decode (ctx_env c) (io_dec w) = (Inl e, d)"
    using assms(3) by (metis prod.collapse)
  have "Transport_Call NewTransportClientIO c r w = (Inl e, w\<lparr>io_enc := i, io_sent := b, io_dec := d\<rparr>)"
    using assms(1) enc dec by (simp add: Transport_Call_def transport_call_def)
  moreover have "dead d" using Decode_fails_dead [OF dec ctx_env_clear] .
  ultimately show ?thesis by (simp add: calls_dead)
qed

text \<open>The answer to the first call comes after its read was interrupted.\<close>

definition late_conn :: stream_conn where
  "late_conn = \<lparr>io_dec = NewStreamDecoder DeadlineReader [RFail (Sentinel DeadlineExceeded), RData ''{}''],
     io_enc = NewStreamEncoder DeadlineWriter, io_sent = [], io_closed = False\<rparr>"

lemma late_decode: "\<exists>e. fst (Decoder_Decode (ctx_env background) (io_dec late_conn)) = Inl e"
  by (simp add: late_conn_def Decoder_Decode_def cancelDecode_def NewStreamDecoder_def plain_decode_def
      jd_decode_def jd_read_def NewJSONDecoder_def refill.simps read_some.simps ctx_env_def background_def Let_def)

lemma add_written:
  "fst (Encoder_Encode (ctx_env background) marshal_outgoing append_write (io_enc late_conn) (OutRequest add_request)
     (io_sent late_conn)) = None"
  using request_wire [OF add_sendable]
  by (auto simp: late_conn_def Encoder_Encode_def cancelEncode_def je_encode_def NewStreamEncoder_def append_write_def
      ctx_env_def)

theorem no_late_answer_witness:
  "list_all isl (fst (calls [(background, add_request), (background, NewRequest (IdInt 8) ''add'')]
     (snd (Transport_Call NewTransportClientIO background add_request late_conn))))"
proof -
  obtain e where "fst (Decoder_Decode (ctx_env background) (io_dec late_conn)) = Inl e"
    using late_decode by blast
  from no_late_answer [OF _ add_written this] have
    "list_all isl (fst (calls crs (snd (Transport_Call NewTransportClientIO background add_request late_conn))))" for crs
    by (simp add: background_def)
  then show ?thesis .
qed

text \<open>Closing the client of a connection reports an error even the first time: the encoder closes
  the connection, and the decoder closes it again.\<close>

lemma close_closes_twice:
  assumes "sd_kind (io_dec w) \<noteq> PlainReader" "se_kind (io_enc w) \<noteq> PlainWriter" "\<not> io_closed w"
  shows "\<exists>e w'. Transport_Close NewTransportClientIO w = (Some e, w') \<and> is_err (Some e) NetErrClosed \<and> io_closed w'"
  using assms
  by (simp add: Transport_Close_def NewTransportClientIO_def NewTransportClient_def Encoder_Close_def Decoder_Close_def
      conn_close_def errors_join_def is_err_def)

end
