(* ===== verification/Mutex.thy ===== *)
theory Mutex
  imports Prelude "HOL-Library.Multiset"
begin

text \<open>
  Goroutines that each run one critical section under a mutex (\<^verbatim>\<open>Lock\<close>, several steps on the
  shared state, and the deferred \<^verbatim>\<open>Unlock\<close>), as a step relation, and what the mutex gives: whatever
  the interleaving, the sections took effect one after another. The transport client and the stream
  encoder are instances.
\<close>

subsection \<open>Callers of a mutex\<close>

text \<open>A caller waits for the mutex, holds it or has released it; it is kept with the local state its section began
  in. \<open>move\<close> is one step of a section on its local state and the shared one, \<open>final\<close> tells when it is over.\<close>

datatype 'l caller = Waiting 'l | Holding 'l 'l | Released 'l 'l

inductive mutex_step :: "('l \<Rightarrow> 'w \<Rightarrow> 'l \<Rightarrow> 'w \<Rightarrow> bool) \<Rightarrow> ('l \<Rightarrow> bool) \<Rightarrow> bool \<times> 'l caller list \<times> 'w
    \<Rightarrow> bool \<times> 'l caller list \<times> 'w \<Rightarrow> bool"
  for move :: "'l \<Rightarrow> 'w \<Rightarrow> 'l \<Rightarrow> 'w \<Rightarrow> bool" and final :: "'l \<Rightarrow> bool" where
  acquire: "mutex_step move final (False, xs @ Waiting k # ys, w) (True, xs @ Holding k k # ys, w)"
| inside: "move l w l' w'
    \<Longrightarrow> mutex_step move final (b, xs @ Holding k l # ys, w) (b, xs @ Holding k l' # ys, w')"
| release: "final l
    \<Longrightarrow> mutex_step move final (b, xs @ Holding k l # ys, w) (False, xs @ Released k l # ys, w)"

text \<open>A section run alone, and sections run one after another: each with its first and its last local state.\<close>

definition section_runs :: "('l \<Rightarrow> 'w \<Rightarrow> 'l \<Rightarrow> 'w \<Rightarrow> bool) \<Rightarrow> 'l \<Rightarrow> 'w \<Rightarrow> 'l \<Rightarrow> 'w \<Rightarrow> bool" where
  "section_runs move k w l w' \<longleftrightarrow> (\<lambda>(l, w) (l', w'). move l w l' w')\<^sup>*\<^sup>* (k, w) (l, w')"

lemma section_refl [simp]: "section_runs move l w l w"
  by (simp add: section_runs_def)

lemma section_cases:
  assumes "section_runs move k w l w'"
  obtains (nothing) "l = k" "w' = w" | (first) l1 w1 where "move k w l1 w1" "section_runs move l1 w1 l w'"
  using assms unfolding section_runs_def by (cases rule: converse_rtranclpE) auto

lemma section_stuck: "section_runs move k w l w' \<Longrightarrow> (\<And>l1 w1. \<not> move k w l1 w1) \<Longrightarrow> l = k \<and> w' = w"
  by (erule section_cases) auto

fun performs :: "('l \<Rightarrow> 'l \<Rightarrow> 'w \<Rightarrow> 'w \<Rightarrow> bool) \<Rightarrow> ('l \<times> 'l) list \<Rightarrow> 'w \<Rightarrow> 'w \<Rightarrow> bool" where
  "performs op [] w w' \<longleftrightarrow> w' = w"
| "performs op ((k, l) # ps) w w' \<longleftrightarrow> (\<exists>w1. op k l w w1 \<and> performs op ps w1 w')"

definition whole :: "('l \<Rightarrow> 'w \<Rightarrow> 'l \<Rightarrow> 'w \<Rightarrow> bool) \<Rightarrow> ('l \<Rightarrow> bool) \<Rightarrow> 'l \<Rightarrow> 'l \<Rightarrow> 'w \<Rightarrow> 'w \<Rightarrow> bool" where
  "whole move final k l w w' \<longleftrightarrow> section_runs move k w l w' \<and> final l"

lemma performs_append: "performs op (ps @ qs) w w' \<longleftrightarrow> (\<exists>w1. performs op ps w w1 \<and> performs op qs w1 w')"
  by (induction op ps w w' rule: performs.induct) auto

lemma performs_mono:
  "performs op ps w w' \<Longrightarrow> (\<And>k l w w'. (k, l) \<in> set ps \<Longrightarrow> op k l w w' \<Longrightarrow> op' k l w w') \<Longrightarrow> performs op' ps w w'"
  by (induction op ps w w' rule: performs.induct) (auto, blast)

fun released_pair :: "'l caller \<Rightarrow> ('l \<times> 'l) list" where
  "released_pair (Released k l) = [(k, l)]"
| "released_pair _ = []"

definition released :: "'l caller list \<Rightarrow> ('l \<times> 'l) list" where
  "released ts = concat (map released_pair ts)"

fun started :: "'l caller \<Rightarrow> 'l" where
  "started (Waiting k) = k"
| "started (Holding k l) = k"
| "started (Released k l) = k"

fun holds :: "'l caller \<Rightarrow> bool" where
  "holds (Holding k l) = True"
| "holds _ = False"

lemma released_simps [simp]:
  "released [] = []" "released (xs @ ys) = released xs @ released ys"
  "released (t # ys) = released_pair t @ released ys"
  by (simp_all add: released_def)

lemma released_waiting [simp]: "released (map Waiting ks) = []"
  by (induction ks) simp_all

subsection \<open>At most one caller holds it, and the others have run or will\<close>

text \<open>What a state of the mutex has behind it: the released sections in some order, and then the steps of the one
  that holds it, if any.\<close>

definition mutex_inv :: "('l \<Rightarrow> 'w \<Rightarrow> 'l \<Rightarrow> 'w \<Rightarrow> bool) \<Rightarrow> ('l \<Rightarrow> bool) \<Rightarrow> 'w \<Rightarrow> bool \<times> 'l caller list \<times> 'w \<Rightarrow> bool" where
  "mutex_inv move final w0 s \<longleftrightarrow> (case s of (b, ts, w) \<Rightarrow>
     \<exists>ps w1. mset ps = mset (released ts) \<and> performs (whole move final) ps w0 w1
       \<and> (if b then \<exists>xs k l ys. ts = xs @ Holding k l # ys \<and> list_all (\<lambda>t. \<not> holds t) (xs @ ys) \<and> section_runs move k w1 l w
          else w = w1 \<and> list_all (\<lambda>t. \<not> holds t) ts))"

lemma mutex_inv_start: "mutex_inv move final w (False, map Waiting ks, w)"
  by (auto simp: mutex_inv_def list_all_iff intro: exI [of _ "[]"])

lemma one_holder:
  assumes "xs @ Holding k l # ys = us @ Holding k' l' # vs" "list_all (\<lambda>t. \<not> holds t) (us @ vs)"
  shows "us = xs \<and> k' = k \<and> l' = l \<and> vs = ys"
proof -
  have "list_all (\<lambda>t. \<not> holds t) us" "list_all (\<lambda>t. \<not> holds t) vs"
    using assms(2) by simp_all
  with assms(1) show ?thesis
    by (auto simp: append_eq_append_conv2 Cons_eq_append_conv append_eq_Cons_conv)
qed

lemma holder_known:
  assumes "mutex_inv move final w0 (b, xs @ Holding k l # ys, w)"
  shows "b \<and> list_all (\<lambda>t. \<not> holds t) (xs @ ys)
    \<and> (\<exists>ps w1. mset ps = mset (released (xs @ ys)) \<and> performs (whole move final) ps w0 w1 \<and> section_runs move k w1 l w)"
  using assms by (auto simp: mutex_inv_def split: if_splits dest!: one_holder)

lemma mutex_inv_step:
  assumes "mutex_step move final s t" "mutex_inv move final w0 s"
  shows "mutex_inv move final w0 t"
  using assms(1)
proof (cases rule: mutex_step.cases)
  case (acquire xs k ys w)
  with assms(2) show ?thesis
    by (fastforce simp: mutex_inv_def section_runs_def)
next
  case (inside l w l' w' b xs k ys)
  from holder_known [OF assms(2) [unfolded inside(1)]] obtain ps w1 where
    inv: "b" "list_all (\<lambda>t. \<not> holds t) (xs @ ys)" "mset ps = mset (released (xs @ ys))"
    "performs (whole move final) ps w0 w1" "section_runs move k w1 l w"
    by blast
  have "section_runs move k w1 l' w'"
    using inv(5) inside(3) unfolding section_runs_def by (auto intro: rtranclp.rtrancl_into_rtrancl)
  with inv show ?thesis
    unfolding inside(2) mutex_inv_def by fastforce
next
  case (release l b xs k ys w)
  from holder_known [OF assms(2) [unfolded release(1)]] obtain ps w1 where
    inv: "list_all (\<lambda>t. \<not> holds t) (xs @ ys)" "mset ps = mset (released (xs @ ys))"
    "performs (whole move final) ps w0 w1" "section_runs move k w1 l w"
    by blast
  then have "performs (whole move final) (ps @ [(k, l)]) w0 w"
    using release(3) by (auto simp: performs_append whole_def)
  with inv show ?thesis
    unfolding release(2) mutex_inv_def by (intro case_prodI exI [of _ "ps @ [(k, l)]"]) auto
qed

lemma mutex_inv_reachable:
  "(mutex_step move final)\<^sup>*\<^sup>* s t \<Longrightarrow> mutex_inv move final w0 s \<Longrightarrow> mutex_inv move final w0 t"
  by (induction rule: rtranclp_induct) (auto intro: mutex_inv_step)

lemma started_step: "mutex_step move final s t \<Longrightarrow> map started (fst (snd t)) = map started (fst (snd s))"
  by (erule mutex_step.cases) simp_all

lemma started_run: "(mutex_step move final)\<^sup>*\<^sup>* s t \<Longrightarrow> map started (fst (snd t)) = map started (fst (snd s))"
  by (induction rule: rtranclp_induct) (auto dest: started_step)

fun returned :: "'l caller \<Rightarrow> bool" where
  "returned (Released k l) = True"
| "returned _ = False"

lemma returned_simps: "returned t \<longleftrightarrow> (\<exists>k l. t = Released k l)"
  by (cases t) simp_all

lemma released_started: "list_all returned ts \<Longrightarrow> map fst (released ts) = map started ts"
  by (induction ts) (auto simp: returned_simps)

lemma released_mem: "(k, l) \<in> set (released ts) \<longleftrightarrow> Released k l \<in> set ts"
proof (induction ts)
  case (Cons t ts)
  then show ?case by (cases t) auto
qed simp

text \<open>Conversely sections that run one after another are a run of the goroutines.\<close>

lemma section_inside:
  assumes "section_runs move k w l w'"
  shows "(mutex_step move final)\<^sup>*\<^sup>* (b, xs @ Holding k0 k # ys, w) (b, xs @ Holding k0 l # ys, w')"
  using assms unfolding section_runs_def
proof (induction rule: rtranclp_induct2)
  case (step l w l' w')
  then show ?case
    by (auto intro: rtranclp.rtrancl_into_rtrancl mutex_step.inside)
qed simp

lemma serial_run:
  assumes "performs (whole move final) ps w w'"
  shows "(mutex_step move final)\<^sup>*\<^sup>* (False, xs @ map (\<lambda>p. Waiting (fst p)) ps, w)
    (False, xs @ map (\<lambda>(k, l). Released k l) ps, w')"
  using assms
proof (induction ps arbitrary: w xs)
  case (Cons p ps)
  obtain k l where p: "p = (k, l)" by (cases p)
  then obtain w1 where "whole move final k l w w1" and rest: "performs (whole move final) ps w1 w'"
    using Cons.prems by auto
  then have w1: "section_runs move k w l w1" "final l"
    by (simp_all add: whole_def)
  let ?ys = "map (\<lambda>p. Waiting (fst p)) ps"
  have "mutex_step move final (False, xs @ Waiting k # ?ys, w) (True, xs @ Holding k k # ?ys, w)"
    by (rule mutex_step.acquire)
  also have "(mutex_step move final)\<^sup>*\<^sup>* \<dots> (True, xs @ Holding k l # ?ys, w1)"
    by (rule section_inside [OF w1(1)])
  also have "mutex_step move final \<dots> (False, xs @ Released k l # ?ys, w1)"
    by (rule mutex_step.release) (fact w1(2))
  also have "(mutex_step move final)\<^sup>*\<^sup>* \<dots> (False, xs @ map (\<lambda>(k, l). Released k l) (p # ps), w')"
    using Cons.IH [OF rest, of "xs @ [Released k l]"] p by simp
  finally show ?case using p by simp
qed simp

subsection \<open>Critical sections\<close>

text \<open>A section that begins in a state of \<open>starts\<close> and runs alone does what \<open>op\<close> says.\<close>

locale critical_section =
  fixes move :: "'l \<Rightarrow> 'w \<Rightarrow> 'l \<Rightarrow> 'w \<Rightarrow> bool" and final :: "'l \<Rightarrow> bool"
    and starts :: "'l \<Rightarrow> bool" and op :: "'l \<Rightarrow> 'l \<Rightarrow> 'w \<Rightarrow> 'w \<Rightarrow> bool"
  assumes computes: "starts k \<Longrightarrow> section_runs move k w l w' \<Longrightarrow> final l \<Longrightarrow> op k l w w'"
begin

lemma serialised:
  assumes "(mutex_step move final)\<^sup>*\<^sup>* (False, map Waiting ks, w) (b, ts, w')"
    and "list_all starts ks" "list_all returned ts"
  shows "map fst (released ts) = ks \<and> (\<exists>ps. mset ps = mset (released ts) \<and> performs op ps w w')"
proof -
  have ks: "map fst (released ts) = ks"
    using released_started [OF assms(3)] started_run [OF assms(1)] by (simp add: comp_def)
  have "mutex_inv move final w (b, ts, w')"
    by (rule mutex_inv_reachable [OF assms(1) mutex_inv_start])
  moreover have "\<not> b"
    using calculation assms(3) by (auto simp: mutex_inv_def)
  ultimately obtain ps where ps: "mset ps = mset (released ts)" "performs (whole move final) ps w w'"
    by (auto simp: mutex_inv_def)
  have "starts k" if "(k, l) \<in> set ps" for k l
  proof -
    have "(k, l) \<in> set (released ts)"
      using that ps(1) by (metis set_mset_mset)
    then have "k \<in> set ks" using ks by force
    with assms(2) show ?thesis by (simp add: list_all_iff)
  qed
  then have "performs op ps w w'"
    using performs_mono [OF ps(2), of op] computes unfolding whole_def by blast
  with ps(1) ks show ?thesis by blast
qed

end

text \<open>Sections that end: every caller gets the mutex and returns.\<close>

locale ending_section = critical_section +
  fixes steps_left :: "'a \<Rightarrow> nat"
  assumes move_lowers: "move l w l' w' \<Longrightarrow> steps_left l' < steps_left l"
    and move_enabled: "\<not> final l \<Longrightarrow> \<exists>l' w'. move l w l' w'"
begin

fun caller_weight :: "'a caller \<Rightarrow> nat" where
  "caller_weight (Waiting k) = steps_left k + 2"
| "caller_weight (Holding k l) = steps_left l + 1"
| "caller_weight (Released k l) = 0"

definition callers_weight :: "bool \<times> 'a caller list \<times> 'b \<Rightarrow> nat" where
  "callers_weight s = sum_list (map caller_weight (fst (snd s)))"

definition callers_good :: "bool \<times> 'a caller list \<times> 'b \<Rightarrow> bool" where
  "callers_good s \<longleftrightarrow> (\<exists>w0. mutex_inv move final w0 s)"

lemma callers_step: "callers_good s \<Longrightarrow> mutex_step move final s t \<Longrightarrow> callers_good t"
  by (auto simp: callers_good_def intro: mutex_inv_step)

lemma callers_lower: "mutex_step move final s t \<Longrightarrow> callers_weight t < callers_weight s"
  by (erule mutex_step.cases) (auto simp: callers_weight_def dest: move_lowers)

lemma callers_enabled:
  assumes "callers_good s" "callers_weight s \<noteq> 0"
  shows "\<exists>t. mutex_step move final s t"
proof -
  obtain b ts w where s: "s = (b, ts, w)" by (cases s)
  obtain w0 where inv: "mutex_inv move final w0 (b, ts, w)"
    using assms(1) s by (auto simp: callers_good_def)
  show ?thesis
  proof (cases b)
    case True
    then obtain xs k l ys where ts: "ts = xs @ Holding k l # ys"
      using inv by (auto simp: mutex_inv_def)
    show ?thesis
      using mutex_step.release [of final l move b xs k ys w] mutex_step.inside [of move l w _ _ final b xs k ys]
        move_enabled [of l w] s ts by blast
  next
    case False
    obtain t where t: "t \<in> set ts" "caller_weight t \<noteq> 0"
      using assms(2) s by (auto simp: callers_weight_def)
    moreover have "\<not> holds t"
      using inv False t(1) by (auto simp: mutex_inv_def list_all_iff)
    ultimately obtain k where "t = Waiting k" by - (cases t, simp_all)
    with t(1) obtain xs ys where "ts = xs @ Waiting k # ys" by (meson split_list)
    with s False show ?thesis using mutex_step.acquire [of move final xs k ys w] by auto
  qed
qed

lemma callers_done: "callers_weight s = 0 \<longleftrightarrow> list_all returned (fst (snd s))"
proof -
  have "caller_weight t = 0 \<longleftrightarrow> returned t" for t by (cases t) simp_all
  then show ?thesis by (auto simp: callers_weight_def list_all_iff)
qed

end

sublocale ending_section \<subseteq> callers: draining_within "mutex_step move final" callers_weight callers_good
  by unfold_locales (fact callers_step, rule callers_lower, assumption, fact callers_enabled)

context ending_section
begin

lemma all_return: "\<exists>b ts w'. (mutex_step move final)\<^sup>*\<^sup>* (False, map Waiting ks, w) (b, ts, w') \<and> list_all returned ts"
proof -
  have "callers_good (False, map Waiting ks, w)"
    by (auto simp: callers_good_def intro: mutex_inv_start)
  from callers.drains_within [OF this] show ?thesis
    by (metis callers_done fst_conv snd_conv surj_pair)
qed

end

end
