(* ===== verification/SharedClient.thy ===== *)
theory SharedClient
  imports EndToEnd Mutex
begin

text \<open>
  One transport client used by several goroutines (transportclient.go): \<^verbatim>\<open>call\<close> and \<^verbatim>\<open>Close\<close> in
  steps, under the mutex of the client. Transport has them as functions on the state of the
  connection; here that is what they compute, one after another.
\<close>

subsection \<open>The steps of a call\<close>

text \<open>A call before and after it has encoded its message, and its result; \<^verbatim>\<open>Close\<close> before it, and with the error of
  closing the encoder.\<close>

datatype client_local =
    Called ctx outgoing bool
  | Encoded ctx
  | Answered "go_error + bytes"
  | Closing
  | HalfClosed "go_error option"
  | ClosedWith "go_error option"

inductive client_move :: "'w TransportClient \<Rightarrow> client_local \<Rightarrow> 'w \<Rightarrow> client_local \<Rightarrow> 'w \<Rightarrow> bool"
  for t :: "'w TransportClient" where
  call_dead: "ctx_err c = Some err \<Longrightarrow> client_move t (Called c rpc n) w (Answered (Inl err)) w"
| encode_failed: "\<lbrakk>ctx_err c = None; tc_Encode t c rpc w = (Some err, w')\<rbrakk>
    \<Longrightarrow> client_move t (Called c rpc n) w (Answered (Inl err)) w'"
| notified: "\<lbrakk>ctx_err c = None; tc_Encode t c rpc w = (None, w')\<rbrakk>
    \<Longrightarrow> client_move t (Called c rpc True) w (Answered (Inr [])) w'"
| encoded: "\<lbrakk>ctx_err c = None; tc_Encode t c rpc w = (None, w')\<rbrakk>
    \<Longrightarrow> client_move t (Called c rpc False) w (Encoded c) w'"
| decoded: "tc_Decode t c w = (r, w') \<Longrightarrow> client_move t (Encoded c) w (Answered r) w'"
| close_encoder: "(case tc_Close_e t of Some f \<Rightarrow> f w | None \<Rightarrow> (None, w)) = (err, w')
    \<Longrightarrow> client_move t Closing w (HalfClosed err) w'"
| close_decoder: "(case tc_Close_d t of Some g \<Rightarrow> (case g w of (e2, w2) \<Rightarrow> (errors_join [err, e2], w2)) | None \<Rightarrow> (err, w)) = (r, w')
    \<Longrightarrow> client_move t (HalfClosed err) w (ClosedWith r) w'"

fun client_final :: "client_local \<Rightarrow> bool" where
  "client_final (Answered r) = True"
| "client_final (ClosedWith e) = True"
| "client_final _ = False"

fun client_starts :: "client_local \<Rightarrow> bool" where
  "client_starts (Called c rpc n) = True"
| "client_starts Closing = True"
| "client_starts _ = False"

text \<open>What a section computes, as the functions of Transport.\<close>

fun client_op :: "'w TransportClient \<Rightarrow> client_local \<Rightarrow> client_local \<Rightarrow> 'w \<Rightarrow> 'w \<Rightarrow> bool" where
  "client_op t (Called c rpc n) (Answered r) w w' \<longleftrightarrow> transport_call t c rpc n w = (r, w')"
| "client_op t Closing (ClosedWith e) w w' \<longleftrightarrow> Transport_Close t w = (e, w')"
| "client_op t _ _ w w' \<longleftrightarrow> False"

fun client_left :: "client_local \<Rightarrow> nat" where
  "client_left (Called c rpc n) = 2"
| "client_left (Encoded c) = 1"
| "client_left Closing = 2"
| "client_left (HalfClosed e) = 1"
| "client_left _ = 0"

inductive_cases client_moveE [elim!]:
  "client_move t (Called c rpc n) w l w'" "client_move t (Encoded c) w l w'" "client_move t (Answered r) w l w'"
  "client_move t Closing w l w'" "client_move t (HalfClosed e) w l w'" "client_move t (ClosedWith e) w l w'"

lemma client_ended:
  "section_runs (client_move t) k w l w' \<Longrightarrow> client_final k \<Longrightarrow> l = k \<and> w' = w"
  by (rule section_stuck) (auto elim!: client_move.cases)

lemma client_decodes:
  assumes "section_runs (client_move t) (Encoded c) w l w'" "client_final l"
  shows "\<exists>r. l = Answered r \<and> tc_Decode t c w = (r, w')"
  using assms(1)
proof (cases rule: section_cases)
  case nothing
  with assms(2) show ?thesis by simp
next
  case (first l1 w1)
  from first(1) show ?thesis using client_ended [OF first(2)] by cases simp
qed

lemma client_closes:
  assumes "section_runs (client_move t) (HalfClosed e) w l w'" "client_final l"
  shows "\<exists>r. l = ClosedWith r
    \<and> (case tc_Close_d t of Some g \<Rightarrow> (case g w of (e2, w2) \<Rightarrow> (errors_join [e, e2], w2)) | None \<Rightarrow> (e, w)) = (r, w')"
  using assms(1)
proof (cases rule: section_cases)
  case nothing
  with assms(2) show ?thesis by simp
next
  case (first l1 w1)
  from first(1) show ?thesis using client_ended [OF first(2)] by cases simp
qed

lemma client_computes:
  assumes "client_starts k" "section_runs (client_move t) k w l w'" "client_final l"
  shows "client_op t k l w w'"
  using assms(2)
proof (cases rule: section_cases)
  case nothing
  with assms(1,3) show ?thesis by (cases k) simp_all
next
  case (first l1 w1)
  show ?thesis
  proof (cases k)
    case (Called c rpc n)
    from first(1) [unfolded Called] show ?thesis
      using client_ended [OF first(2)] first(2)
      by cases (auto simp: Called transport_call_def split: sum.split dest!: client_decodes [OF _ assms(3)])
  next
    case Closing
    from first(1) [unfolded Closing] show ?thesis
      using first(2)
      by cases (auto simp: Closing Transport_Close_def Let_def split: option.splits prod.splits
        dest!: client_closes [OF _ assms(3)])
  qed (use assms(1) in simp_all)
qed

lemma client_enabled: "\<not> client_final l \<Longrightarrow> \<exists>l' w'. client_move t l w l' w'"
proof (cases l)
  case (Called c rpc n)
  then show ?thesis
    by (cases "ctx_err c"; cases "tc_Encode t c rpc w"; cases "fst (tc_Encode t c rpc w)"; cases n)
      (auto intro: client_move.intros)
next
  case (Encoded c)
  then show ?thesis by (metis client_move.decoded surj_pair)
next
  case Closing
  then show ?thesis by (metis client_move.close_encoder surj_pair)
next
  case (HalfClosed e)
  then show ?thesis by (metis client_move.close_decoder surj_pair)
qed simp_all

interpretation shared_client: ending_section "client_move t" client_final client_starts "client_op t" client_left
  for t :: "'w TransportClient"
  by unfold_locales (fact client_computes, auto elim!: client_move.cases, fact client_enabled)

subsection \<open>Calls over one bridge\<close>

lemma bridge_encode_keeps:
  "Bridge_Encode newReq post mar h c v w = (e, h', w') \<Longrightarrow> hb_closed h' = hb_closed h \<and> hb_url h' = hb_url h"
  by (auto simp: Bridge_Encode_def Let_def split: if_splits sum.splits option.splits prod.splits)

lemma bridge_call_keeps:
  "transport_call (bridge_transport newReq post) c m n (h, w) = (r, (h', w')) \<Longrightarrow>
   hb_closed h' = hb_closed h \<and> hb_url h' = hb_url h"
  by (auto simp: transport_call_def bridge_transport_def NewTransportClient_def
      split: option.splits prod.splits if_splits sum.splits dest!: bridge_encode_keeps)

lemma Transport_Call_raw:
  "Transport_Call t c r w = (Inr resp, w') \<Longrightarrow>
   \<exists>raw. transport_call t c (OutRequest r) False w = (Inr raw, w') \<and> tc_response t raw = Inr resp"
  by (auto simp: Transport_Call_def split: prod.splits sum.splits)

text \<open>A goroutine's call.\<close>

definition calling :: "ctx \<times> Request \<Rightarrow> client_local" where
  "calling x = Called (fst x) (OutRequest (snd x)) False"

definition callable :: "ctx \<times> Request \<Rightarrow> bool" where
  "callable x \<longleftrightarrow> ctx_err (fst x) = None \<and> sendable_request (snd x) \<and> \<not> Request_IsNotification (snd x)"

text \<open>Calls in the order they had the mutex: each with its caller and the text it was given.\<close>

lemma calls_in_order:
  assumes "performs (client_op (bridge_transport newReq (http_network slog h stop cerr))) ps (br, u) (br', u')"
    and "\<forall>(k, l) \<in> set ps. \<exists>x. k = calling x \<and> callable x \<and> handler_answers (hh_handler h) (http_ctx\<lparr>ctx_rpc_server := True\<rparr>) (snd x)"
    and "plain_request h cerr \<lparr>hr_content_type = ''application/json'', hr_body = []\<rparr>"
    and "\<not> hb_closed br" "newReq (hb_url br) = None"
  shows "\<exists>xs outs. ps = map (\<lambda>(x, raw). (calling x, Answered (Inr raw))) xs
    \<and> outcomes (hh_handler h) (http_ctx\<lparr>ctx_rpc_server := True\<rparr>) (map (\<lambda>(x, raw). received_request (snd x)) xs) u = (outs, u')
    \<and> list_all2 (\<lambda>(x, raw) out. unmarshal_response raw =
        Inr (received_response (reply_of (received_request (snd x)) out))) xs outs"
  using assms
proof (induction ps arbitrary: br u)
  case Nil
  then show ?case by (intro exI [of _ "[]"]) simp
next
  case (Cons p ps)
  let ?t = "bridge_transport newReq (http_network slog h stop cerr)"
  obtain x l where p: "p = (calling x, l)" and x: "callable x" "handler_answers (hh_handler h) (http_ctx\<lparr>ctx_rpc_server := True\<rparr>) (snd x)"
    using Cons.prems(2) by fastforce
  obtain br1 u1 where first: "client_op ?t (calling x) l (br, u) (br1, u1)" and rest: "performs (client_op ?t) ps (br1, u1) (br', u')"
    using Cons.prems(1) p by auto
  obtain r where l: "l = Answered r" and call: "transport_call ?t (fst x) (OutRequest (snd x)) False (br, u) = (r, (br1, u1))"
    using first by (cases l) (simp_all add: calling_def)
  obtain out u2 where out: "Handle (hh_handler h) (http_ctx\<lparr>ctx_rpc_server := True\<rparr>) (received_request (snd x)) u = (out, u2)"
    by fastforce
  with x have good: "plain_outcome out" "sendable_response (reply_of (received_request (snd x)) out)"
    unfolding handler_answers_def callable_def by (auto dest: spec [of _ u])
  have "\<exists>br2. Transport_Call ?t (fst x) (snd x) (br, u) = (Inr (received_response (reply_of (received_request (snd x)) out)), (br2, u2))"
    by (rule http_call) (use x(1) Cons.prems(3-5) out good in \<open>simp_all add: callable_def\<close>)
  then obtain raw where raw: "r = Inr raw" "u2 = u1" "unmarshal_response raw = Inr (received_response (reply_of (received_request (snd x)) out))"
    using call by (auto dest!: Transport_Call_raw simp: bridge_transport_def NewTransportClient_def)
  have "\<not> hb_closed br1" "newReq (hb_url br1) = None"
    using bridge_call_keeps [OF call] Cons.prems(4,5) by simp_all
  from Cons.IH [OF rest _ Cons.prems(3) this] Cons.prems(2) obtain xs outs where
    ih: "ps = map (\<lambda>(x, raw). (calling x, Answered (Inr raw))) xs"
      "outcomes (hh_handler h) (http_ctx\<lparr>ctx_rpc_server := True\<rparr>) (map (\<lambda>(x, raw). received_request (snd x)) xs) u1 = (outs, u')"
      "list_all2 (\<lambda>(x, raw) out. unmarshal_response raw =
        Inr (received_response (reply_of (received_request (snd x)) out))) xs outs"
    by auto
  with p l raw out show ?case
    by (intro exI [of _ "(x, raw) # xs"] exI [of _ "out # outs"]) simp
qed

end
