(* ===== verification/Deadlines.thy ===== *)
theory Deadlines
  imports Codecs
begin

text \<open>
  How the codecs interrupt a call whose context ends (\<^verbatim>\<open>cancelDecode\<close>, \<^verbatim>\<open>cancelEncode\<close>,
  \<^verbatim>\<open>DecodeFrom\<close>, \<^verbatim>\<open>EncodeTo\<close>), as a step relation: the call itself, the timer of its context,
  the goroutine \<^verbatim>\<open>context.AfterFunc\<close> starts, and the peer. The codecs of StreamCodec and Codecs
  are the functions these calls compute.

  \<open>io interrupted i\<close> is one step of the reading or writing: \<open>None\<close> when it blocks, a new state when it
  goes on, a result when it ends; \<open>interrupted\<close> tells that the deadline has been set or the connection
  closed. \<open>peer\<close> is what the other end may do to the state meanwhile. \<open>report\<close> makes the call's result
  from whether \<open>after()\<close> came too late and from \<open>dctx.Err()\<close>.
\<close>

subsection \<open>A guarded call\<close>

datatype after_func = Armed | Running | Ran | Disarmed

datatype ('r, 'x) call_phase = Busy | Got 'r | Joining 'r | Reporting 'r | Finished 'x

record ('i, 'r, 'x) call_state =
  cs_phase :: "('r, 'x) call_phase"
  cs_after :: after_func
  cs_err :: "go_error option"
  cs_interrupted :: bool
  cs_io :: 'i

type_synonym ('i, 'r) io_step = "bool \<Rightarrow> 'i \<Rightarrow> ('i + 'r \<times> 'i) option"

inductive call_step :: "('i, 'r) io_step \<Rightarrow> ('i \<Rightarrow> 'i \<Rightarrow> bool) \<Rightarrow> (bool \<Rightarrow> go_error option \<Rightarrow> 'r \<Rightarrow> 'x)
    \<Rightarrow> ('i, 'r, 'x) call_state \<Rightarrow> ('i, 'r, 'x) call_state \<Rightarrow> bool"
  for io :: "('i, 'r) io_step" and peer :: "'i \<Rightarrow> 'i \<Rightarrow> bool" and report :: "bool \<Rightarrow> go_error option \<Rightarrow> 'r \<Rightarrow> 'x" where
  io_more: "\<lbrakk>cs_phase s = Busy; io (cs_interrupted s) (cs_io s) = Some (Inl i)\<rbrakk>
    \<Longrightarrow> call_step io peer report s (s\<lparr>cs_io := i\<rparr>)"
| io_done: "\<lbrakk>cs_phase s = Busy; io (cs_interrupted s) (cs_io s) = Some (Inr (r, i))\<rbrakk>
    \<Longrightarrow> call_step io peer report s (s\<lparr>cs_phase := Got r, cs_io := i\<rparr>)"
| peer_acts: "peer (cs_io s) i \<Longrightarrow> call_step io peer report s (s\<lparr>cs_io := i\<rparr>)"
| ctx_ends: "\<lbrakk>cs_err s = None; ctx_error (Some e)\<rbrakk>
    \<Longrightarrow> call_step io peer report s (s\<lparr>cs_err := Some e\<rparr>)"
| after_starts: "\<lbrakk>cs_after s = Armed; cs_err s \<noteq> None\<rbrakk>
    \<Longrightarrow> call_step io peer report s (s\<lparr>cs_after := Running\<rparr>)"
| interrupts: "cs_after s = Running
    \<Longrightarrow> call_step io peer report s (s\<lparr>cs_after := Ran, cs_interrupted := True\<rparr>)"
| after_stops: "\<lbrakk>cs_phase s = Got r; cs_after s = Armed\<rbrakk>
    \<Longrightarrow> call_step io peer report s (s\<lparr>cs_phase := Reporting r, cs_after := Disarmed\<rparr>)"
| after_late: "\<lbrakk>cs_phase s = Got r; cs_after s = Running \<or> cs_after s = Ran\<rbrakk>
    \<Longrightarrow> call_step io peer report s (s\<lparr>cs_phase := Joining r\<rparr>)"
| joined: "\<lbrakk>cs_phase s = Joining r; cs_after s = Ran\<rbrakk>
    \<Longrightarrow> call_step io peer report s (s\<lparr>cs_phase := Reporting r\<rparr>)"
| reports: "cs_phase s = Reporting r
    \<Longrightarrow> call_step io peer report s (s\<lparr>cs_phase := Finished (report (cs_after s = Ran) (cs_err s) r)\<rparr>)"

text \<open>The context's error may show before its goroutine has started. The start: the old deadline has been cleared, and the goroutine runs at once when the context has
  already ended.\<close>

definition call_start :: "go_error option \<Rightarrow> 'i \<Rightarrow> ('i, 'r, 'x) call_state" where
  "call_start e i = \<lparr>cs_phase = Busy, cs_after = (if e = None then Armed else Running), cs_err = e,
     cs_interrupted = False, cs_io = i\<rparr>"

definition call_inv :: "('i, 'r, 'x) call_state \<Rightarrow> bool" where
  "call_inv s \<longleftrightarrow> (cs_err s = None \<or> ctx_error (cs_err s))
     \<and> (cs_after s = Running \<or> cs_after s = Ran \<longrightarrow> cs_err s \<noteq> None)
     \<and> (cs_interrupted s \<longleftrightarrow> cs_after s = Ran)
     \<and> (case cs_phase s of
          Busy \<Rightarrow> cs_after s \<noteq> Disarmed
        | Got r \<Rightarrow> cs_after s \<noteq> Disarmed
        | Joining r \<Rightarrow> cs_after s = Running \<or> cs_after s = Ran
        | Reporting r \<Rightarrow> cs_after s = Ran \<or> cs_after s = Disarmed
        | Finished x \<Rightarrow> cs_after s = Ran \<or> cs_after s = Disarmed)"

lemma call_inv_start: "e = None \<or> ctx_error e \<Longrightarrow> call_inv (call_start e i)"
  by (simp add: call_inv_def call_start_def)

lemma call_inv_step: "call_step io peer report s t \<Longrightarrow> call_inv s \<Longrightarrow> call_inv t"
  by (erule call_step.cases) (auto simp: call_inv_def split: call_phase.splits)

lemma call_inv_reachable: "(call_step io peer report)\<^sup>*\<^sup>* s t \<Longrightarrow> call_inv s \<Longrightarrow> call_inv t"
  by (induction rule: rtranclp_induct) (auto intro: call_inv_step)

text \<open>After the end of a call nothing touches the deadline any more.\<close>

lemma finished_step:
  assumes "call_step io peer report s t" "call_inv s" "cs_phase s = Finished x"
  shows "cs_phase t = Finished x \<and> cs_interrupted t = cs_interrupted s"
  using assms by (cases rule: call_step.cases) (auto simp: call_inv_def)

lemma finished_run:
  assumes "(call_step io peer report)\<^sup>*\<^sup>* s t" "call_inv s" "cs_phase s = Finished x"
  shows "cs_phase t = Finished x \<and> cs_interrupted t = cs_interrupted s"
  using assms
proof (induction rule: rtranclp_induct)
  case (step t u)
  with finished_step [OF step.hyps(2) call_inv_reachable [OF step.hyps(1)]] show ?case by simp
qed simp

subsection \<open>A call whose context has ended can return\<close>

text \<open>The peer is silent.\<close>

definition silent :: "'i \<Rightarrow> 'i \<Rightarrow> bool" where
  "silent i j \<longleftrightarrow> False"

fun phase_weight :: "('r, 'x) call_phase \<Rightarrow> nat" where
  "phase_weight Busy = 4"
| "phase_weight (Got r) = 3"
| "phase_weight (Joining r) = 2"
| "phase_weight (Reporting r) = 1"
| "phase_weight (Finished x) = 0"

definition call_weight :: "('i \<Rightarrow> nat) \<Rightarrow> ('i, 'r, 'x) call_state \<Rightarrow> nat" where
  "call_weight m s = phase_weight (cs_phase s) + (if cs_phase s = Busy then m (cs_io s) else 0)
     + (case cs_after s of Armed \<Rightarrow> 2 | Running \<Rightarrow> 1 | _ \<Rightarrow> 0)"

definition call_cut :: "('i, 'r, 'x) call_state \<Rightarrow> bool" where
  "call_cut s \<longleftrightarrow> call_inv s \<and> cs_err s \<noteq> None"

locale interruptible =
  fixes io :: "('i, 'r) io_step" and io_weight :: "'i \<Rightarrow> nat"
  assumes io_interrupted: "io True i \<noteq> None"
    and io_lowers: "io b i = Some (Inl j) \<Longrightarrow> io_weight j < io_weight i"
begin

lemma cut_lowers:
  assumes "call_cut s" "call_step io silent report s t"
  shows "call_weight io_weight t < call_weight io_weight s"
  using assms(2,1)
  by (cases rule: call_step.cases)
     (auto simp: call_cut_def call_inv_def call_weight_def silent_def dest: io_lowers
        split: call_phase.splits after_func.splits)

lemma cut_enabled:
  assumes "call_cut s" "call_weight io_weight s \<noteq> 0"
  shows "\<exists>t. call_step io silent report s t"
proof (cases "cs_after s = Running \<or> cs_after s = Armed")
  case True
  then show ?thesis
    using assms(1) unfolding call_cut_def by (blast intro: call_step.interrupts call_step.after_starts)
next
  case False
  show ?thesis
  proof (cases "cs_phase s")
    case Busy
    then have "cs_interrupted s"
      using assms(1) False by (cases "cs_after s") (auto simp: call_cut_def call_inv_def)
    with io_interrupted [of "cs_io s"] obtain y where "io (cs_interrupted s) (cs_io s) = Some y" by auto
    with Busy show ?thesis by (cases y) (auto intro: call_step.io_more call_step.io_done)
  next
    case (Got r)
    then have "cs_after s = Ran"
      using assms(1) False by (cases "cs_after s") (auto simp: call_cut_def call_inv_def)
    with Got show ?thesis by (blast intro: call_step.after_late)
  next
    case (Joining r)
    then have "cs_after s = Ran"
      using assms(1) False by (auto simp: call_cut_def call_inv_def)
    with Joining show ?thesis by (blast intro: call_step.joined)
  next
    case (Reporting r)
    then show ?thesis by (blast intro: call_step.reports)
  next
    case (Finished x)
    with False assms(2) show ?thesis by (simp add: call_weight_def split: after_func.splits)
  qed
qed

lemma cut_kept: "call_cut s \<Longrightarrow> call_step io silent report s t \<Longrightarrow> call_cut t"
  by (auto simp: call_cut_def intro: call_inv_step elim: call_step.cases)

end

sublocale interruptible \<subseteq> cut: draining_within "call_step io silent report" "call_weight io_weight" call_cut
  for report :: "bool \<Rightarrow> go_error option \<Rightarrow> 'r \<Rightarrow> 'x"
  by unfold_locales (fact cut_kept, fact cut_lowers, fact cut_enabled)

context interruptible
begin

lemma cut_returns:
  assumes "call_inv s" "cs_err s \<noteq> None"
  shows "\<exists>t x. (call_step io silent report)\<^sup>*\<^sup>* s t \<and> cs_phase t = Finished x"
    "(call_step io silent report ^^ n) s t \<Longrightarrow> n \<le> io_weight (cs_io s) + 6"
proof -
  have cut: "call_cut s" using assms by (simp add: call_cut_def)
  obtain u where u: "(call_step io silent report)\<^sup>*\<^sup>* s u" "call_weight io_weight u = 0"
    using cut.drains_within [OF cut] by blast
  then have "\<exists>x. cs_phase u = Finished x"
    by (cases "cs_phase u") (simp_all add: call_weight_def)
  with u(1) show "\<exists>t x. (call_step io silent report)\<^sup>*\<^sup>* s t \<and> cs_phase t = Finished x" by blast
  have "call_weight io_weight s \<le> io_weight (cs_io s) + 6"
    by (cases "cs_phase s"; cases "cs_after s") (simp_all add: call_weight_def)
  then show "n \<le> io_weight (cs_io s) + 6" if "(call_step io silent report ^^ n) s t"
    using cut.run_bounded_within [OF cut that] by simp
qed

end

lemma silent_step: "call_step io silent report s t \<Longrightarrow> call_step io peer report s t"
  by (erule call_step.cases) (auto intro: call_step.intros simp: silent_def)

lemma silent_run: "(call_step io silent report)\<^sup>*\<^sup>* s t \<Longrightarrow> (call_step io peer report)\<^sup>*\<^sup>* s t"
  by (induction rule: rtranclp_induct) (auto intro: silent_step rtranclp.rtrancl_into_rtrancl)

subsection \<open>What a call computes\<close>

text \<open>\<open>busy\<close> holds of the state while the call runs and \<open>post\<close> once it has a result, which it may owe
  to an interrupt; whatever the peer does. Then the value the call returns is made of such a result.\<close>

definition outcome_of :: "(bool \<Rightarrow> 'r \<Rightarrow> 'i \<Rightarrow> bool) \<Rightarrow> (bool \<Rightarrow> go_error option \<Rightarrow> 'r \<Rightarrow> 'x)
    \<Rightarrow> ('i, 'r, 'x) call_state \<Rightarrow> 'x \<Rightarrow> bool" where
  "outcome_of post report s x \<longleftrightarrow> (\<exists>b r e. post b r (cs_io s) \<and> x = report (cs_after s = Ran) e r
     \<and> (b \<longrightarrow> cs_after s = Ran) \<and> (cs_after s = Ran \<longrightarrow> e \<noteq> None) \<and> (e = None \<or> e = cs_err s))"

locale io_contract =
  fixes io :: "('i, 'r) io_step" and peer :: "'i \<Rightarrow> 'i \<Rightarrow> bool"
    and busy :: "'i \<Rightarrow> bool" and post :: "bool \<Rightarrow> 'r \<Rightarrow> 'i \<Rightarrow> bool"
  assumes busy_more: "busy i \<Longrightarrow> io b i = Some (Inl j) \<Longrightarrow> busy j"
    and busy_done: "busy i \<Longrightarrow> io b i = Some (Inr (r, j)) \<Longrightarrow> post b r j"
    and busy_peer: "busy i \<Longrightarrow> peer i j \<Longrightarrow> busy j"
    and post_peer: "post b r i \<Longrightarrow> peer i j \<Longrightarrow> post b r j"
begin

definition has_result :: "'r \<Rightarrow> ('i, 'r, 'x) call_state \<Rightarrow> bool" where
  "has_result r s \<longleftrightarrow> (\<exists>b. post b r (cs_io s) \<and> (b \<longrightarrow> cs_interrupted s))"

definition call_ok :: "(bool \<Rightarrow> go_error option \<Rightarrow> 'r \<Rightarrow> 'x) \<Rightarrow> ('i, 'r, 'x) call_state \<Rightarrow> bool" where
  "call_ok report s \<longleftrightarrow> call_inv s \<and> (case cs_phase s of
       Busy \<Rightarrow> busy (cs_io s)
     | Got r \<Rightarrow> has_result r s
     | Joining r \<Rightarrow> has_result r s
     | Reporting r \<Rightarrow> has_result r s
     | Finished x \<Rightarrow> outcome_of post report s x)"

lemma has_result_simps [simp]:
  "has_result r (s\<lparr>cs_err := e\<rparr>) = has_result r s"
  "has_result r (s\<lparr>cs_phase := p\<rparr>) = has_result r s"
  "has_result r (s\<lparr>cs_after := a\<rparr>) = has_result r s"
  by (simp_all add: has_result_def)

lemma has_result_interrupted: "has_result r s \<Longrightarrow> has_result r (s\<lparr>cs_after := a, cs_interrupted := True\<rparr>)"
  by (auto simp: has_result_def)

lemma has_result_peer: "has_result r s \<Longrightarrow> peer (cs_io s) i \<Longrightarrow> has_result r (s\<lparr>cs_io := i\<rparr>)"
  by (auto simp: has_result_def intro: post_peer)

lemma outcome_peer: "outcome_of post report s x \<Longrightarrow> peer (cs_io s) i \<Longrightarrow> outcome_of post report (s\<lparr>cs_io := i\<rparr>) x"
  by (auto simp: outcome_of_def intro: post_peer)

lemma outcome_err:
  "outcome_of post report s x \<Longrightarrow> cs_err s = None \<Longrightarrow> outcome_of post report (s\<lparr>cs_err := Some e\<rparr>) x"
  by (auto simp: outcome_of_def)

lemma result_reported:
  assumes "has_result r s" "call_inv s" "cs_phase s = Reporting r"
  shows "outcome_of post report (s\<lparr>cs_phase := Finished x\<rparr>) (report (cs_after s = Ran) (cs_err s) r)"
  using assms by (auto simp: has_result_def outcome_of_def call_inv_def)

lemma call_ok_step:
  assumes "call_step io peer report s t" "call_ok report s"
  shows "call_ok report t"
proof -
  have inv: "call_inv t" "call_inv s"
    using assms by (auto simp: call_ok_def intro: call_inv_step)
  from assms(1) show ?thesis
  proof (cases rule: call_step.cases)
    case (io_done r i)
    then have "busy (cs_io s)" using assms(2) by (simp add: call_ok_def)
    then have "post (cs_interrupted s) r i" using io_done(3) by (rule busy_done)
    with io_done inv(1) show ?thesis by (auto simp: call_ok_def has_result_def)
  next
    case (peer_acts i)
    with assms(2) inv(1) show ?thesis
      by (auto simp: call_ok_def intro: busy_peer has_result_peer outcome_peer split: call_phase.splits)
  next
    case (ctx_ends e)
    with assms(2) inv(1) show ?thesis
      by (auto simp: call_ok_def intro: outcome_err split: call_phase.splits)
  next
    case interrupts
    with assms(2) inv show ?thesis
      by (auto simp: call_ok_def call_inv_def intro: has_result_interrupted split: call_phase.splits)
  next
    case (reports r)
    with assms(2) inv show ?thesis
      by (auto simp: call_ok_def intro: result_reported)
  next
    case after_starts
    with assms(2) inv show ?thesis
      by (auto simp: call_ok_def call_inv_def split: call_phase.splits)
  qed (use assms(2) inv(1) in \<open>auto simp: call_ok_def intro: busy_more\<close>)
qed

lemma call_outcome:
  assumes "(call_step io peer report)\<^sup>*\<^sup>* (call_start e i) s" "busy i" "e = None \<or> ctx_error e"
    and "cs_phase s = Finished x"
  shows "outcome_of post report s x"
proof -
  have "call_ok report s" using assms(1)
  proof (induction rule: rtranclp_induct)
    case base
    show ?case using assms(2) call_inv_start [OF assms(3), of i] by (simp add: call_ok_def call_start_def)
  qed (auto intro: call_ok_step)
  with assms(4) show ?thesis by (simp add: call_ok_def)
qed

end

end
