(* ===== verification/Interrupts.thy ===== *)
theory Interrupts
  imports Deadlines
begin

text \<open>
  The four interruptible calls of the codecs as guarded calls: their reading and writing a step at a
  time, with a peer that may send or take bytes between any two steps, and what the functions of
  StreamCodec and Codecs have to do with them. \<open>timeout\<close> is the error of a read or write that the past
  deadline, or the close, ends.
\<close>

subsection \<open>Decode of a stream decoder\<close>

datatype read_phase = ReadStart | Refilling scanner nat

text \<open>The decoder with the bytes that have arrived and were not read, the phase of its read with the
  bytes it holds, the reads so far, and all the peer has sent.\<close>

record read_io =
  ri_dec :: StreamDecoder
  ri_phase :: read_phase
  ri_buf :: bytes
  ri_log :: "read_event list"
  ri_sent :: "read_event list"

definition limit_out :: "int option \<Rightarrow> bool" where
  "limit_out lim = (case lim of Some n \<Rightarrow> n \<le> 0 | None \<Rightarrow> False)"

text \<open>The end of a decoding: the error stays in the library's decoder, or the value is cut off the
  buffer.\<close>

definition decode_done :: "go_error + nat \<Rightarrow> bytes \<Rightarrow> read_io \<Rightarrow> (go_error + bytes) \<times> read_io" where
  "decode_done r buf s =
     (case r of
        Inl e \<Rightarrow> (let i = (ri_dec s)\<lparr>sd_d := \<lparr>jd_buf = buf, jd_err = Some e\<rparr>\<rparr> in
          (Inl (ioErr i e), s\<lparr>ri_dec := i\<rparr>))
      | Inr k \<Rightarrow> (Inr (jtrim (take k buf)),
          s\<lparr>ri_dec := (ri_dec s)\<lparr>sd_d := \<lparr>jd_buf = drop k buf, jd_err = None\<rparr>\<rparr>\<rparr>))"

text \<open>What is done with the bytes at hand: the value ends in them, or more are needed.\<close>

definition scanned :: "vresult \<Rightarrow> bytes \<Rightarrow> read_io \<Rightarrow> read_io + (go_error + bytes) \<times> read_io" where
  "scanned v buf s =
     (case v of
        VEnd k \<Rightarrow> Inr (decode_done (Inr k) buf s)
      | VErr m \<Rightarrow> Inr (decode_done (Inl (SyntaxErr m)) buf s)
      | VMore sc n \<Rightarrow> Inl (s\<lparr>ri_phase := Refilling sc n, ri_buf := buf\<rparr>))"

definition read_of :: "go_error \<Rightarrow> bool \<Rightarrow> StreamDecoder \<Rightarrow> (go_error + bytes) \<times> int option \<times> read_event list" where
  "read_of timeout intr i =
     (case read_some (sd_lr i) (if intr then [RFail timeout] else sd_r i) of
        (x, lim, evs) \<Rightarrow> (x, lim, if intr then sd_r i else evs))"

definition decode_io :: "go_error \<Rightarrow> (read_io, go_error + bytes) io_step" where
  "decode_io timeout intr s =
     (let i = ri_dec s in
      case ri_phase s of
        ReadStart \<Rightarrow>
          (case jd_err (sd_d i) of
             Some e \<Rightarrow> Some (Inr (Inl (ioErr i e), s))
           | None \<Rightarrow> Some (scanned (value_end sc_reset (jd_buf (sd_d i)) 0) (jd_buf (sd_d i)) s))
      | Refilling sc n \<Rightarrow>
          if \<not> intr \<and> \<not> limit_out (sd_lr i) \<and> sd_r i = [] then None
          else (case read_of timeout intr i of
              (Inl e, lim, evs) \<Rightarrow>
                Some (Inr (decode_done (if e = Sentinel EOF then at_eof sc (ri_buf s) n else Inl e) (ri_buf s)
                  (s\<lparr>ri_dec := i\<lparr>sd_lr := lim, sd_r := evs\<rparr>,
                     ri_log := ri_log s @ (if limit_out (sd_lr i) then [] else [RFail e])\<rparr>)))
            | (Inr d, lim, evs) \<Rightarrow>
                Some (scanned (value_end sc d n) (ri_buf s @ d)
                  (s\<lparr>ri_dec := i\<lparr>sd_lr := lim, sd_r := evs\<rparr>, ri_log := ri_log s @ [RData d]\<rparr>))))"

definition decode_report :: "bool \<Rightarrow> go_error option \<Rightarrow> go_error + bytes \<Rightarrow> go_error + bytes" where
  "decode_report fired e r =
     (case r of
        Inl decodeErr \<Rightarrow> Inl (Joined (decodeErr # (case e of Some x \<Rightarrow> [x] | None \<Rightarrow> [])))
      | Inr v \<Rightarrow> Inr v)"

definition decode_reset :: "StreamDecoder \<Rightarrow> StreamDecoder" where
  "decode_reset i = (if sd_lr i \<noteq> None then i\<lparr>sd_lr := Some (sd_n i)\<rparr> else i)"

definition decode_start :: "StreamDecoder \<Rightarrow> read_io" where
  "decode_start i = \<lparr>ri_dec = decode_reset i, ri_phase = ReadStart, ri_buf = [], ri_log = [], ri_sent = sd_r i\<rparr>"

text \<open>The peer sends data, or its connection ends.\<close>

definition peer_sends :: "read_io \<Rightarrow> read_io \<Rightarrow> bool" where
  "peer_sends s t \<longleftrightarrow> (\<exists>ev. t = s\<lparr>ri_dec := (ri_dec s)\<lparr>sd_r := sd_r (ri_dec s) @ [ev]\<rparr>,
     ri_sent := ri_sent s @ [ev]\<rparr>)"

definition decode_weight :: "read_io \<Rightarrow> nat" where
  "decode_weight s = (case ri_phase s of ReadStart \<Rightarrow> 1 | Refilling sc n \<Rightarrow> 0)
     + sum_list (map event_weight (sd_r (ri_dec s)))"

lemma scanned_cases:
  "scanned v buf s = Inl t \<longleftrightarrow> (\<exists>sc n. v = VMore sc n \<and> t = s\<lparr>ri_phase := Refilling sc n, ri_buf := buf\<rparr>)"
  by (cases v) (auto simp: scanned_def)

lemma read_of_interrupted:
  "\<exists>e. read_of timeout True i = (Inl e, sd_lr i, sd_r i)"
  by (auto simp: read_of_def read_some.simps split: option.splits)

lemma decode_interrupted: "decode_io timeout True s \<noteq> None"
  by (auto simp: decode_io_def Let_def split: read_phase.split option.split prod.split sum.split)

lemma decode_lowers:
  assumes "decode_io timeout b s = Some (Inl t)"
  shows "decode_weight t < decode_weight s"
proof (cases "ri_phase s")
  case ReadStart
  then show ?thesis
    using assms by (auto simp: decode_io_def Let_def scanned_cases decode_weight_def split: option.splits)
next
  case (Refilling sc n)
  then obtain d lim evs where r: "read_of timeout b (ri_dec s) = (Inr d, lim, evs)"
    and t: "\<exists>sc n. t = s\<lparr>ri_dec := (ri_dec s)\<lparr>sd_lr := lim, sd_r := evs\<rparr>, ri_log := ri_log s @ [RData d],
        ri_phase := Refilling sc n, ri_buf := ri_buf s @ d\<rparr>"
    using assms by (auto simp: decode_io_def Let_def scanned_cases split: if_splits prod.splits sum.splits)
  from r have "\<not> b" using read_of_interrupted [of timeout "ri_dec s"] by (cases b) auto
  with r have "read_some (sd_lr (ri_dec s)) (sd_r (ri_dec s)) = (Inr d, lim, evs)"
    by (auto simp: read_of_def split: prod.splits)
  from read_some_weight [OF this] t Refilling show ?thesis
    by (auto simp: decode_weight_def)
qed

interpretation decode_call: interruptible "decode_io timeout" decode_weight
  for timeout :: go_error
  by unfold_locales (fact decode_interrupted, fact decode_lowers)

text \<open>Reads can be replayed from what they gave.\<close>

lemma read_out: "limit_out lim \<Longrightarrow> read_some lim evs = (Inl (Sentinel EOF), lim, evs)"
  by (simp add: limit_out_def read_some.simps)

lemma read_gives:
  assumes "read_some lim evs = (Inr d, lim', evs')"
  shows "read_some lim (RData d # later) = (Inr d, lim', later)" "\<not> limit_out lim"
    "d @ data_of evs' = data_of evs" "RFail e \<in> set evs' \<Longrightarrow> RFail e \<in> set evs"
proof -
  have out: "\<not> limit_out lim" using assms read_out by fastforce
  then show "\<not> limit_out lim" .
  obtain d0 rest where evs: "evs = RData d0 # rest"
    using assms out by (auto simp: read_some.simps limit_out_def split: list.splits read_event.splits option.splits if_splits)
  show "read_some lim (RData d # later) = (Inr d, lim', later)" "d @ data_of evs' = data_of evs"
    "RFail e \<in> set evs' \<Longrightarrow> RFail e \<in> set evs"
    using assms out by (auto simp: evs read_some.simps limit_out_def Let_def split: option.splits if_splits)
qed

lemma read_refused:
  assumes "read_some lim evs = (Inl e, lim', evs')" "\<not> limit_out lim" "evs \<noteq> []"
  shows "lim' = lim" "evs = RFail e # evs'" "read_some lim (RFail e # later) = (Inl e, lim, later)"
  using assms
  by (auto simp: read_some.simps limit_out_def Let_def split: list.splits read_event.splits option.splits if_splits)

lemma refill_replay:
  assumes "read_some lim evs = (Inr d, lim', evs')"
  shows "refill sc buf n lim (RData d # later) =
    (case value_end sc d n of
       VEnd k \<Rightarrow> (Inr k, buf @ d, lim', later)
     | VErr m \<Rightarrow> (Inl (SyntaxErr m), buf @ d, lim', later)
     | VMore s' n' \<Rightarrow> refill s' (buf @ d) n' lim' later)"
  by (subst refill.simps) (simp add: read_gives(1) [OF assms])

text \<open>What the decoder was, apart from the connection and the library's decoder.\<close>

definition decode_frame :: "StreamDecoder \<Rightarrow> read_io \<Rightarrow> bool" where
  "decode_frame i s \<longleftrightarrow> (ri_dec s)\<lparr>sd_d := sd_d i, sd_lr := sd_lr i, sd_r := sd_r i\<rparr> = i"

text \<open>The reads are a part of what the peer sent, in order, and what is left is the rest; \<open>brk\<close> tells that
  the last read is the interrupted one.\<close>

definition decode_log :: "go_error \<Rightarrow> bool \<Rightarrow> read_io \<Rightarrow> bool" where
  "decode_log timeout brk s \<longleftrightarrow> (\<exists>reads. ri_log s = reads @ (if brk then [RFail timeout] else [])
     \<and> data_of reads @ data_of (sd_r (ri_dec s)) = data_of (ri_sent s)
     \<and> (\<forall>e. RFail e \<in> set reads \<union> set (sd_r (ri_dec s)) \<longrightarrow> RFail e \<in> set (ri_sent s)))"

definition decode_busy :: "go_error \<Rightarrow> StreamDecoder \<Rightarrow> read_io \<Rightarrow> bool" where
  "decode_busy timeout i s \<longleftrightarrow> decode_frame i s \<and> decode_log timeout False s \<and> sd_d (ri_dec s) = sd_d i
     \<and> (case ri_phase s of
          ReadStart \<Rightarrow> ri_log s = [] \<and> sd_lr (ri_dec s) = sd_lr i
        | Refilling sc n \<Rightarrow> jd_err (sd_d i) = None
            \<and> (\<forall>later. jd_read (sd_d i) (sd_lr i) (ri_log s @ later) = refill sc (ri_buf s) n (sd_lr (ri_dec s)) later))"

definition decode_post :: "go_error \<Rightarrow> StreamDecoder \<Rightarrow> bool \<Rightarrow> go_error + bytes \<Rightarrow> read_io \<Rightarrow> bool" where
  "decode_post timeout i b r s \<longleftrightarrow> (\<exists>brk. decode_log timeout brk s \<and> (brk \<longrightarrow> b))
     \<and> plain_decode (i\<lparr>sd_r := ri_log s\<rparr>) = (r, (ri_dec s)\<lparr>sd_r := []\<rparr>)"

lemma decode_done_plain:
  assumes "decode_frame i s" "jd_err (sd_d i) = None"
    and "jd_read (sd_d i) (sd_lr i) (ri_log s) = (res, buf, sd_lr (ri_dec s), [])"
  shows "plain_decode (i\<lparr>sd_r := ri_log s\<rparr>) =
      (fst (decode_done res buf s), (ri_dec (snd (decode_done res buf s)))\<lparr>sd_r := []\<rparr>)"
    "ri_log (snd (decode_done res buf s)) = ri_log s" "ri_sent (snd (decode_done res buf s)) = ri_sent s"
    "sd_r (ri_dec (snd (decode_done res buf s))) = sd_r (ri_dec s)"
proof -
  have "i\<lparr>sd_r := ri_log s, sd_d := jd, sd_lr := sd_lr (ri_dec s), sd_r := []\<rparr> = (ri_dec s)\<lparr>sd_d := jd, sd_r := []\<rparr>" for jd
    using assms(1) by (cases i; cases "ri_dec s") (simp add: decode_frame_def)
  then show "plain_decode (i\<lparr>sd_r := ri_log s\<rparr>) =
      (fst (decode_done res buf s), (ri_dec (snd (decode_done res buf s)))\<lparr>sd_r := []\<rparr>)"
    using assms(2,3)
    by (cases res) (simp_all add: plain_decode_def jd_decode_def decode_done_def Let_def ioErr_def)
qed (cases res; simp add: decode_done_def Let_def)+

lemma decode_done_post:
  assumes "decode_frame i s" "jd_err (sd_d i) = None" "decode_log timeout brk s" "brk \<longrightarrow> b"
    and "jd_read (sd_d i) (sd_lr i) (ri_log s) = (res, buf, sd_lr (ri_dec s), [])"
    and "decode_done res buf s = (r, t)"
  shows "decode_post timeout i b r t"
proof -
  have "decode_log timeout brk t"
    using decode_done_plain(2-4) [OF assms(1,2,5)] assms(3,6) by (simp add: decode_log_def)
  then show ?thesis
    using decode_done_plain(1,2) [OF assms(1,2,5)] assms(4,6) by (auto simp: decode_post_def)
qed

text \<open>One read, and the state after it.\<close>

lemma read_of_data:
  assumes "read_of timeout b i = (Inr d, lim, evs)"
  shows "\<not> b" "read_some (sd_lr i) (sd_r i) = (Inr d, lim, evs)"
proof -
  show "\<not> b" using read_of_interrupted [of timeout i] assms by (cases b) auto
  with assms show "read_some (sd_lr i) (sd_r i) = (Inr d, lim, evs)"
    by (auto simp: read_of_def split: prod.splits)
qed

lemma data_of_append [simp]: "data_of (xs @ ys) = data_of xs @ data_of ys"
  by (induction xs rule: data_of.induct) simp_all

lemma read_log_data:
  assumes "decode_log timeout False s" "read_of timeout b (ri_dec s) = (Inr d, lim, evs)"
  shows "decode_log timeout False (s\<lparr>ri_dec := (ri_dec s)\<lparr>sd_lr := lim, sd_r := evs\<rparr>, ri_log := ri_log s @ [RData d]\<rparr>)"
  using assms(1) read_gives(3,4) [OF read_of_data(2) [OF assms(2)]]
  by (auto simp: decode_log_def)

lemma read_log_fail:
  assumes "decode_log timeout False s" "read_of timeout b (ri_dec s) = (Inl e, lim, evs)"
    and "b \<or> limit_out (sd_lr (ri_dec s)) \<or> sd_r (ri_dec s) \<noteq> []"
  shows "decode_log timeout (b \<and> \<not> limit_out (sd_lr (ri_dec s)))
      (s\<lparr>ri_dec := (ri_dec s)\<lparr>sd_lr := lim, sd_r := evs\<rparr>,
         ri_log := ri_log s @ (if limit_out (sd_lr (ri_dec s)) then [] else [RFail e])\<rparr>)"
    and "lim = sd_lr (ri_dec s)"
    and "limit_out lim \<Longrightarrow> e = Sentinel EOF"
    and "\<not> limit_out lim \<Longrightarrow> read_some lim (RFail e # later) = (Inl e, lim, later)"
proof -
  let ?i = "ri_dec s"
  have "limit_out (sd_lr ?i) \<and> e = Sentinel EOF \<and> lim = sd_lr ?i \<and> evs = sd_r ?i \<or>
    \<not> limit_out (sd_lr ?i) \<and> b \<and> e = timeout \<and> lim = sd_lr ?i \<and> evs = sd_r ?i \<or>
    \<not> limit_out (sd_lr ?i) \<and> \<not> b \<and> lim = sd_lr ?i \<and> sd_r ?i = RFail e # evs"
  proof (cases "limit_out (sd_lr ?i)")
    case True
    then show ?thesis using assms(2) by (auto simp: read_of_def read_out)
  next
    case False
    show ?thesis
    proof (cases b)
      case True
      obtain x l v where x: "read_some (sd_lr ?i) [RFail timeout] = (x, l, v)" by (metis surj_pair)
      with True assms(2) have "x = Inl e" "lim = l" "evs = sd_r ?i" by (simp_all add: read_of_def)
      moreover from this x have "l = sd_lr ?i" "[RFail timeout] = RFail e # v"
        using read_refused(1,2) [of "sd_lr ?i" "[RFail timeout]" e l v] False by simp_all
      ultimately show ?thesis using False True by simp
    next
      case b: False
      then have "read_some (sd_lr ?i) (sd_r ?i) = (Inl e, lim, evs)"
        using assms(2) by (auto simp: read_of_def split: prod.splits)
      from read_refused(1,2) [OF this False] assms(3) b False show ?thesis by simp
    qed
  qed
  then show "decode_log timeout (b \<and> \<not> limit_out (sd_lr ?i))
      (s\<lparr>ri_dec := ?i\<lparr>sd_lr := lim, sd_r := evs\<rparr>,
         ri_log := ri_log s @ (if limit_out (sd_lr ?i) then [] else [RFail e])\<rparr>)"
    and "lim = sd_lr ?i" and "limit_out lim \<Longrightarrow> e = Sentinel EOF"
    using assms(1) by (auto simp: decode_log_def)
  show "read_some lim (RFail e # later) = (Inl e, lim, later)" if "\<not> limit_out lim"
    using that by (simp add: read_some.simps limit_out_def split: option.splits)
qed

lemma frame_kept:
  "decode_frame i s \<Longrightarrow> decode_frame i (s\<lparr>ri_dec := (ri_dec s)\<lparr>sd_lr := l, sd_r := v\<rparr>, ri_log := lg\<rparr>)"
  by (cases i; cases "ri_dec s") (simp add: decode_frame_def)

text \<open>The state after a read that gave data, and what the library's decoder does with the reads so far.\<close>

lemma busy_read:
  assumes "decode_busy timeout i s" "ri_phase s = Refilling sc n" "read_of timeout b (ri_dec s) = (Inr d, lim, evs)"
  defines "u \<equiv> s\<lparr>ri_dec := (ri_dec s)\<lparr>sd_lr := lim, sd_r := evs\<rparr>, ri_log := ri_log s @ [RData d]\<rparr>"
  shows "decode_frame i u" "decode_log timeout False u" "sd_d (ri_dec u) = sd_d i" "jd_err (sd_d i) = None"
    "jd_read (sd_d i) (sd_lr i) (ri_log u @ later) =
      (case value_end sc d n of
         VEnd k \<Rightarrow> (Inr k, ri_buf s @ d, lim, later)
       | VErr m \<Rightarrow> (Inl (SyntaxErr m), ri_buf s @ d, lim, later)
       | VMore s' n' \<Rightarrow> refill s' (ri_buf s @ d) n' lim later)"
proof -
  have busy: "decode_frame i s" "decode_log timeout False s" "sd_d (ri_dec s) = sd_d i" "jd_err (sd_d i) = None"
    "jd_read (sd_d i) (sd_lr i) (ri_log s @ x) = refill sc (ri_buf s) n (sd_lr (ri_dec s)) x" for x
    using assms(1,2) by (simp_all add: decode_busy_def)
  show "decode_frame i u" "sd_d (ri_dec u) = sd_d i" "jd_err (sd_d i) = None"
    using busy by (simp_all add: u_def frame_kept)
  show "decode_log timeout False u"
    unfolding u_def by (rule read_log_data [OF busy(2) assms(3)])
  show "jd_read (sd_d i) (sd_lr i) (ri_log u @ later) =
      (case value_end sc d n of
         VEnd k \<Rightarrow> (Inr k, ri_buf s @ d, lim, later)
       | VErr m \<Rightarrow> (Inl (SyntaxErr m), ri_buf s @ d, lim, later)
       | VMore s' n' \<Rightarrow> refill s' (ri_buf s @ d) n' lim later)"
    using busy(5) [of "RData d # later"] by (simp add: u_def refill_replay [OF read_of_data(2) [OF assms(3)]])
qed

lemma decode_busy_more:
  assumes "decode_busy timeout i s" "decode_io timeout b s = Some (Inl t)"
  shows "decode_busy timeout i t"
proof (cases "ri_phase s")
  case ReadStart
  with assms obtain sc n where "jd_err (sd_d i) = None" "value_end sc_reset (jd_buf (sd_d i)) 0 = VMore sc n"
    "t = s\<lparr>ri_phase := Refilling sc n, ri_buf := jd_buf (sd_d i)\<rparr>"
    by (auto simp: decode_busy_def decode_io_def Let_def scanned_cases split: option.splits)
  with ReadStart assms(1) show ?thesis
    by (auto simp: decode_busy_def decode_frame_def decode_log_def jd_read_def)
next
  case (Refilling sc n)
  with assms(2) obtain d lim evs where r: "read_of timeout b (ri_dec s) = (Inr d, lim, evs)"
    and sc: "scanned (value_end sc d n) (ri_buf s @ d)
      (s\<lparr>ri_dec := (ri_dec s)\<lparr>sd_lr := lim, sd_r := evs\<rparr>, ri_log := ri_log s @ [RData d]\<rparr>) = Inl t"
    by (auto simp: decode_io_def Let_def split: if_splits prod.splits sum.splits)
  note u = busy_read [OF assms(1) Refilling r]
  from sc obtain s' n' where "value_end sc d n = VMore s' n'"
    and t: "t = s\<lparr>ri_dec := (ri_dec s)\<lparr>sd_lr := lim, sd_r := evs\<rparr>, ri_log := ri_log s @ [RData d],
      ri_phase := Refilling s' n', ri_buf := ri_buf s @ d\<rparr>"
    by (auto simp: scanned_cases)
  with u show ?thesis
    by (simp add: decode_busy_def decode_frame_def decode_log_def)
qed

lemma scanned_done:
  assumes "scanned v buf s = Inr (r, t)"
  obtains res where "decode_done res buf s = (r, t)"
    "(case v of VEnd k \<Rightarrow> (Inr k, buf, l, x) | VErr m \<Rightarrow> (Inl (SyntaxErr m), buf, l, x)
      | VMore s' n' \<Rightarrow> refill s' buf n' l x) = (res, buf, l, x)"
  using assms by (cases v) (auto simp: scanned_def)

lemma decode_busy_done:
  assumes "decode_busy timeout i s" "decode_io timeout b s = Some (Inr (r, t))"
  shows "decode_post timeout i b r t"
proof (cases "ri_phase s")
  case ReadStart
  then have start: "ri_log s = []" "sd_lr (ri_dec s) = sd_lr i" "sd_d (ri_dec s) = sd_d i" "decode_frame i s"
    "decode_log timeout False s"
    using assms(1) by (simp_all add: decode_busy_def)
  show ?thesis
  proof (cases "jd_err (sd_d i)")
    case (Some e)
    then have "r = Inl (ioErr (ri_dec s) e)" "t = s"
      using assms(2) ReadStart start by (auto simp: decode_io_def Let_def)
    moreover have "(ri_dec s)\<lparr>sd_r := []\<rparr> = i\<lparr>sd_r := []\<rparr>"
      using start(2-4) by (cases i; cases "ri_dec s") (simp add: decode_frame_def)
    ultimately show ?thesis
      using Some start by (auto simp: decode_post_def plain_decode_def jd_decode_def Let_def ioErr_def intro!: exI [of _ False])
  next
    case None
    then have "scanned (value_end sc_reset (jd_buf (sd_d i)) 0) (jd_buf (sd_d i)) s = Inr (r, t)"
      using assms(2) ReadStart start by (simp add: decode_io_def Let_def)
    then obtain res where "decode_done res (jd_buf (sd_d i)) s = (r, t)"
      "jd_read (sd_d i) (sd_lr i) [] = (res, jd_buf (sd_d i), sd_lr i, [])"
      by (rule scanned_done [where l = "sd_lr i" and x = "[]"]) (auto simp: jd_read_def)
    then show ?thesis
      using None start by (intro decode_done_post [where brk = False and s = s]) simp_all
  qed
next
  case (Refilling sc n)
  note busy = assms(1) [unfolded decode_busy_def, simplified Refilling, simplified]
  have ready: "b \<or> limit_out (sd_lr (ri_dec s)) \<or> sd_r (ri_dec s) \<noteq> []"
    using assms(2) Refilling by (auto simp: decode_io_def Let_def split: if_splits)
  obtain y lim evs where y: "read_of timeout b (ri_dec s) = (y, lim, evs)" by (metis surj_pair)
  show ?thesis
  proof (cases y)
    case (Inr d)
    let ?u = "s\<lparr>ri_dec := (ri_dec s)\<lparr>sd_lr := lim, sd_r := evs\<rparr>, ri_log := ri_log s @ [RData d]\<rparr>"
    note u = busy_read [OF assms(1) Refilling y [unfolded Inr]]
    have "scanned (value_end sc d n) (ri_buf s @ d) ?u = Inr (r, t)"
      using assms(2) Refilling y Inr ready by (auto simp: decode_io_def Let_def split: if_splits)
    then obtain res where "decode_done res (ri_buf s @ d) ?u = (r, t)"
      "jd_read (sd_d i) (sd_lr i) (ri_log ?u) = (res, ri_buf s @ d, lim, [])"
      using u(5) [of "[]"] by (elim scanned_done [where l = lim and x = "[]"]) simp
    then show ?thesis
      using u by (intro decode_done_post [where brk = False and s = ?u]) simp_all
  next
    case (Inl e)
    let ?u = "s\<lparr>ri_dec := (ri_dec s)\<lparr>sd_lr := lim, sd_r := evs\<rparr>,
      ri_log := ri_log s @ (if limit_out (sd_lr (ri_dec s)) then [] else [RFail e])\<rparr>"
    let ?res = "if e = Sentinel EOF then at_eof sc (ri_buf s) n else Inl e"
    have fail: "decode_log timeout (b \<and> \<not> limit_out (sd_lr (ri_dec s))) ?u" "lim = sd_lr (ri_dec s)"
      "limit_out lim \<Longrightarrow> e = Sentinel EOF" "\<not> limit_out lim \<Longrightarrow> read_some lim [RFail e] = (Inl e, lim, [])"
      using read_log_fail [of timeout s b e lim evs] busy y Inl ready by blast+
    have "refill sc (ri_buf s) n lim (if limit_out lim then [] else [RFail e]) = (?res, ri_buf s, lim, [])"
      using fail(3,4) by (subst refill.simps) (auto simp: read_out)
    then have jd: "jd_read (sd_d i) (sd_lr i) (ri_log ?u) = (?res, ri_buf s, sd_lr (ri_dec ?u), [])"
      using busy fail(2) by simp
    have "decode_frame i ?u" "jd_err (sd_d i) = None"
      using busy by (simp_all add: frame_kept)
    moreover have "decode_done ?res (ri_buf s) ?u = (r, t)"
      using assms(2) Refilling y Inl ready by (auto simp: decode_io_def Let_def split: if_splits)
    ultimately show ?thesis
      using decode_done_post [OF _ _ fail(1) _ jd] by blast
  qed
qed

lemma decode_log_peer: "decode_log timeout brk s \<Longrightarrow> peer_sends s t \<Longrightarrow> decode_log timeout brk t"
  by (auto simp: decode_log_def peer_sends_def)

lemma decode_busy_peer: "decode_busy timeout i s \<Longrightarrow> peer_sends s t \<Longrightarrow> decode_busy timeout i t"
  using decode_log_peer [of timeout False s t]
  by (auto simp: decode_busy_def peer_sends_def decode_frame_def split: read_phase.splits)

lemma decode_post_peer: "decode_post timeout i b r s \<Longrightarrow> peer_sends s t \<Longrightarrow> decode_post timeout i b r t"
  using decode_log_peer [of timeout _ s t] by (auto simp: decode_post_def peer_sends_def)

interpretation decode_run: io_contract "decode_io timeout" peer_sends "decode_busy timeout i" "decode_post timeout i"
  for timeout i
  by unfold_locales (fact decode_busy_more decode_busy_done decode_busy_peer decode_post_peer)+

lemma decode_start_busy: "decode_busy timeout (decode_reset i) (decode_start i)"
  by (auto simp: decode_busy_def decode_start_def decode_frame_def decode_log_def decode_reset_def)

lemma decode_report_cancel:
  assumes "plain_decode i = (r, i')" "sd_kind i = ReadCloser \<or> sd_kind i = DeadlineReader"
  shows "cancelDecode \<lparr>env_clear_err = None, env_ctx_err = e\<rparr> i = (decode_report fired e r, i')"
  using assms by (cases r) (simp_all add: cancelDecode_def decode_report_def)

text \<open>Whatever a call of \<^verbatim>\<open>Decode\<close> returns, the function \<open>Decoder_Decode\<close> returns on the reads that
  were made.\<close>

lemma decode_call_refines:
  assumes "(call_step (decode_io timeout) peer_sends decode_report)\<^sup>*\<^sup>* (call_start e0 (decode_start i)) s"
    and "e0 = None \<or> ctx_error e0" "sd_kind i = ReadCloser \<or> sd_kind i = DeadlineReader" "cs_phase s = Finished x"
  shows "\<exists>reads brk e. Decoder_Decode \<lparr>env_clear_err = None, env_ctx_err = e\<rparr>
        (i\<lparr>sd_r := reads @ (if brk then [RFail timeout] else [])\<rparr>) = (x, (ri_dec (cs_io s))\<lparr>sd_r := []\<rparr>)
    \<and> data_of reads @ data_of (sd_r (ri_dec (cs_io s))) = data_of (ri_sent (cs_io s))
    \<and> (\<forall>f. RFail f \<in> set reads \<longrightarrow> RFail f \<in> set (ri_sent (cs_io s)))
    \<and> (brk \<longrightarrow> e \<noteq> None) \<and> (e = None \<or> e = cs_err s)"
proof -
  let ?i = "decode_reset i"
  obtain b r e where post: "decode_post timeout ?i b r (cs_io s)" and x: "x = decode_report (cs_after s = Ran) e r"
    and e: "b \<longrightarrow> e \<noteq> None" "e = None \<or> e = cs_err s"
    using decode_run.call_outcome [OF assms(1) decode_start_busy assms(2,4)] by (auto simp: outcome_of_def)
  from post obtain brk where "decode_log timeout brk (cs_io s)" "brk \<longrightarrow> b"
    and plain: "plain_decode (?i\<lparr>sd_r := ri_log (cs_io s)\<rparr>) = (r, (ri_dec (cs_io s))\<lparr>sd_r := []\<rparr>)"
    by (auto simp: decode_post_def)
  then obtain reads where log: "ri_log (cs_io s) = reads @ (if brk then [RFail timeout] else [])" "brk \<longrightarrow> b"
      "data_of reads @ data_of (sd_r (ri_dec (cs_io s))) = data_of (ri_sent (cs_io s))"
      "\<forall>f. RFail f \<in> set reads \<union> set (sd_r (ri_dec (cs_io s))) \<longrightarrow> RFail f \<in> set (ri_sent (cs_io s))"
    unfolding decode_log_def by blast
  have "Decoder_Decode \<lparr>env_clear_err = None, env_ctx_err = e\<rparr> (i\<lparr>sd_r := ri_log (cs_io s)\<rparr>) =
      cancelDecode \<lparr>env_clear_err = None, env_ctx_err = e\<rparr> (?i\<lparr>sd_r := ri_log (cs_io s)\<rparr>)"
    using assms(3) by (cases i) (auto simp: Decoder_Decode_def decode_reset_def)
  also have "\<dots> = (x, (ri_dec (cs_io s))\<lparr>sd_r := []\<rparr>)"
    using decode_report_cancel [OF plain] assms(3) x by (auto simp: decode_reset_def)
  finally show ?thesis
    using log e by (intro exI [of _ reads] exI [of _ brk] exI [of _ e]) auto
qed

subsection \<open>Encode of a stream encoder\<close>

datatype write_phase = WriteStart | Writing bytes

text \<open>The encoder, the bytes it has still to write, those written, how many the other end takes now, and
  the error of a broken connection.\<close>

record write_io =
  wi_enc :: StreamEncoder
  wi_phase :: write_phase
  wi_out :: bytes
  wi_room :: nat
  wi_broken :: "go_error option"

definition encode_done :: "go_error option \<Rightarrow> write_io \<Rightarrow> (write_io + go_error option \<times> write_io) option" where
  "encode_done r s = Some (Inr (r, s\<lparr>wi_enc := (wi_enc s)\<lparr>se_err := r\<rparr>\<rparr>))"

definition encode_io :: "('v \<Rightarrow> go_error + bytes) \<Rightarrow> 'v \<Rightarrow> go_error \<Rightarrow> (write_io, go_error option) io_step" where
  "encode_io mar v timeout intr s =
     (case wi_phase s of
        WriteStart \<Rightarrow>
          (case se_err (wi_enc s) of
             Some e \<Rightarrow> Some (Inr (Some e, s))
           | None \<Rightarrow>
             (case mar v of
                Inl e \<Rightarrow> Some (Inr (Some e, s))
              | Inr b \<Rightarrow> Some (Inl (s\<lparr>wi_phase := Writing (b @ [CHR 0x0A])\<rparr>))))
      | Writing b \<Rightarrow>
          if b = [] then encode_done None s
          else if intr then encode_done (Some timeout) s
          else if wi_broken s \<noteq> None then encode_done (wi_broken s) s
          else if wi_room s = 0 then None
          else Some (Inl (s\<lparr>wi_phase := Writing (drop (wi_room s) b), wi_out := wi_out s @ take (wi_room s) b,
            wi_room := wi_room s - length b\<rparr>)))"

definition encode_report :: "bool \<Rightarrow> go_error option \<Rightarrow> go_error option \<Rightarrow> go_error option" where
  "encode_report fired e r = (case r of Some encodeErr \<Rightarrow> errors_join [Some encodeErr, e] | None \<Rightarrow> None)"

definition encode_start :: "StreamEncoder \<Rightarrow> bytes \<Rightarrow> nat \<Rightarrow> write_io" where
  "encode_start i w room = \<lparr>wi_enc = i, wi_phase = WriteStart, wi_out = w, wi_room = room, wi_broken = None\<rparr>"

text \<open>The other end takes more bytes, or breaks the connection.\<close>

definition peer_takes :: "write_io \<Rightarrow> write_io \<Rightarrow> bool" where
  "peer_takes s t \<longleftrightarrow> (\<exists>n. t = s\<lparr>wi_room := wi_room s + n\<rparr>)
     \<or> (\<exists>e. wi_broken s = None \<and> t = s\<lparr>wi_broken := Some e\<rparr>)"

definition encode_weight :: "('v \<Rightarrow> go_error + bytes) \<Rightarrow> 'v \<Rightarrow> write_io \<Rightarrow> nat" where
  "encode_weight mar v s = (case wi_phase s of
     WriteStart \<Rightarrow> (case mar v of Inr b \<Rightarrow> length b + 2 | Inl e \<Rightarrow> 0) | Writing b \<Rightarrow> length b)"

lemma encode_interrupted: "encode_io mar v timeout True s \<noteq> None"
  by (auto simp: encode_io_def encode_done_def split: write_phase.split option.split sum.split)

lemma encode_lowers: "encode_io mar v timeout b s = Some (Inl t) \<Longrightarrow> encode_weight mar v t < encode_weight mar v s"
  by (auto simp: encode_io_def encode_done_def encode_weight_def
      split: write_phase.splits option.splits sum.splits if_splits)

interpretation encode_call: interruptible "encode_io mar v timeout" "encode_weight mar v"
  for mar :: "'v \<Rightarrow> go_error + bytes" and v timeout
  by unfold_locales (fact encode_interrupted, fact encode_lowers)

text \<open>A write that gives up after some bytes.\<close>

definition partial_write :: "go_error option \<Rightarrow> nat \<Rightarrow> bytes \<Rightarrow> bytes \<Rightarrow> go_error option \<times> bytes" where
  "partial_write err k b w = (err, w @ take k b)"

definition encode_busy :: "('v \<Rightarrow> go_error + bytes) \<Rightarrow> 'v \<Rightarrow> StreamEncoder \<Rightarrow> bytes \<Rightarrow> write_io \<Rightarrow> bool" where
  "encode_busy mar v i w s \<longleftrightarrow> wi_enc s = i \<and>
     (case wi_phase s of
        WriteStart \<Rightarrow> wi_out s = w
      | Writing rest \<Rightarrow> se_err i = None \<and>
          (\<exists>b k. mar v = Inr b \<and> wi_out s = w @ take k (b @ [CHR 0x0A]) \<and> rest = drop k (b @ [CHR 0x0A])))"

text \<open>Everything was written, or the write failed with the error of the connection or of the interrupt.\<close>

definition write_ended :: "('v \<Rightarrow> go_error + bytes) \<Rightarrow> 'v \<Rightarrow> go_error \<Rightarrow> bool \<Rightarrow> go_error option \<Rightarrow> nat \<Rightarrow> write_io \<Rightarrow> bool" where
  "write_ended mar v timeout b err k s \<longleftrightarrow>
     (case err of
        None \<Rightarrow> (case mar v of Inr x \<Rightarrow> length x < k | Inl e \<Rightarrow> True)
      | Some e \<Rightarrow> b \<and> e = timeout \<or> wi_broken s = Some e)"

definition encode_post :: "('v \<Rightarrow> go_error + bytes) \<Rightarrow> 'v \<Rightarrow> StreamEncoder \<Rightarrow> bytes \<Rightarrow> go_error \<Rightarrow> bool
    \<Rightarrow> go_error option \<Rightarrow> write_io \<Rightarrow> bool" where
  "encode_post mar v i w timeout b r s \<longleftrightarrow> (\<exists>err k. write_ended mar v timeout b err k s
     \<and> je_encode mar (partial_write err k) i v w = (r, wi_enc s, wi_out s))"

lemma encode_busy_more:
  assumes "encode_busy mar v i w s" "encode_io mar v timeout b s = Some (Inl t)"
  shows "encode_busy mar v i w t"
proof (cases "wi_phase s")
  case WriteStart
  then show ?thesis
    using assms by (auto simp: encode_busy_def encode_io_def split: option.splits sum.splits intro!: exI [of _ 0])
next
  case (Writing rest)
  then obtain x k where x: "mar v = Inr x" "wi_out s = w @ take k (x @ [CHR 0x0A])" "rest = drop k (x @ [CHR 0x0A])"
    "wi_enc s = i" "se_err i = None"
    using assms(1) by (auto simp: encode_busy_def)
  moreover have "t = s\<lparr>wi_phase := Writing (drop (wi_room s) rest), wi_out := wi_out s @ take (wi_room s) rest,
      wi_room := wi_room s - length rest\<rparr>"
    using assms(2) Writing by (auto simp: encode_io_def encode_done_def split: if_splits)
  ultimately show ?thesis
    by (auto simp: encode_busy_def take_add add.commute simp del: take_append drop_append intro!: exI [of _ "k + wi_room s"])
qed

lemma encode_busy_done:
  assumes "encode_busy mar v i w s" "encode_io mar v timeout b s = Some (Inr (r, t))"
  shows "encode_post mar v i w timeout b r t"
proof (cases "wi_phase s")
  case WriteStart
  then have start: "wi_enc s = i" "wi_out s = w" using assms(1) by (simp_all add: encode_busy_def)
  have "(\<exists>e. se_err (wi_enc s) = Some e \<and> r = Some e \<and> t = s)
      \<or> se_err (wi_enc s) = None \<and> (\<exists>e. mar v = Inl e \<and> r = Some e \<and> t = s)"
    using assms(2) WriteStart by (auto simp: encode_io_def split: option.splits sum.splits)
  then have "je_encode mar f i v w = (r, wi_enc t, wi_out t)" for f
    using start by (elim disjE exE conjE) (simp_all add: je_encode_def)
  moreover have "write_ended mar v timeout b None (case mar v of Inr x \<Rightarrow> Suc (length x) | Inl e \<Rightarrow> 0) t"
    by (simp add: write_ended_def split: sum.split)
  ultimately show ?thesis by (auto simp: encode_post_def)
next
  case (Writing rest)
  then obtain x k where x: "mar v = Inr x" "wi_out s = w @ take k (x @ [CHR 0x0A])" "rest = drop k (x @ [CHR 0x0A])"
    "wi_enc s = i" "se_err i = None"
    using assms(1) by (auto simp: encode_busy_def)
  have t: "t = s\<lparr>wi_enc := (wi_enc s)\<lparr>se_err := r\<rparr>\<rparr>"
    and r: "rest = [] \<and> r = None \<or> b \<and> r = Some timeout \<or> wi_broken s \<noteq> None \<and> r = wi_broken s"
    using assms(2) Writing by (auto simp: encode_io_def encode_done_def simp del: not_None_eq split: if_splits)
  have "write_ended mar v timeout b r k t"
    using r t x(1,3) by (auto simp: write_ended_def split: option.splits)
  moreover have "je_encode mar (partial_write r k) i v w = (r, wi_enc t, wi_out t)"
    using x t by (simp add: je_encode_def partial_write_def Let_def)
  ultimately show ?thesis by (auto simp: encode_post_def)
qed

lemma encode_busy_peer: "encode_busy mar v i w s \<Longrightarrow> peer_takes s t \<Longrightarrow> encode_busy mar v i w t"
  by (auto simp: encode_busy_def peer_takes_def split: write_phase.splits)

lemma peer_takes_keeps:
  assumes "peer_takes s t"
  shows "wi_enc t = wi_enc s" "wi_out t = wi_out s"
    "write_ended mar v timeout b err k s \<Longrightarrow> write_ended mar v timeout b err k t"
  using assms by (auto simp: peer_takes_def write_ended_def split: option.splits)

lemma encode_post_peer: "encode_post mar v i w timeout b r s \<Longrightarrow> peer_takes s t \<Longrightarrow> encode_post mar v i w timeout b r t"
  unfolding encode_post_def by (elim exE conjE) (intro exI conjI, erule (1) peer_takes_keeps(3), simp add: peer_takes_keeps(1,2))

interpretation encode_run: io_contract "encode_io mar v timeout" peer_takes "encode_busy mar v i w" "encode_post mar v i w timeout"
  for mar :: "'v \<Rightarrow> go_error + bytes" and v timeout i w
  by unfold_locales (fact encode_busy_more encode_busy_done encode_busy_peer encode_post_peer)+

lemma encode_call_from:
  assumes "(call_step (encode_io mar v timeout) peer_takes encode_report)\<^sup>*\<^sup>* (call_start e0 io) s"
    and "wi_phase io = WriteStart" "wi_enc io = i" "wi_out io = w"
    and "e0 = None \<or> ctx_error e0" "se_kind i = WriteCloser \<or> se_kind i = DeadlineWriter" "cs_phase s = Finished x"
  shows "\<exists>err k e. Encoder_Encode \<lparr>env_clear_err = None, env_ctx_err = e\<rparr> mar (partial_write err k) i v w =
        (x, wi_enc (cs_io s), wi_out (cs_io s))
    \<and> write_ended mar v timeout (e \<noteq> None) err k (cs_io s) \<and> (e = None \<or> e = cs_err s)"
proof -
  have busy: "encode_busy mar v i w io"
    using assms(2-4) by (simp add: encode_busy_def)
  obtain b r e where post: "encode_post mar v i w timeout b r (cs_io s)"
    and x: "x = encode_report (cs_after s = Ran) e r" and e: "b \<longrightarrow> e \<noteq> None" "e = None \<or> e = cs_err s"
    using encode_run.call_outcome [OF assms(1) busy assms(5,7)] by (auto simp: outcome_of_def)
  from post obtain err k where k: "write_ended mar v timeout b err k (cs_io s)"
    "je_encode mar (partial_write err k) i v w = (r, wi_enc (cs_io s), wi_out (cs_io s))"
    by (auto simp: encode_post_def)
  have "Encoder_Encode \<lparr>env_clear_err = None, env_ctx_err = e\<rparr> mar (partial_write err k) i v w =
      (x, wi_enc (cs_io s), wi_out (cs_io s))"
    using k(2) x assms(6) by (cases r) (auto simp: Encoder_Encode_def cancelEncode_def encode_report_def)
  moreover have "write_ended mar v timeout (e \<noteq> None) err k (cs_io s)"
    using k(1) e(1) by (auto simp: write_ended_def split: option.splits)
  ultimately show ?thesis using e(2) by blast
qed

lemma encode_call_refines:
  assumes "(call_step (encode_io mar v timeout) peer_takes encode_report)\<^sup>*\<^sup>* (call_start e0 (encode_start i w room)) s"
    and "e0 = None \<or> ctx_error e0" "se_kind i = WriteCloser \<or> se_kind i = DeadlineWriter" "cs_phase s = Finished x"
  shows "\<exists>err k e. Encoder_Encode \<lparr>env_clear_err = None, env_ctx_err = e\<rparr> mar (partial_write err k) i v w =
        (x, wi_enc (cs_io s), wi_out (cs_io s))
    \<and> write_ended mar v timeout (e \<noteq> None) err k (cs_io s) \<and> (e = None \<or> e = cs_err s)"
  by (rule encode_call_from [OF assms(1) _ _ _ assms(2-4)]) (simp_all add: encode_start_def)

subsection \<open>DecodeFrom of a packet decoder\<close>

type_synonym datagram = "bytes \<times> bytes option \<times> go_error option"

record recv_io =
  vi_in :: "datagram list"
  vi_taken :: "datagram list"
  vi_sent :: "datagram list"

definition recv_from :: "go_error \<Rightarrow> (recv_io, datagram) io_step" where
  "recv_from timeout intr s =
     (if intr then Some (Inr (([], None, Some timeout), s))
      else case vi_in s of
        [] \<Rightarrow> None
      | d # ds \<Rightarrow> Some (Inr (d, s\<lparr>vi_in := ds, vi_taken := vi_taken s @ [d]\<rparr>)))"

definition recv_start :: "datagram list \<Rightarrow> recv_io" where
  "recv_start ds = \<lparr>vi_in = ds, vi_taken = [], vi_sent = ds\<rparr>"

definition recv_report :: "PacketConnDecoder \<Rightarrow> bool \<Rightarrow> go_error option \<Rightarrow> datagram
    \<Rightarrow> bytes option \<times> bytes \<times> go_error option" where
  "recv_report i fired e d =
     fst (PacketConn_DecodeFrom \<lparr>env_clear_err = None, env_ctx_err = e, penv_fired = fired\<rparr> (Pair d) i ())"

definition peer_posts :: "recv_io \<Rightarrow> recv_io \<Rightarrow> bool" where
  "peer_posts s t \<longleftrightarrow> (\<exists>d. t = s\<lparr>vi_in := vi_in s @ [d], vi_sent := vi_sent s @ [d]\<rparr>)"

definition recv_busy :: "recv_io \<Rightarrow> bool" where
  "recv_busy s \<longleftrightarrow> vi_taken s = [] \<and> vi_sent s = vi_in s"

definition recv_post :: "go_error \<Rightarrow> bool \<Rightarrow> datagram \<Rightarrow> recv_io \<Rightarrow> bool" where
  "recv_post timeout b d s \<longleftrightarrow> vi_sent s = vi_taken s @ vi_in s
     \<and> (vi_taken s = [d] \<or> vi_taken s = [] \<and> b \<and> d = ([], None, Some timeout))"

interpretation recv_call: interruptible "recv_from timeout" "\<lambda>_. 0"
  for timeout :: go_error
  by unfold_locales (auto simp: recv_from_def split: if_splits list.splits)

interpretation recv_run: io_contract "recv_from timeout" peer_posts recv_busy "recv_post timeout"
  for timeout :: go_error
  by unfold_locales (auto simp: recv_from_def recv_busy_def recv_post_def peer_posts_def split: if_splits list.splits)

lemma recv_call_refines:
  assumes "(call_step (recv_from timeout) peer_posts (recv_report i))\<^sup>*\<^sup>* (call_start e0 (recv_start ds)) s"
    and "e0 = None \<or> ctx_error e0" "cs_phase s = Finished x"
  shows "\<exists>d e. x = fst (PacketConn_DecodeFrom \<lparr>env_clear_err = None, env_ctx_err = e, penv_fired = (cs_after s = Ran)\<rparr> (Pair d) i ())
    \<and> vi_sent (cs_io s) = vi_taken (cs_io s) @ vi_in (cs_io s)
    \<and> (vi_taken (cs_io s) = [d] \<or> vi_taken (cs_io s) = [] \<and> cs_after s = Ran)
    \<and> (cs_after s = Ran \<longrightarrow> e \<noteq> None) \<and> (e = None \<or> e = cs_err s)"
proof -
  have "recv_busy (recv_start ds)"
    by (simp add: recv_busy_def recv_start_def)
  from recv_run.call_outcome [OF assms(1) this assms(2,3)]
  obtain b d e where "recv_post timeout b d (cs_io s)" "x = recv_report i (cs_after s = Ran) e d"
    "b \<longrightarrow> cs_after s = Ran" "cs_after s = Ran \<longrightarrow> e \<noteq> None" "e = None \<or> e = cs_err s"
    unfolding outcome_of_def by blast
  then show ?thesis
    by (intro exI [of _ d] exI [of _ e]) (auto simp: recv_post_def recv_report_def)
qed

subsection \<open>EncodeTo of a packet encoder\<close>

text \<open>The message is marshalled before the timer is armed; \<open>so_room\<close> is the room in the socket's buffer.\<close>

record send_io =
  so_out :: "(bytes \<times> bytes option) list"
  so_room :: nat

definition send_to :: "bytes \<Rightarrow> bytes option \<Rightarrow> go_error \<Rightarrow> (send_io, go_error option) io_step" where
  "send_to b addr timeout intr s =
     (if intr then Some (Inr (Some timeout, s))
      else if so_room s = 0 then None
      else Some (Inr (None, s\<lparr>so_out := so_out s @ [(b, addr)], so_room := so_room s - 1\<rparr>)))"

definition send_report :: "bool \<Rightarrow> go_error option \<Rightarrow> go_error option \<Rightarrow> go_error option" where
  "send_report fired e err = (if fired then errors_join [err, e] else err)"

definition peer_drains :: "send_io \<Rightarrow> send_io \<Rightarrow> bool" where
  "peer_drains s t \<longleftrightarrow> (\<exists>n. t = s\<lparr>so_room := so_room s + n\<rparr>)"

definition send_post :: "(bytes \<times> bytes option) list \<Rightarrow> bytes \<Rightarrow> bytes option \<Rightarrow> go_error \<Rightarrow> bool
    \<Rightarrow> go_error option \<Rightarrow> send_io \<Rightarrow> bool" where
  "send_post out b addr timeout intr err s \<longleftrightarrow>
     err = None \<and> so_out s = out @ [(b, addr)] \<or> intr \<and> err = Some timeout \<and> so_out s = out"

interpretation send_call: interruptible "send_to b addr timeout" "\<lambda>_. 0"
  for b addr timeout
  by unfold_locales (auto simp: send_to_def split: if_splits)

interpretation send_run: io_contract "send_to b addr timeout" peer_drains "\<lambda>s. so_out s = out" "send_post out b addr timeout"
  for b addr timeout out
  by unfold_locales (auto simp: send_to_def send_post_def peer_drains_def split: if_splits)

lemma send_call_refines:
  assumes "(call_step (send_to b addr timeout) peer_drains send_report)\<^sup>*\<^sup>* (call_start e0 \<lparr>so_out = out, so_room = room\<rparr>) s"
    and "e0 = None \<or> ctx_error e0" "cs_phase s = Finished x" "mar v = Inr b"
  shows "\<exists>err e. PacketConn_EncodeTo \<lparr>env_clear_err = None, env_ctx_err = e, penv_fired = (cs_after s = Ran)\<rparr> mar
        (\<lambda>b a w. (err, if err = None then w @ [(b, a)] else w)) i v addr out = (x, so_out (cs_io s))
    \<and> (err = None \<or> err = Some timeout \<and> cs_after s = Ran)
    \<and> (cs_after s = Ran \<longrightarrow> e \<noteq> None) \<and> (e = None \<or> e = cs_err s)"
proof -
  have "so_out \<lparr>so_out = out, so_room = room\<rparr> = out" by simp
  from send_run.call_outcome [OF assms(1) this assms(2,3)]
  obtain r err e where "send_post out b addr timeout r err (cs_io s)" "x = send_report (cs_after s = Ran) e err"
    "r \<longrightarrow> cs_after s = Ran" "cs_after s = Ran \<longrightarrow> e \<noteq> None" "e = None \<or> e = cs_err s"
    unfolding outcome_of_def by blast
  then show ?thesis
    using assms(4) by (intro exI [of _ err] exI [of _ e]) (auto simp: send_post_def send_report_def PacketConn_EncodeTo_def)
qed

end
