(* ===== verification/SharedEncoder.thy ===== *)
theory SharedEncoder
  imports Interrupts StreamSide Mutex
begin

text \<open>
  One stream encoder used by several goroutines (encoder.go): \<^verbatim>\<open>Encode\<close> and \<^verbatim>\<open>Close\<close> under the
  mutex of the encoder, with a write that gives its bytes to the connection as the connection takes them. What
  the encoders of Codecs and Interrupts write in one piece is here written byte by byte beside the other callers.
\<close>

subsection \<open>The steps of the callers\<close>

text \<open>A caller of \<^verbatim>\<open>Encode\<close> before it has cleared the deadline, in its guarded call, and with its
  result; a caller of \<^verbatim>\<open>Close\<close> before and after it.\<close>

datatype 'v encode_local =
    EncodeCalled 'v
  | EncodeRunning 'v "(write_io, go_error option, go_error option) call_state"
  | EncodeReturned "go_error option"
  | CloseCalled
  | CloseReturned "go_error option"

text \<open>The connection has a deadline. It may have taken bytes or broken before a call begins, and the context
  of the call may have ended while it waited. Clearing the deadline may fail. After a close every write fails; the error of
  closing twice is the connection's.\<close>

inductive encode_move :: "('v \<Rightarrow> go_error + bytes) \<Rightarrow> go_error \<Rightarrow> 'v encode_local \<Rightarrow> write_io \<Rightarrow> 'v encode_local \<Rightarrow> write_io \<Rightarrow> bool"
  for mar :: "'v \<Rightarrow> go_error + bytes" and timeout :: go_error where
  clear_fails: "encode_move mar timeout (EncodeCalled v) w (EncodeReturned (Some e)) w"
| begins: "\<lbrakk>peer_takes\<^sup>*\<^sup>* w w1; e0 = None \<or> ctx_error e0\<rbrakk> \<Longrightarrow> encode_move mar timeout (EncodeCalled v) w
    (EncodeRunning v (call_start e0 (w1\<lparr>wi_phase := WriteStart\<rparr>))) (w1\<lparr>wi_phase := WriteStart\<rparr>)"
| runs: "call_step (encode_io mar v timeout) peer_takes encode_report s t
    \<Longrightarrow> encode_move mar timeout (EncodeRunning v s) w (EncodeRunning v t) (cs_io t)"
| returns: "cs_phase s = Finished x \<Longrightarrow> encode_move mar timeout (EncodeRunning v s) w (EncodeReturned x) w"
| closes: "encode_move mar timeout CloseCalled w (CloseReturned e)
    (if wi_broken w = None then w\<lparr>wi_broken := Some (Sentinel NetErrClosed)\<rparr> else w)"

fun encode_final :: "'v encode_local \<Rightarrow> bool" where
  "encode_final (EncodeReturned x) = True"
| "encode_final (CloseReturned x) = True"
| "encode_final _ = False"

fun encode_starts :: "'v encode_local \<Rightarrow> bool" where
  "encode_starts (EncodeCalled v) = True"
| "encode_starts CloseCalled = True"
| "encode_starts _ = False"

text \<open>What the writer keeps of the stream: the encoder and what was written.\<close>

definition same_stream :: "write_io \<Rightarrow> write_io \<Rightarrow> bool" where
  "same_stream w w' \<longleftrightarrow> wi_enc w' = wi_enc w \<and> wi_out w' = wi_out w"

lemma peer_same_stream: "peer_takes\<^sup>*\<^sup>* w w' \<Longrightarrow> same_stream w w'"
  by (induction rule: rtranclp_induct) (auto simp: same_stream_def peer_takes_keeps(1,2))

text \<open>A call writes its line and no error stays; or it fails, and then it has written nothing, or a part of
  its line with the error staying in the encoder.\<close>

fun encode_op :: "('v \<Rightarrow> go_error + bytes) \<Rightarrow> 'v encode_local \<Rightarrow> 'v encode_local \<Rightarrow> write_io \<Rightarrow> write_io \<Rightarrow> bool" where
  "encode_op mar (EncodeCalled v) (EncodeReturned x) w w' \<longleftrightarrow>
     se_kind (wi_enc w') = se_kind (wi_enc w)
   \<and> (if x = None then se_err (wi_enc w) = None \<and> se_err (wi_enc w') = None
        \<and> (\<exists>b. mar v = Inr b \<and> wi_out w' = wi_out w @ line_of b)
      else same_stream w w' \<or> se_err (wi_enc w) = None \<and> se_err (wi_enc w') \<noteq> None
        \<and> (\<exists>b k. mar v = Inr b \<and> wi_out w' = wi_out w @ take k (line_of b)))"
| "encode_op mar CloseCalled (CloseReturned x) w w' \<longleftrightarrow> same_stream w w'"
| "encode_op mar _ _ w w' \<longleftrightarrow> False"

subsection \<open>A section alone\<close>

lemma running_section:
  assumes "section_runs (encode_move mar timeout) (EncodeRunning v s) w l w'" "encode_final l" "cs_io s = w"
  shows "\<exists>t x. (call_step (encode_io mar v timeout) peer_takes encode_report)\<^sup>*\<^sup>* s t \<and> cs_phase t = Finished x
    \<and> cs_io t = w' \<and> l = EncodeReturned x"
proof -
  have stuck: "\<not> encode_move mar timeout (EncodeReturned x) u l1 u1" for x u l1 u1
    by (auto elim: encode_move.cases)
  have "(\<exists>t. (call_step (encode_io mar v timeout) peer_takes encode_report)\<^sup>*\<^sup>* s t \<and> cs_io t = w' \<and> l = EncodeRunning v t)
    \<or> (\<exists>t x. (call_step (encode_io mar v timeout) peer_takes encode_report)\<^sup>*\<^sup>* s t \<and> cs_phase t = Finished x
    \<and> cs_io t = w' \<and> l = EncodeReturned x)"
    using assms(1) unfolding section_runs_def
  proof (induction rule: rtranclp_induct2)
    case refl
    with assms(3) show ?case by blast
  next
    case (step l1 w1 l2 w2)
    from step.hyps(2) have "encode_move mar timeout l1 w1 l2 w2" by simp
    then show ?case
      using step.IH stuck
      by (cases rule: encode_move.cases) (auto intro: rtranclp.rtrancl_into_rtrancl)
  qed
  with assms(2) show ?thesis by auto
qed

lemma encode_outcome:
  assumes "Encoder_Encode \<lparr>env_clear_err = None, env_ctx_err = e\<rparr> mar (partial_write err k) (wi_enc w) v (wi_out w) =
      (x, wi_enc w', wi_out w')"
    and "write_ended mar v timeout b err k w'" "se_kind (wi_enc w) = DeadlineWriter"
  shows "encode_op mar (EncodeCalled v) (EncodeReturned x) w w'"
proof -
  obtain r where r: "je_encode mar (partial_write err k) (wi_enc w) v (wi_out w) = (r, wi_enc w', wi_out w')"
    and x: "x = (case r of None \<Rightarrow> None | Some encodeErr \<Rightarrow> errors_join [Some encodeErr, e])"
    using assms(1,3) by (auto simp: Encoder_Encode_def cancelEncode_def split: option.splits prod.splits)
  show ?thesis
  proof (cases "se_err (wi_enc w)")
    case (Some e1)
    with r have "r = Some e1" "same_stream w w'"
      by (simp_all add: je_encode_def same_stream_def)
    then show ?thesis by (simp add: x errors_join_def same_stream_def)
  next
    case None
    show ?thesis
    proof (cases "mar v")
      case (Inl e1)
      with None r have "r = Some e1" "same_stream w w'"
        by (simp_all add: je_encode_def same_stream_def)
      then show ?thesis by (simp add: x errors_join_def same_stream_def)
    next
      case (Inr b)
      with None r have *: "r = err" "wi_enc w' = (wi_enc w)\<lparr>se_err := err\<rparr>" "wi_out w' = wi_out w @ take k (line_of b)"
        by (auto simp: je_encode_def partial_write_def Let_def line_of_def)
      show ?thesis
      proof (cases err)
        case None
        with assms(2) Inr have "take k (line_of b) = line_of b"
          by (simp add: write_ended_def line_of_def)
        with None * Inr \<open>se_err (wi_enc w) = None\<close> show ?thesis by (simp add: x)
      next
        case (Some e1)
        with * Inr None show ?thesis by (auto simp: x errors_join_def)
      qed
    qed
  qed
qed

lemma encode_op_from:
  assumes "same_stream w w1" "encode_op mar (EncodeCalled v) l w1 w'"
  shows "encode_op mar (EncodeCalled v) l w w'"
proof (cases l)
  case (EncodeReturned x)
  with assms show ?thesis unfolding EncodeReturned encode_op.simps same_stream_def by metis
qed (use assms in simp_all)

text \<open>The encoder of a connection, which has a deadline.\<close>

lemma encode_computes:
  assumes "encode_starts k" "section_runs (encode_move mar timeout) k w l w'" "encode_final l"
    and "se_kind (wi_enc w) = DeadlineWriter"
  shows "encode_op mar k l w w'"
  using assms(2)
proof (cases rule: section_cases)
  case nothing
  with assms(1,3) show ?thesis by (cases k) simp_all
next
  case (first l1 w1)
  have over: "l = l1 \<and> w' = w1" if "encode_final l1"
    using first(2) by (rule section_stuck) (use that in \<open>auto elim!: encode_move.cases\<close>)
  from first(1) show ?thesis
  proof (cases rule: encode_move.cases)
    case (clear_fails v e)
    with over show ?thesis by (simp add: same_stream_def)
  next
    case (begins w2 e0 v)
    have kept: "same_stream w w1"
      using peer_same_stream [OF begins(4)] begins(3) by (simp add: same_stream_def)
    obtain t x where t: "(call_step (encode_io mar v timeout) peer_takes encode_report)\<^sup>*\<^sup>* (call_start e0 w1) t"
      "cs_phase t = Finished x" "cs_io t = w'" "l = EncodeReturned x"
      using running_section [OF first(2) [unfolded begins(2)] assms(3)] begins(3) by (auto simp: call_start_def)
    have "wi_phase w1 = WriteStart" "se_kind (wi_enc w1) = WriteCloser \<or> se_kind (wi_enc w1) = DeadlineWriter"
      using begins(3) kept assms(4) by (simp_all add: same_stream_def)
    from encode_call_from [OF t(1) this(1) refl refl begins(5) this(2) t(2)] t(3) obtain err n e where
      "Encoder_Encode \<lparr>env_clear_err = None, env_ctx_err = e\<rparr> mar (partial_write err n) (wi_enc w1) v (wi_out w1) =
        (x, wi_enc w', wi_out w')" "write_ended mar v timeout (e \<noteq> None) err n w'"
      by blast
    from encode_outcome [OF this] kept assms(4) have "encode_op mar (EncodeCalled v) (EncodeReturned x) w1 w'"
      by (simp only: same_stream_def)
    from encode_op_from [OF kept this] show ?thesis
      by (simp only: begins(1) t(4))
  next
    case (closes e)
    with over show ?thesis by (simp add: same_stream_def)
  qed (use assms(1) in simp_all)
qed

interpretation shared_encoder: critical_section "encode_move mar timeout" encode_final encode_starts
    "\<lambda>k l w w'. se_kind (wi_enc w) = DeadlineWriter \<longrightarrow> encode_op mar k l w w'"
  for mar :: "'v \<Rightarrow> go_error + bytes" and timeout
  by unfold_locales (blast intro: encode_computes)

subsection \<open>The stream they wrote\<close>

text \<open>The values whose call returned no error.\<close>

fun encoded_value :: "'v encode_local \<times> 'v encode_local \<Rightarrow> 'v list" where
  "encoded_value (EncodeCalled v, EncodeReturned None) = [v]"
| "encoded_value _ = []"

definition encoded_values :: "('v encode_local \<times> 'v encode_local) list \<Rightarrow> 'v list" where
  "encoded_values ps = concat (map encoded_value ps)"

lemma encoded_values_mset: "mset ps = mset qs \<Longrightarrow> mset (encoded_values ps) = mset (encoded_values qs)"
  unfolding encoded_values_def mset_concat map_map by (metis mset_map sum_mset_sum_list)

text \<open>A part of the line of a call that failed, if any.\<close>

definition cut_line :: "('v \<Rightarrow> go_error + bytes) \<Rightarrow> ('v encode_local \<times> 'v encode_local) list \<Rightarrow> bytes \<Rightarrow> bool" where
  "cut_line mar ps tail \<longleftrightarrow> tail = [] \<or> (\<exists>v e b k. (EncodeCalled v, EncodeReturned (Some e)) \<in> set ps
     \<and> mar v = Inr b \<and> tail = take k (line_of b))"

lemma encodes_in_order:
  assumes "performs (\<lambda>k l w w'. se_kind (wi_enc w) = DeadlineWriter \<longrightarrow> encode_op mar k l w w') ps w w'"
    and "se_kind (wi_enc w) = DeadlineWriter"
  shows "\<exists>bs tail. mapM mar (encoded_values ps) = Inr bs \<and> wi_out w' = wi_out w @ concat (map line_of bs) @ tail
    \<and> cut_line mar ps tail \<and> (se_err (wi_enc w) \<noteq> None \<longrightarrow> bs = [] \<and> tail = [])"
  using assms
proof (induction ps arbitrary: w)
  case Nil
  then show ?case by (simp add: encoded_values_def cut_line_def)
next
  case (Cons p ps)
  obtain k l where p: "p = (k, l)" by (cases p)
  then obtain w1 where first: "encode_op mar k l w w1"
    and rest: "performs (\<lambda>k l w w'. se_kind (wi_enc w) = DeadlineWriter \<longrightarrow> encode_op mar k l w w') ps w1 w'"
    using Cons.prems by auto
  have kind: "se_kind (wi_enc w1) = DeadlineWriter"
    using first Cons.prems(2) by (cases "(mar, k, l, w, w1)" rule: encode_op.cases) (auto simp: same_stream_def)
  from Cons.IH [OF rest kind] obtain bs tail where
    ih: "mapM mar (encoded_values ps) = Inr bs" "wi_out w' = wi_out w1 @ concat (map line_of bs) @ tail"
      "cut_line mar ps tail" "se_err (wi_enc w1) \<noteq> None \<longrightarrow> bs = [] \<and> tail = []"
    by blast
  have cut: "cut_line mar (p # ps) tail" using ih(3) by (auto simp: cut_line_def)
  consider (same) "same_stream w w1" "encoded_value p = []"
    | (whole) v b where "encoded_value p = [v]" "mar v = Inr b" "wi_out w1 = wi_out w @ line_of b" "se_err (wi_enc w) = None"
    | (part) v e b j where "p = (EncodeCalled v, EncodeReturned (Some e))" "mar v = Inr b" "se_err (wi_enc w) = None"
      "se_err (wi_enc w1) \<noteq> None" "wi_out w1 = wi_out w @ take j (line_of b)"
    using first p by (cases "(mar, k, l, w, w1)" rule: encode_op.cases) (auto split: if_splits)
  then show ?case
  proof cases
    case same
    with ih cut show ?thesis
      by (intro exI [of _ bs] exI [of _ tail]) (simp add: encoded_values_def same_stream_def)
  next
    case whole
    with ih cut show ?thesis
      by (intro exI [of _ "b # bs"] exI [of _ tail]) (simp add: encoded_values_def)
  next
    case part
    then have "cut_line mar (p # ps) (take j (line_of b))" "encoded_value p = []"
      by (auto simp: cut_line_def)
    with part ih show ?thesis
      by (intro exI [of _ "[]"] exI [of _ "take j (line_of b)"]) (simp add: encoded_values_def)
  qed
qed

subsection \<open>A call with room for its line\<close>

lemma running_steps:
  assumes "(call_step (encode_io mar v timeout) peer_takes encode_report)\<^sup>*\<^sup>* s t"
  shows "section_runs (encode_move mar timeout) (EncodeRunning v s) (cs_io s) (EncodeRunning v t) (cs_io t)"
  using assms unfolding section_runs_def
proof (induction rule: rtranclp_induct)
  case (step t u)
  from encode_move.runs [OF step.hyps(2)] step.IH show ?case
    by (auto intro: rtranclp.rtrancl_into_rtrancl)
qed simp

lemma encode_succeeds:
  fixes s :: "(write_io, go_error option, go_error option) call_state"
  assumes "mar v = Inr b" "se_err (wi_enc w) = None" "wi_broken w = None" "wi_phase w = WriteStart" "length b < wi_room w"
    and "s = call_start None w"
  shows "\<exists>t. (call_step (encode_io mar v timeout) peer_takes encode_report)\<^sup>*\<^sup>* s t \<and> cs_phase t = Finished None
    \<and> same_stream (w\<lparr>wi_out := wi_out w @ line_of b\<rparr>) (cs_io t) \<and> wi_broken (cs_io t) = None"
proof -
  let ?step = "call_step (encode_io mar v timeout) peer_takes encode_report"
  define w1 where "w1 = w\<lparr>wi_phase := Writing (line_of b)\<rparr>"
  define w2 where "w2 = w1\<lparr>wi_phase := Writing [], wi_out := wi_out w @ line_of b, wi_room := wi_room w - length (line_of b)\<rparr>"
  define w3 where "w3 = w2\<lparr>wi_enc := (wi_enc w)\<lparr>se_err := None\<rparr>\<rparr>"
  have io: "encode_io mar v timeout False w = Some (Inl w1)" "encode_io mar v timeout False w1 = Some (Inl w2)"
    "encode_io mar v timeout False w2 = Some (Inr (None, w3))"
    using assms(1-5) by (simp_all add: encode_io_def encode_done_def w1_def w2_def w3_def line_of_def)
  have s: "cs_phase s = Busy" "cs_after s = Armed" "\<not> cs_interrupted s" "cs_io s = w"
    by (simp_all add: assms(6) call_start_def)
  have "?step\<^sup>*\<^sup>* s (s\<lparr>cs_io := w1\<rparr>)"
    by (rule r_into_rtranclp, rule call_step.io_more) (use s io(1) in simp_all)
  also have "?step \<dots> (s\<lparr>cs_io := w1\<rparr>\<lparr>cs_io := w2\<rparr>)"
    by (rule call_step.io_more) (use s io(2) in simp_all)
  also have "?step \<dots> (s\<lparr>cs_io := w1\<rparr>\<lparr>cs_io := w2\<rparr>\<lparr>cs_phase := Got None, cs_io := w3\<rparr>)"
    by (rule call_step.io_done) (use s io(3) in simp_all)
  also have "?step \<dots> (s\<lparr>cs_io := w1\<rparr>\<lparr>cs_io := w2\<rparr>\<lparr>cs_phase := Got None, cs_io := w3\<rparr>\<lparr>cs_phase := Reporting None, cs_after := Disarmed\<rparr>)"
    by (rule call_step.after_stops) (use s in simp_all)
  also have "?step \<dots> (s\<lparr>cs_io := w3, cs_after := Disarmed, cs_phase := Finished None\<rparr>)"
    using call_step.reports [of "s\<lparr>cs_io := w3, cs_phase := Reporting None, cs_after := Disarmed\<rparr>" None
        "encode_io mar v timeout" peer_takes encode_report]
    by (simp add: encode_report_def)
  finally have "?step\<^sup>*\<^sup>* s (s\<lparr>cs_io := w3, cs_after := Disarmed, cs_phase := Finished None\<rparr>)" by simp
  moreover have "same_stream (w\<lparr>wi_out := wi_out w @ line_of b\<rparr>) w3" "wi_broken w3 = None"
    using assms(2,3) by (simp_all add: same_stream_def w3_def w2_def w1_def)
  ultimately show ?thesis
    by (intro exI [of _ "s\<lparr>cs_io := w3, cs_after := Disarmed, cs_phase := Finished None\<rparr>"]) simp
qed

lemma encode_section:
  assumes "mar v = Inr b" "se_err (wi_enc w) = None" "wi_broken w = None"
  shows "\<exists>w'. whole (encode_move mar timeout) encode_final (EncodeCalled v) (EncodeReturned None) w w'
    \<and> same_stream (w\<lparr>wi_out := wi_out w @ line_of b\<rparr>) w' \<and> wi_broken w' = None"
proof -
  define w1 where "w1 = w\<lparr>wi_room := wi_room w + Suc (length b), wi_phase := WriteStart\<rparr>"
  let ?s = "call_start None w1 :: (write_io, go_error option, go_error option) call_state"
  have "peer_takes w (w\<lparr>wi_room := wi_room w + Suc (length b)\<rparr>)"
    unfolding peer_takes_def by blast
  then have first: "encode_move mar timeout (EncodeCalled v) w (EncodeRunning v ?s) w1"
    unfolding w1_def using encode_move.begins [of w "w\<lparr>wi_room := wi_room w + Suc (length b)\<rparr>" None mar timeout v]
    by (simp add: r_into_rtranclp)
  obtain t where t: "(call_step (encode_io mar v timeout) peer_takes encode_report)\<^sup>*\<^sup>* ?s t" "cs_phase t = Finished None"
    "same_stream (w1\<lparr>wi_out := wi_out w1 @ line_of b\<rparr>) (cs_io t)" "wi_broken (cs_io t) = None"
    using encode_succeeds [of mar v b w1 ?s timeout] assms by (auto simp: w1_def)
  have "section_runs (encode_move mar timeout) (EncodeRunning v ?s) w1 (EncodeRunning v t) (cs_io t)"
    using running_steps [OF t(1)] by (simp add: call_start_def)
  with first encode_move.returns [OF t(2), of mar timeout v "cs_io t"]
  have "section_runs (encode_move mar timeout) (EncodeCalled v) w (EncodeReturned None) (cs_io t)"
    unfolding section_runs_def by (auto intro: rtranclp.rtrancl_into_rtrancl converse_rtranclp_into_rtranclp)
  with t(3,4) show ?thesis
    by (intro exI [of _ "cs_io t"]) (simp add: whole_def same_stream_def w1_def)
qed

end
