(* ===== verification/Goroutines.thy ===== *)
theory Goroutines
  imports ServerLoop
begin

text \<open>
  The goroutines of rpcserver.go a step at a time: what \<^verbatim>\<open>run\<close>, \<^verbatim>\<open>runRequest\<close> and
  \<^verbatim>\<open>runRequests\<close> do between the calls that touch shared state, so that the steps of several messages
  interleave. ServerLoop lets a message take effect at once; here that is what a goroutine does when it runs alone.
\<close>

subsection \<open>One goroutine\<close>

text \<open>What becomes of the error of an encoding: it is reported to the callback, dropped, or reported before the
  message itself is reported as one that could not be parsed.\<close>

datatype encoding_for = Reported | Dropped | Unparsed bytes

text \<open>A goroutine has its message; works through a batch, in order or with goroutines of its own (the members not
  yet handled, the responses waiting for the mutex and those appended); is about to encode a value, to report an
  error of that, or to report its message; or is gone.\<close>

datatype goroutine =
    Fresh bytes "bytes option"
  | InOrder "bytes option" "bytes list" "outval list"
  | InParallel "bytes option" "bytes list" "outval list" "outval list"
  | Encoding "bytes option" outval encoding_for
  | EncodeFailed "bytes option" outval go_error encoding_for
  | Unreadable "bytes option" bytes
  | Over

definition from_ctx :: "ctx \<Rightarrow> bytes option \<Rightarrow> ctx" where
  "from_ctx c src = (if src \<noteq> None then c\<lparr>ctx_from_addr := src\<rparr> else c)"

text \<open>After an encoding, and with the responses of a batch.\<close>

fun encoding_over :: "bytes option \<Rightarrow> encoding_for \<Rightarrow> goroutine" where
  "encoding_over src (Unparsed buf) = Unreadable src buf"
| "encoding_over src _ = Over"

definition batch_over :: "bytes option \<Rightarrow> outval list \<Rightarrow> goroutine" where
  "batch_over src resps = (if resps \<noteq> [] then Encoding src (OutBatch resps) Reported else Over)"

definition go_encode :: "'w RPCServer \<Rightarrow> ctx \<Rightarrow> bytes option \<Rightarrow> outval \<Rightarrow> encoding_for \<Rightarrow> 'w \<Rightarrow> goroutine \<times> 'w" where
  "go_encode rp c src v k w =
     (case pe_EncodeTo (rp_encoder rp) c v src w of
        (Some err, w') \<Rightarrow> (if k = Dropped then Over else EncodeFailed src v err k, w')
      | (None, w') \<Rightarrow> (encoding_over src k, w'))"

definition go_fresh :: "'w RPCServer \<Rightarrow> ctx \<Rightarrow> bytes \<Rightarrow> bytes option \<Rightarrow> 'w \<Rightarrow> goroutine \<times> 'w" where
  "go_fresh rp c buf src w =
     (case HintType buf of
        TypeArray \<Rightarrow>
          (case pd_raws (rp_decoder rp) buf of
             Inl err \<Rightarrow> (Encoding src (OutResponse (Some (invalid_request err))) Dropped,
               runOnDecodingError (rp_Callbacks rp) c buf err w)
           | Inr objs \<Rightarrow>
             if objs = [] then (Encoding src
                 (OutResponse (Some (zero_Response\<lparr>resp_id := NewNullID, resp_error := ErrInvalidRequest\<rparr>))) Reported, w)
             else if length objs = 1 \<or> SerialBatch rp then (InOrder src objs [], w)
             else (InParallel src objs [] [], w))
      | TypeObject \<Rightarrow>
          (case handleRequest rp c buf w of
             (Some resp, w') \<Rightarrow> (Encoding src resp Reported, w')
           | (None, w') \<Rightarrow> (Over, w'))
      | _ \<Rightarrow> (Encoding src (OutResponse (Some (NewResponseError (RpcErr ErrParseError)))) (Unparsed buf), w))"

inductive go_step :: "'w RPCServer \<Rightarrow> ctx \<Rightarrow> goroutine \<times> 'w \<Rightarrow> goroutine \<times> 'w \<Rightarrow> bool"
  for rp :: "'w RPCServer" and c :: ctx where
  begins: "go_fresh rp (from_ctx c src) buf src w = (g, w') \<Longrightarrow> go_step rp c (Fresh buf src, w) (g, w')"
| next_member: "handleRequest rp (from_ctx c src) jr w = (resp, w')
    \<Longrightarrow> go_step rp c (InOrder src (jr # objs) rs, w)
      (InOrder src objs (case resp of Some r \<Rightarrow> rs @ [r] | None \<Rightarrow> rs), w')"
| in_order_over: "go_step rp c (InOrder src [] rs, w) (batch_over src rs, w)"
| member: "batch_step rp (from_ctx c src) (objs, ws, rs, w) (objs', ws', rs', w')
    \<Longrightarrow> go_step rp c (InParallel src objs ws rs, w) (InParallel src objs' ws' rs', w')"
| waited: "go_step rp c (InParallel src [] [] rs, w) (batch_over src rs, w)"
| encodes: "go_encode rp (from_ctx c src) src v k w = (g, w') \<Longrightarrow> go_step rp c (Encoding src v k, w) (g, w')"
| reports: "go_step rp c (EncodeFailed src v err k, w)
    (encoding_over src k, runOnEncodingError (rp_Callbacks rp) (from_ctx c src) v err w)"
| unreadable: "go_step rp c (Unreadable src buf, w)
    (Over, runOnDecodingError (rp_Callbacks rp) (from_ctx c src) buf (RpcErr ErrParseError) w)"

inductive_simps go_step_simps [simp]:
  "go_step rp c (Fresh buf src, w) t" "go_step rp c (InOrder src [] rs, w) t" "go_step rp c (InOrder src (jr # objs) rs, w) t"
  "go_step rp c (Encoding src v k, w) t" "go_step rp c (EncodeFailed src v err k, w) t" "go_step rp c (Unreadable src buf, w) t"
  "go_step rp c (Over, w) t"

inductive_cases parallelE: "go_step rp c (InParallel src objs ws rs, w) t"

fun in_parallel :: "bytes option \<Rightarrow> bytes list \<times> outval list \<times> outval list \<times> 'w \<Rightarrow> goroutine \<times> 'w" where
  "in_parallel src (objs, ws, rs, w) = (InParallel src objs ws rs, w)"

lemma parallel_step:
  "go_step rp c (InParallel src objs ws rs, w) t \<longleftrightarrow>
   (\<exists>b. batch_step rp (from_ctx c src) (objs, ws, rs, w) b \<and> t = in_parallel src b)
   \<or> objs = [] \<and> ws = [] \<and> t = (batch_over src rs, w)"
  by (cases t) (auto elim!: parallelE intro: go_step.member go_step.waited)

subsection \<open>A goroutine that runs alone\<close>

text \<open>\<open>ends rp c s w'\<close>: from \<open>s\<close> the goroutine can go on to its end, in the state \<open>w'\<close>.\<close>

definition ends :: "'w RPCServer \<Rightarrow> ctx \<Rightarrow> goroutine \<times> 'w \<Rightarrow> 'w \<Rightarrow> bool" where
  "ends rp c s w' \<longleftrightarrow> (go_step rp c)\<^sup>*\<^sup>* s (Over, w')"

lemma ends_over [simp]: "ends rp c (Over, w) w' \<longleftrightarrow> w' = w"
  by (auto simp: ends_def elim: converse_rtranclpE)

lemma ends_first:
  assumes "go_step rp c s t" "\<And>t'. go_step rp c s t' \<Longrightarrow> t' = t"
  shows "ends rp c s w' \<longleftrightarrow> ends rp c t w'"
proof
  assume "ends rp c s w'"
  then show "ends rp c t w'"
    unfolding ends_def
  proof (cases rule: converse_rtranclpE)
    case base
    with assms(1) show "(go_step rp c)\<^sup>*\<^sup>* t (Over, w')" by simp
  next
    case (step u)
    with assms(2) show "(go_step rp c)\<^sup>*\<^sup>* t (Over, w')" by simp
  qed
next
  assume "ends rp c t w'"
  with assms(1) show "ends rp c s w'"
    unfolding ends_def by (rule converse_rtranclp_into_rtranclp)
qed

lemma ends_fresh [simp]: "ends rp c (Fresh buf src, w) w' \<longleftrightarrow> ends rp c (go_fresh rp (from_ctx c src) buf src w) w'"
  by (rule ends_first) (simp_all add: prod_eq_iff)

lemma ends_failed [simp]:
  "ends rp c (EncodeFailed src v err k, w) w' \<longleftrightarrow>
   ends rp c (encoding_over src k, runOnEncodingError (rp_Callbacks rp) (from_ctx c src) v err w) w'"
  by (rule ends_first) simp_all

lemma ends_unreadable [simp]:
  "ends rp c (Unreadable src buf, w) w' \<longleftrightarrow>
   w' = runOnDecodingError (rp_Callbacks rp) (from_ctx c src) buf (RpcErr ErrParseError) w"
  using ends_first [of rp c "(Unreadable src buf, w)"] by simp

lemma ends_encoding [simp]:
  "ends rp c (Encoding src v k, w) w' \<longleftrightarrow>
   (case k of
      Reported \<Rightarrow> w' = encode_or_report rp (from_ctx c src) v src w
    | Dropped \<Rightarrow> w' = snd (pe_EncodeTo (rp_encoder rp) (from_ctx c src) v src w)
    | Unparsed buf \<Rightarrow> w' = runOnDecodingError (rp_Callbacks rp) (from_ctx c src) buf (RpcErr ErrParseError)
        (encode_or_report rp (from_ctx c src) v src w))"
proof -
  have "ends rp c (Encoding src v k, w) w' \<longleftrightarrow> ends rp c (go_encode rp (from_ctx c src) src v k w) w'"
    by (rule ends_first) (simp_all add: prod_eq_iff)
  then show ?thesis
    by (cases k) (auto simp: go_encode_def encode_or_report_def split: prod.split option.split)
qed

lemma ends_batch_over [simp]:
  "ends rp c (batch_over src rs, w) w' \<longleftrightarrow>
   w' = (if rs \<noteq> [] then encode_or_report rp (from_ctx c src) (OutBatch rs) src w else w)"
  by (simp add: batch_over_def)

lemma ends_in_order [simp]:
  "ends rp c (InOrder src objs rs, w) w' \<longleftrightarrow>
   (case handle_all rp (from_ctx c src) objs w of (rs', w1) \<Rightarrow> ends rp c (batch_over src (rs @ rs'), w1) w')"
proof (induction objs arbitrary: rs w)
  case Nil
  have "ends rp c (InOrder src [] rs, w) w' \<longleftrightarrow> ends rp c (batch_over src rs, w) w'"
    by (rule ends_first) simp_all
  then show ?case by simp
next
  case (Cons jr objs)
  obtain resp w1 where r: "handleRequest rp (from_ctx c src) jr w = (resp, w1)" by fastforce
  have "ends rp c (InOrder src (jr # objs) rs, w) w' \<longleftrightarrow>
      ends rp c (InOrder src objs (case resp of Some r \<Rightarrow> rs @ [r] | None \<Rightarrow> rs), w1) w'"
    by (rule ends_first) (use r in \<open>simp_all add: prod_eq_iff\<close>)
  with r show ?case
    by (cases resp) (simp_all add: Cons.IH split: prod.split)
qed

lemma parallel_steps:
  "(batch_step rp (from_ctx c src))\<^sup>*\<^sup>* a b \<Longrightarrow> (go_step rp c)\<^sup>*\<^sup>* (in_parallel src a) (in_parallel src b)"
proof (induction rule: rtranclp_induct)
  case (step b d)
  have "go_step rp c (in_parallel src b) (in_parallel src d)"
    using step.hyps(2) by (cases b) (auto simp: parallel_step simp del: split_paired_Ex)
  with step.IH show ?case by (rule rtranclp.rtrancl_into_rtrancl)
qed simp

lemma parallel_over:
  assumes "(go_step rp c)\<^sup>*\<^sup>* s (Over, w')" "s = in_parallel src a"
  shows "\<exists>rs' w1. (batch_step rp (from_ctx c src))\<^sup>*\<^sup>* a ([], [], rs', w1) \<and> ends rp c (batch_over src rs', w1) w'"
  using assms
proof (induction arbitrary: a rule: converse_rtranclp_induct)
  case base
  then show ?case by (cases a) simp
next
  case (step s t)
  obtain objs ws rs w where a: "a = (objs, ws, rs, w)" by (cases a)
  from step.hyps(1) step.prems a consider (member) b where "batch_step rp (from_ctx c src) a b" "t = in_parallel src b"
    | (over) "objs = []" "ws = []" "t = (batch_over src rs, w)"
    by (auto simp: parallel_step)
  then show ?case
  proof cases
    case member
    from step.IH [OF member(2)] member(1) show ?thesis by (meson converse_rtranclp_into_rtranclp)
  next
    case over
    with step.hyps(2) a show ?thesis unfolding ends_def by blast
  qed
qed

lemma ends_parallel [simp]:
  "ends rp c (InParallel src objs [] [], w) w' \<longleftrightarrow>
   (\<exists>rs w1. gathers rp (from_ctx c src) objs w rs w1 \<and> ends rp c (batch_over src rs, w1) w')"
proof
  assume "ends rp c (InParallel src objs [] [], w) w'"
  then show "\<exists>rs w1. gathers rp (from_ctx c src) objs w rs w1 \<and> ends rp c (batch_over src rs, w1) w'"
    using parallel_over [of rp c _ w' src "(objs, [], [], w)"] unfolding ends_def gathers_def by simp
next
  assume "\<exists>rs w1. gathers rp (from_ctx c src) objs w rs w1 \<and> ends rp c (batch_over src rs, w1) w'"
  then obtain rs w1 where b: "(batch_step rp (from_ctx c src))\<^sup>*\<^sup>* (objs, [], [], w) ([], [], rs, w1)"
    and e: "ends rp c (batch_over src rs, w1) w'"
    unfolding gathers_def by blast
  have "(go_step rp c)\<^sup>*\<^sup>* (InParallel src objs [] [], w) (InParallel src [] [] rs, w1)"
    using parallel_steps [OF b] by simp
  also have "go_step rp c \<dots> (batch_over src rs, w1)" by (rule go_step.waited)
  also have "(go_step rp c)\<^sup>*\<^sup>* \<dots> (Over, w')" using e unfolding ends_def .
  finally show "ends rp c (InParallel src objs [] [], w) w'" unfolding ends_def .
qed

text \<open>A schedule may pick any outcome its batch allows.\<close>

lemma schedule_pick:
  "gathers rp c objs w rs w' \<longleftrightarrow> (\<exists>gather. schedule rp gather \<and> gather c objs w = (rs, w'))"
proof
  assume "gathers rp c objs w rs w'"
  then have "schedule rp (\<lambda>c1 objs1 w1. if c1 = c \<and> objs1 = objs \<and> w1 = w then (rs, w') else handle_all rp c1 objs1 w1)"
    using gathers_serial [of rp] by (auto simp: schedule_def)
  then show "\<exists>gather. schedule rp gather \<and> gather c objs w = (rs, w')" by fastforce
next
  assume "\<exists>gather. schedule rp gather \<and> gather c objs w = (rs, w')"
  then obtain gather where "schedule rp gather" "gather c objs w = (rs, w')" by blast
  then show "gathers rp c objs w rs w'"
    unfolding schedule_def by (metis fst_conv snd_conv)
qed

lemma schedule_picks:
  "(\<exists>gather. schedule rp gather \<and> w' = f (gather c objs w)) \<longleftrightarrow> (\<exists>rs w1. gathers rp c objs w rs w1 \<and> w' = f (rs, w1))"
  unfolding schedule_pick by (metis surj_pair)

lemma some_schedule: "Ex (schedule rp)" "(\<exists>gather. schedule rp gather \<and> P) \<longleftrightarrow> P"
  using schedule_serial by blast+

lemma ends_message: "ends rp c (Fresh buf src, w) w' \<longleftrightarrow> message_run rp c (buf, src) w w'"
proof -
  let ?c = "from_ctx c src"
  have run: "run rp gather c buf src w =
     (case HintType buf of
        TypeArray \<Rightarrow> runRequests rp (gather ?c) ?c buf src w
      | TypeObject \<Rightarrow> runRequest rp ?c buf src w
      | _ \<Rightarrow> runOnDecodingError (rp_Callbacks rp) ?c buf (RpcErr ErrParseError)
          (encode_or_report rp ?c (OutResponse (Some (NewResponseError (RpcErr ErrParseError)))) src w))" for gather
    unfolding run_def from_ctx_def Let_def by (rule refl)
  have pick: "(\<exists>gather. schedule rp gather \<and>
        w' = (case gather ?c objs w of (rs, w1) \<Rightarrow> if rs \<noteq> [] then encode_or_report rp ?c (OutBatch rs) src w1 else w1)) \<longleftrightarrow>
      (\<exists>rs w1. gathers rp ?c objs w rs w1 \<and> w' = (if rs \<noteq> [] then encode_or_report rp ?c (OutBatch rs) src w1 else w1))" for objs
    using schedule_picks [of rp w' "\<lambda>(rs, w1). if rs \<noteq> [] then encode_or_report rp ?c (OutBatch rs) src w1 else w1" ?c objs w] by simp
  show ?thesis
  proof (cases "HintType buf = TypeArray")
    case True
    then show ?thesis
      by (auto simp: message_run_def run runRequests_def go_fresh_def some_schedule pick Let_def
          split: sum.split prod.split)
  next
    case False
    then show ?thesis
      by (cases "HintType buf")
        (auto simp: message_run_def run go_fresh_def some_schedule runRequest_def split: prod.split option.split)
  qed
qed

end
