(* ===== verification/ConcurrentServer.thy ===== *)
theory ConcurrentServer
  imports Goroutines StreamServer
begin

text \<open>
  \<^verbatim>\<open>Run\<close> of rpcserver.go with its goroutines a step at a time, beside each other and beside the loop
  that goes on reading, and a whole session on a stream whose requests are handled that way.
\<close>

subsection \<open>The server\<close>

record 'w fine_srv =
  fs_phase :: phase
  fs_jobs :: "goroutine list"
  fs_world :: 'w

inductive fine_step :: "'w RPCServer \<Rightarrow> ('w \<Rightarrow> go_error option) \<Rightarrow> ctx \<Rightarrow> 'w fine_srv \<Rightarrow> 'w fine_srv \<Rightarrow> bool"
  for rp :: "'w RPCServer" and cerr :: "'w \<Rightarrow> go_error option" and c :: ctx where
  fine_exit: "\<lbrakk>fs_phase s = Looping;
      read_message rp (internal_ctx cerr False c (fs_world s)) (fs_world s) = NExit e w'\<rbrakk>
    \<Longrightarrow> fine_step rp cerr c s (s\<lparr>fs_phase := Exiting e, fs_world := w'\<rparr>)"
| fine_skip: "\<lbrakk>fs_phase s = Looping;
      read_message rp (internal_ctx cerr False c (fs_world s)) (fs_world s) = NSkip w'\<rbrakk>
    \<Longrightarrow> fine_step rp cerr c s (s\<lparr>fs_world := w'\<rparr>)"
| fine_sync: "\<lbrakk>fs_phase s = Looping; NoRoutines rp;
      read_message rp (internal_ctx cerr False c (fs_world s)) (fs_world s) = NMessage buf src w1;
      ends rp (internal_ctx cerr False c w1) (Fresh buf src, w1) w'\<rbrakk>
    \<Longrightarrow> fine_step rp cerr c s (s\<lparr>fs_world := w'\<rparr>)"
| fine_spawn: "\<lbrakk>fs_phase s = Looping; \<not> NoRoutines rp;
      read_message rp (internal_ctx cerr False c (fs_world s)) (fs_world s) = NMessage buf src w'\<rbrakk>
    \<Longrightarrow> fine_step rp cerr c s (s\<lparr>fs_jobs := fs_jobs s @ [Fresh buf src], fs_world := w'\<rparr>)"
| fine_go: "\<lbrakk>fs_jobs s = xs @ g # ys;
      go_step rp (internal_ctx cerr (stopped (fs_phase s)) c (fs_world s)) (g, fs_world s) (g', w')\<rbrakk>
    \<Longrightarrow> fine_step rp cerr c s (s\<lparr>fs_jobs := xs @ g' # ys, fs_world := w'\<rparr>)"
| fine_gone: "fs_jobs s = xs @ Over # ys \<Longrightarrow> fine_step rp cerr c s (s\<lparr>fs_jobs := xs @ ys\<rparr>)"
| fine_wait: "\<lbrakk>fs_phase s = Exiting e; WaitOnClose rp; fs_jobs s = []\<rbrakk>
    \<Longrightarrow> fine_step rp cerr c s (s\<lparr>fs_phase := Waited e\<rparr>)"
| fine_stop: "\<lbrakk>fs_phase s = Exiting e; \<not> WaitOnClose rp\<rbrakk>
    \<Longrightarrow> fine_step rp cerr c s (s\<lparr>fs_phase := Draining e\<rparr>)"
| fine_drained: "\<lbrakk>fs_phase s = Draining e; fs_jobs s = []\<rbrakk>
    \<Longrightarrow> fine_step rp cerr c s (s\<lparr>fs_phase := Waited e\<rparr>)"
| fine_returns: "\<lbrakk>fs_phase s = Waited e; finish rp cerr c e (fs_world s) = (r, w')\<rbrakk>
    \<Longrightarrow> fine_step rp cerr c s (s\<lparr>fs_phase := Returned r, fs_world := w'\<rparr>)"

definition fine_start :: "'w \<Rightarrow> 'w fine_srv" where
  "fine_start w = \<lparr>fs_phase = Looping, fs_jobs = [], fs_world = w\<rparr>"

text \<open>The coarse server of ServerLoop does what this one can do.\<close>

definition as_fine :: "'w srv \<Rightarrow> 'w fine_srv" where
  "as_fine s = \<lparr>fs_phase = srv_phase s, fs_jobs = map (\<lambda>(buf, src). Fresh buf src) (srv_jobs s), fs_world = srv_world s\<rparr>"

lemma go_steps_fine:
  assumes "(go_step rp c0)\<^sup>*\<^sup>* (g, w) (g', w')" "\<forall>w. internal_ctx cerr (stopped p) c w = c0"
  shows "(fine_step rp cerr c)\<^sup>*\<^sup>* \<lparr>fs_phase = p, fs_jobs = xs @ g # ys, fs_world = w\<rparr>
    \<lparr>fs_phase = p, fs_jobs = xs @ g' # ys, fs_world = w'\<rparr>"
  using assms(1)
proof (induction rule: rtranclp_induct2)
  case (step g1 w1 g2 w2)
  have "fine_step rp cerr c \<lparr>fs_phase = p, fs_jobs = xs @ g1 # ys, fs_world = w1\<rparr>
      (\<lparr>fs_phase = p, fs_jobs = xs @ g1 # ys, fs_world = w1\<rparr>\<lparr>fs_jobs := xs @ g2 # ys, fs_world := w2\<rparr>)"
    by (rule fine_step.fine_go) (use step.hyps(2) assms(2) in simp_all)
  with step.IH show ?case by (auto intro: rtranclp.rtrancl_into_rtrancl)
qed simp

lemma goroutine_fine:
  assumes "message_run rp c0 j w w'" "\<forall>w. internal_ctx cerr (stopped p) c w = c0"
  shows "(fine_step rp cerr c)\<^sup>*\<^sup>* \<lparr>fs_phase = p, fs_jobs = xs @ Fresh (fst j) (snd j) # ys, fs_world = w\<rparr>
    \<lparr>fs_phase = p, fs_jobs = xs @ ys, fs_world = w'\<rparr>"
proof -
  have "(go_step rp c0)\<^sup>*\<^sup>* (Fresh (fst j) (snd j), w) (Over, w')"
    using assms(1) ends_message [of rp c0 "fst j" "snd j" w w'] by (simp add: ends_def)
  from go_steps_fine [OF this assms(2), of xs ys]
  have "(fine_step rp cerr c)\<^sup>*\<^sup>* \<lparr>fs_phase = p, fs_jobs = xs @ Fresh (fst j) (snd j) # ys, fs_world = w\<rparr>
    \<lparr>fs_phase = p, fs_jobs = xs @ Over # ys, fs_world = w'\<rparr>" .
  also have "fine_step rp cerr c \<dots> (\<lparr>fs_phase = p, fs_jobs = xs @ Over # ys, fs_world = w'\<rparr>\<lparr>fs_jobs := xs @ ys\<rparr>)"
    by (rule fine_step.fine_gone) simp
  finally show ?thesis by simp
qed

lemma coarse_fine:
  assumes "srv_step rp cerr c s t" "\<forall>w. cerr w = e0"
  shows "(fine_step rp cerr c)\<^sup>*\<^sup>* (as_fine s) (as_fine t)"
  using assms(1)
proof (cases rule: srv_step.cases)
  case (goroutine xs j ys w')
  let ?c = "internal_ctx cerr (stopped (srv_phase s)) c (srv_world s)"
  have "\<forall>w. internal_ctx cerr (stopped (srv_phase s)) c w = ?c"
    using assms(2) by (simp add: internal_ctx_def)
  from goroutine_fine [OF goroutine(3) this, of "map (\<lambda>(buf, src). Fresh buf src) xs" "map (\<lambda>(buf, src). Fresh buf src) ys"]
  show ?thesis by (simp add: as_fine_def goroutine(1,2) split_beta)
next
  case (loop_sync buf src w1 w')
  then have "fine_step rp cerr c (as_fine s) (as_fine s\<lparr>fs_world := w'\<rparr>)"
    by (intro fine_step.fine_sync [where buf = buf and src = src]) (simp_all add: as_fine_def ends_message del: ends_fresh)
  then show ?thesis by (simp add: as_fine_def loop_sync(1))
next
  case (loop_spawn buf src w')
  then have "fine_step rp cerr c (as_fine s) (as_fine s\<lparr>fs_jobs := fs_jobs (as_fine s) @ [Fresh buf src], fs_world := w'\<rparr>)"
    by (intro fine_step.fine_spawn) (simp_all add: as_fine_def)
  then show ?thesis by (simp add: as_fine_def loop_spawn(1))
qed (auto simp: as_fine_def intro!: r_into_rtranclp
    intro: fine_step.intros [of "\<lparr>fs_phase = _, fs_jobs = _, fs_world = _\<rparr>", simplified])

lemma coarse_run_fine:
  assumes "(srv_step rp cerr c)\<^sup>*\<^sup>* s t" "\<forall>w. cerr w = e0"
  shows "(fine_step rp cerr c)\<^sup>*\<^sup>* (as_fine s) (as_fine t)"
  using assms(1) by (induction rule: rtranclp_induct) (auto dest: coarse_fine [OF _ assms(2)])

subsection \<open>Requests handled and answered so far\<close>

text \<open>What is left of a session's messages in goroutines that have not handled them, and of its responses in
  goroutines that have not encoded them.\<close>

fun unhandled :: "goroutine \<Rightarrow> bytes list" where
  "unhandled (Fresh v src) = [v]"
| "unhandled g = []"

fun unsent :: "goroutine \<Rightarrow> Response list" where
  "unsent (Encoding src (OutResponse (Some r)) k) = [r]"
| "unsent g = []"

text \<open>The goroutines of single requests without a sender.\<close>

fun request_job :: "(bytes \<Rightarrow> bool) \<Rightarrow> goroutine \<Rightarrow> bool" where
  "request_job good (Fresh v src) = (src = None \<and> good v)"
| "request_job good (Encoding src (OutResponse (Some r)) k) = (src = None \<and> k = Reported \<and> (\<exists>b. marshal_response r = Inr b))"
| "request_job good Over = True"
| "request_job good g = False"

fun job_weight :: "goroutine \<Rightarrow> nat" where
  "job_weight (Fresh v src) = 3"
| "job_weight (Encoding src r k) = 2"
| "job_weight g = 1"

lemma outcomes_snoc:
  "outcomes h c (qs @ [q]) u = (case outcomes h c qs u of (outs, u1) \<Rightarrow>
     case Handle h c q u1 of (out, u2) \<Rightarrow> (outs @ [out], u2))"
  by (induction qs arbitrary: u) (simp_all add: Let_def split: prod.splits)

lemma replies_snoc:
  "length outs = length qs \<Longrightarrow> replies (qs @ [q]) (outs @ [out]) =
     replies qs outs @ (if Request_IsNotification q then [] else [reply_of q out])"
  by (simp add: replies_def)

text \<open>\<open>whole_session\<close> says what has become of the requests \<open>qs\<close>: some are handled, in an order that gives the state
  of the user's code; their responses are encoded or will be.\<close>

definition whole_session :: "'u Handler \<Rightarrow> ctx \<Rightarrow> 'u \<Rightarrow> bytes \<Rightarrow> Request multiset \<Rightarrow> Request multiset
    \<Rightarrow> Response multiset \<Rightarrow> bytes \<Rightarrow> 'u \<Rightarrow> bool" where
  "whole_session h c u0 sent0 qs waiting pending out u \<longleftrightarrow>
     (\<exists>did outs rs bs. qs = waiting + mset did \<and> outcomes h c did u0 = (outs, u)
        \<and> mapM marshal_response rs = Inr bs \<and> out = sent0 @ concat (map line_of bs)
        \<and> mset (replies did outs) = mset rs + pending)"

lemma whole_session_start: "whole_session h c u sent0 qs qs {#} sent0 u"
  unfolding whole_session_def by (intro exI [of _ "[]"]) (simp add: replies_def)

lemma whole_session_handled:
  assumes "whole_session h c u0 sent0 qs (add_mset q waiting) pending out u" "Handle h c q u = (res, u1)"
  shows "whole_session h c u0 sent0 qs waiting
    (if Request_IsNotification q then pending else add_mset (reply_of q res) pending) out u1"
proof -
  obtain did outs rs bs where s: "qs = add_mset q waiting + mset did" "outcomes h c did u0 = (outs, u)"
    "mapM marshal_response rs = Inr bs" "out = sent0 @ concat (map line_of bs)" "mset (replies did outs) = mset rs + pending"
    using assms(1) by (auto simp: whole_session_def)
  have "length outs = length did" by (rule outcomes_length [OF s(2)])
  then show ?thesis
    unfolding whole_session_def using s assms(2)
    by (intro exI [of _ "did @ [q]"] exI [of _ "outs @ [res]"] exI [of _ rs] exI [of _ bs])
      (simp add: outcomes_snoc replies_snoc)
qed

lemma whole_session_sent:
  assumes "whole_session h c u0 sent0 qs waiting (add_mset r pending) out u" "marshal_response r = Inr b"
  shows "whole_session h c u0 sent0 qs waiting pending (out @ line_of b) u"
proof -
  obtain did outs rs bs where s: "qs = waiting + mset did" "outcomes h c did u0 = (outs, u)"
    "mapM marshal_response rs = Inr bs" "out = sent0 @ concat (map line_of bs)" "mset (replies did outs) = mset rs + add_mset r pending"
    using assms(1) by (auto simp: whole_session_def)
  then show ?thesis
    unfolding whole_session_def using assms(2)
    by (intro exI [of _ did] exI [of _ outs] exI [of _ "rs @ [r]"] exI [of _ "bs @ [b]"]) (simp add: mapM_append_Inr)
qed

subsection \<open>A session\<close>

text \<open>A server that starts goroutines and waits for them before it cancels their context, and whose shutdown
  neither writes nor touches the state of the user's code.\<close>

definition serving :: "ctx \<Rightarrow> ctx" where
  "serving c = c\<lparr>ctx_rpc_server := True, ctx_err := None\<rparr>"

lemma serving_simps [simp]: "internal_ctx (\<lambda>_. None) False c w = serving c" "ctx_err (serving c) = None"
  by (simp_all add: serving_def internal_ctx_def)

locale waiting_side = stream_side +
  assumes waits: "WaitOnClose rp" "\<not> NoRoutines rp"
    and finish_keeps: "sent (snd (finish rp cerr c e w)) = sent w" "user (snd (finish rp cerr c e w)) = user w"
      "encoder (snd (finish rp cerr c e w)) = encoder w"
begin

definition request_of :: "bytes \<Rightarrow> Request" where
  "request_of v = projr (pd_request (rp_decoder rp) v)"

definition answered_text :: "ctx \<Rightarrow> bytes \<Rightarrow> bool" where
  "answered_text sc v \<longleftrightarrow> framed v \<and> HintType v = TypeObject \<and> (\<exists>q. pd_request (rp_decoder rp) v = Inr q
     \<and> (\<forall>u. case Handle h sc q u of (out, u') \<Rightarrow> plain_outcome out
        \<and> (\<not> Request_IsNotification q \<longrightarrow> (\<exists>b. marshal_response (reply_of q out) = Inr b))))"

definition unhandled_requests :: "bytes list \<Rightarrow> goroutine list \<Rightarrow> Request multiset" where
  "unhandled_requests rest jobs = image_mset request_of (mset rest + mset (concat (map unhandled jobs)))"

definition unsent_responses :: "goroutine list \<Rightarrow> Response multiset" where
  "unsent_responses jobs = mset (concat (map unsent jobs))"

definition phase_ok :: "phase \<Rightarrow> goroutine list \<Rightarrow> bytes list \<Rightarrow> 'a \<Rightarrow> bool" where
  "phase_ok p jobs rest w \<longleftrightarrow> (case p of
     Looping \<Rightarrow> healthy (decoder w) \<and> (\<exists>sp. list_all is_space sp \<and> sd_pending (decoder w) = sp @ concat (map line_of rest))
   | Exiting e \<Rightarrow> rest = [] \<and> is_err (Some e) EOF
   | Draining e \<Rightarrow> False
   | Waited e \<Rightarrow> rest = [] \<and> jobs = [] \<and> is_err (Some e) EOF
   | Returned r \<Rightarrow> rest = [] \<and> jobs = [] \<and> is_err r EOF)"

definition session_ok :: "ctx \<Rightarrow> 'b \<Rightarrow> bytes \<Rightarrow> Request multiset \<Rightarrow> 'a fine_srv \<Rightarrow> bool" where
  "session_ok sc u0 sent0 qs s \<longleftrightarrow> se_err (encoder (fs_world s)) = None
     \<and> list_all (request_job (answered_text sc)) (fs_jobs s)
     \<and> (\<exists>rest. list_all (answered_text sc) rest \<and> phase_ok (fs_phase s) (fs_jobs s) rest (fs_world s)
        \<and> whole_session h sc u0 sent0 qs (unhandled_requests rest (fs_jobs s)) (unsent_responses (fs_jobs s))
            (sent (fs_world s)) (user (fs_world s)))"

lemma job_simps [simp]:
  "unhandled_requests rest (xs @ g # ys) = image_mset request_of (mset (unhandled g)) + unhandled_requests rest (xs @ ys)"
  "unsent_responses (xs @ g # ys) = mset (unsent g) + unsent_responses (xs @ ys)"
  by (simp_all add: unhandled_requests_def unsent_responses_def)

lemma handles_request:
  assumes "pd_request (rp_decoder rp) v = Inr q" "Handle h sc q (user w) = (out, u)" "plain_outcome out"
  shows "handleRequest rp sc v w =
    (if Request_IsNotification q then None else Some (OutResponse (Some (reply_of q out))), put_user u w)"
proof -
  have "Handle (rp_Handler rp) sc q w = (out, put_user u w)"
    using assms(2) by (simp add: handles)
  with assms(1,3) show ?thesis
    by (cases "(q, out)" rule: reply_of.cases) (simp_all add: handleRequest_def)
qed

lemma go_keeps:
  assumes "go_step rp sc (g, w) (g', w')" "request_job (answered_text sc) g" "se_err (encoder w) = None"
    and "whole_session h sc u0 sent0 qs (image_mset request_of (mset (unhandled g)) + waiting) (mset (unsent g) + pending)
      (sent w) (user w)"
  shows "request_job (answered_text sc) g' \<and> job_weight g' < job_weight g \<and> encoder w' = encoder w \<and> decoder w' = decoder w
    \<and> whole_session h sc u0 sent0 qs (image_mset request_of (mset (unhandled g')) + waiting) (mset (unsent g') + pending)
      (sent w') (user w')"
  using assms(2)
proof (cases "(answered_text sc, g)" rule: request_job.cases)
  case (1 good v src)
  then have v: "HintType v = TypeObject" "src = None" and "answered_text sc v"
    using assms(2) by (auto simp: answered_text_def)
  then obtain q where q: "pd_request (rp_decoder rp) v = Inr q" and ok: "\<forall>u. case Handle h sc q u of (out, u') \<Rightarrow> plain_outcome out
      \<and> (\<not> Request_IsNotification q \<longrightarrow> (\<exists>b. marshal_response (reply_of q out) = Inr b))"
    by (auto simp: answered_text_def)
  obtain out u where out: "Handle h sc q (user w) = (out, u)" by fastforce
  from ok [rule_format, of "user w"] out have plain: "plain_outcome out"
    "\<not> Request_IsNotification q \<Longrightarrow> \<exists>b. marshal_response (reply_of q out) = Inr b" by auto
  have "request_of v = q" using q by (simp add: request_of_def)
  then have "whole_session h sc u0 sent0 qs waiting
      (if Request_IsNotification q then pending else add_mset (reply_of q out) pending) (sent w) u"
    using whole_session_handled [OF _ out, of u0 sent0 qs waiting pending "sent w"] assms(4) 1 by simp
  with assms(1) 1 v handles_request [OF q out plain(1)] plain(2) show ?thesis
    by (auto simp: go_fresh_def from_ctx_def state_laws split: if_splits)
next
  case (2 good src r k)
  then obtain b where b: "marshal_response r = Inr b" "src = None" "k = Reported"
    using assms(2) by auto
  have "go_encode rp sc None (OutResponse (Some r)) Reported w = (Over, put_sent (sent w @ line_of b) w)"
    using writes [OF assms(3), of "OutResponse (Some r)" b] b(1) by (simp add: go_encode_def line_of_def)
  moreover have "whole_session h sc u0 sent0 qs waiting pending (sent w @ line_of b) (user w)"
    using whole_session_sent [OF _ b(1)] assms(4) 2 by simp
  ultimately show ?thesis
    using assms(1) 2 b by (auto simp: from_ctx_def state_laws)
qed (use assms(1) in auto)

lemma reads_next:
  assumes "phase_ok Looping jobs rest w" "list_all (answered_text sc) rest" "ctx_err c = None"
  shows "case rest of
     [] \<Rightarrow> \<exists>e d. read_message rp c w = NExit e (put_decoder d w) \<and> is_err (Some e) EOF
   | v # vs \<Rightarrow> \<exists>d. read_message rp c w = NMessage v None (put_decoder d w) \<and> phase_ok Looping jobs' vs (put_decoder d w)
       \<and> length (sd_pending d) < length (sd_pending (decoder w))"
proof -
  obtain sp where sp: "healthy (decoder w)" "list_all is_space sp" "sd_pending (decoder w) = sp @ concat (map line_of rest)"
    using assms(1) by (auto simp: phase_ok_def)
  show ?thesis
  proof (cases rest)
    case Nil
    with sp have "next_value (sd_pending (decoder w)) = Inl (Sentinel EOF)"
      by (simp add: next_value_spaces)
    from read_fatal [OF sp(1) this assms(3)] Nil show ?thesis
      by (auto simp: is_err_def)
  next
    case (Cons v vs)
    have v: "framed v" using assms(2) Cons by (simp add: answered_text_def)
    have "sd_pending (decoder w) = sp @ v @ [CHR 0x0A] @ concat (map line_of vs)"
      using sp(3) Cons by (simp add: line_of_def [of v])
    from reads_message [OF sp(1) v sp(2) this, of c] obtain d where
      d: "read_message rp c w = NMessage v None (put_decoder d w)" "healthy d"
      "sd_pending d = [CHR 0x0A] @ concat (map line_of vs)" by blast
    have "length (sd_pending d) < length (sd_pending (decoder w))"
      using d(3) sp(3) v Cons by (cases v) (auto simp: line_of_def framed_def)
    with d Cons show ?thesis
      by (auto simp: phase_ok_def state_laws is_space_def intro!: exI [of _ "[CHR 0x0A]"])
  qed
qed

definition session_weight :: "'a fine_srv \<Rightarrow> nat" where
  "session_weight s = (case fs_phase s of Looping \<Rightarrow> 4 * length (sd_pending (decoder (fs_world s))) + 3
      | Exiting e \<Rightarrow> 2 | Waited e \<Rightarrow> 1 | _ \<Rightarrow> 0) + sum_list (map job_weight (fs_jobs s))"

lemma go_ctx:
  "phase_ok p jobs rest w \<Longrightarrow> jobs \<noteq> [] \<Longrightarrow> internal_ctx (\<lambda>_. None) (stopped p) c w1 = serving c"
  by (cases p) (simp_all add: phase_ok_def)

lemma session_step:
  assumes "fine_step rp (\<lambda>_. None) c s t" "session_ok (serving c) u0 sent0 qs s"
  shows "session_ok (serving c) u0 sent0 qs t \<and> session_weight t < session_weight s"
proof -
  let ?sc = "serving c"
  obtain rest where enc: "se_err (encoder (fs_world s)) = None" and jobs: "list_all (request_job (answered_text ?sc)) (fs_jobs s)"
    and rest: "list_all (answered_text ?sc) rest" and phase: "phase_ok (fs_phase s) (fs_jobs s) rest (fs_world s)"
    and tally: "whole_session h ?sc u0 sent0 qs (unhandled_requests rest (fs_jobs s)) (unsent_responses (fs_jobs s))
      (sent (fs_world s)) (user (fs_world s))"
    using assms(2) by (auto simp: session_ok_def)
  note next_text = reads_next [OF _ rest, of "fs_jobs s" "fs_world s" ?sc]
  from assms(1) show ?thesis
  proof (cases rule: fine_step.cases)
    case (fine_exit e w')
    then obtain d where "rest = []" "w' = put_decoder d (fs_world s)" "is_err (Some e) EOF"
      using next_text phase by (cases rest) fastforce+
    with fine_exit enc jobs tally show ?thesis
      by (auto simp: session_ok_def phase_ok_def state_laws session_weight_def intro!: exI [of _ "[]"])
  next
    case (fine_skip w')
    with next_text phase show ?thesis by (cases rest) fastforce+
  next
    case (fine_sync buf src w1 w')
    with waits show ?thesis by simp
  next
    case (fine_spawn buf src w')
    then obtain vs d where v: "rest = buf # vs" "src = None" "w' = put_decoder d (fs_world s)"
      "phase_ok Looping (fs_jobs s @ [Fresh buf None]) vs w'"
      "length (sd_pending d) < length (sd_pending (decoder (fs_world s)))"
      using next_text [where jobs' = "fs_jobs s @ [Fresh buf None]"] phase by (cases rest) fastforce+
    with fine_spawn enc jobs tally rest show ?thesis
      by (auto simp: session_ok_def state_laws session_weight_def unhandled_requests_def unsent_responses_def
          intro!: exI [of _ vs])
  next
    case (fine_go xs g ys g' w')
    then have "go_step rp ?sc (g, fs_world s) (g', w')"
      using go_ctx [OF phase, of c "fs_world s"] by simp
    from go_keeps [OF this _ enc, of u0 sent0 qs "unhandled_requests rest (xs @ ys)" "unsent_responses (xs @ ys)"]
    have "request_job (answered_text ?sc) g'" "job_weight g' < job_weight g" "encoder w' = encoder (fs_world s)"
      "decoder w' = decoder (fs_world s)" "whole_session h ?sc u0 sent0 qs (unhandled_requests rest (xs @ g' # ys))
        (unsent_responses (xs @ g' # ys)) (sent w') (user w')"
      using jobs tally fine_go(2) by simp_all
    moreover have "phase_ok (fs_phase s) (xs @ g' # ys) rest w'"
      using phase fine_go(2) \<open>decoder w' = _\<close> by (cases "fs_phase s") (simp_all add: phase_ok_def)
    ultimately show ?thesis
      using fine_go enc jobs rest unfolding session_ok_def session_weight_def by (auto simp del: job_simps split: phase.split)
  next
    case (fine_gone xs ys)
    then have "phase_ok (fs_phase s) (xs @ ys) rest (fs_world s)"
      using phase by (cases "fs_phase s") (simp_all add: phase_ok_def)
    with fine_gone enc jobs tally rest show ?thesis
      by (auto simp: session_ok_def session_weight_def split: phase.split)
  next
    case (fine_wait e)
    with enc jobs tally rest phase show ?thesis
      by (auto simp: session_ok_def session_weight_def phase_ok_def)
  next
    case (fine_stop e)
    with waits show ?thesis by simp
  next
    case (fine_drained e)
    with phase show ?thesis by (simp add: phase_ok_def)
  next
    case (fine_returns e r w')
    then have "is_err r EOF"
      using phase finish_error [of rp "\<lambda>_. None" c e "fs_world s" EOF] by (simp add: phase_ok_def)
    with fine_returns enc tally phase finish_keeps [of "\<lambda>_. None" c e "fs_world s"] show ?thesis
      by (auto simp: session_ok_def session_weight_def phase_ok_def)
  qed
qed

lemma session_enabled:
  assumes "session_ok (serving c) u0 sent0 qs s" "session_weight s \<noteq> 0"
  shows "\<exists>t. fine_step rp (\<lambda>_. None) c s t"
proof (cases "fs_jobs s")
  case (Cons g ys)
  then have "request_job (answered_text (serving c)) g"
    using assms(1) by (auto simp: session_ok_def)
  then have "g = Over \<or> (\<exists>t. go_step rp (internal_ctx (\<lambda>_. None) (stopped (fs_phase s)) c (fs_world s)) (g, fs_world s) t)"
    by (cases "(answered_text (serving c), g)" rule: request_job.cases) (simp_all del: split_paired_Ex)
  with Cons show ?thesis
    using fine_step.fine_gone [of s "[]" ys] fine_step.fine_go [of s "[]" g ys rp "\<lambda>_. None" c] by fastforce
next
  case Nil
  obtain rest where "phase_ok (fs_phase s) [] rest (fs_world s)"
    using assms(1) Nil by (auto simp: session_ok_def)
  then show ?thesis
  proof (cases "fs_phase s")
    case Looping
    then show ?thesis
      using fine_step.fine_exit [of s rp "\<lambda>_. None" c] fine_step.fine_skip [of s rp "\<lambda>_. None" c]
        fine_step.fine_spawn [of s rp "\<lambda>_. None" c] waits
      by (cases "read_message rp (internal_ctx (\<lambda>_. None) False c (fs_world s)) (fs_world s)") blast+
  next
    case (Exiting e)
    with Nil waits show ?thesis using fine_step.fine_wait [of s e rp] by blast
  next
    case (Waited e)
    then show ?thesis by (metis fine_step.fine_returns surj_pair)
  next
    case (Returned r)
    with assms(2) Nil show ?thesis by (simp add: session_weight_def)
  qed (simp add: phase_ok_def)
qed

lemma session_start:
  assumes "healthy (decoder w)" "se_err (encoder w) = None" "sd_pending (decoder w) = concat (map line_of vs)"
    and "list_all (answered_text (serving c)) vs"
  shows "session_ok (serving c) (user w) (sent w) (image_mset request_of (mset vs)) (fine_start w)"
proof -
  have "phase_ok Looping [] vs w"
    using assms(1,3) by (auto simp: phase_ok_def intro!: exI [of _ "[]"])
  with assms(2,4) whole_session_start [of h "serving c" "user w" "sent w" "image_mset request_of (mset vs)"] show ?thesis
    by (auto simp: session_ok_def fine_start_def unhandled_requests_def unsent_responses_def intro!: exI [of _ vs])
qed

lemma session_over:
  assumes "session_ok sc u0 sent0 qs s" "fs_phase s = Returned e"
  shows "is_err e EOF \<and> whole_session h sc u0 sent0 qs {#} {#} (sent (fs_world s)) (user (fs_world s))"
  using assms by (auto simp: session_ok_def phase_ok_def unhandled_requests_def unsent_responses_def)

end

sublocale waiting_side \<subseteq> session_goroutines: draining_within "fine_step rp (\<lambda>_. None) c" session_weight
    "session_ok (serving c) u0 sent0 qs"
  for c u0 sent0 qs
  by unfold_locales (use session_step session_enabled in blast)+

context waiting_side
begin

lemma session_run:
  assumes "healthy (decoder w)" "se_err (encoder w) = None" "sd_pending (decoder w) = concat (map line_of vs)"
    and "list_all (answered_text (serving c)) vs" "(fine_step rp (\<lambda>_. None) c)\<^sup>*\<^sup>* (fine_start w) s"
  shows "session_ok (serving c) (user w) (sent w) (image_mset request_of (mset vs)) s"
  using assms(5)
proof (induction rule: rtranclp_induct)
  case base
  from session_start [OF assms(1-4)] show ?case .
next
  case (step s t)
  then show ?case using session_step by blast
qed

lemma session_returns:
  assumes "session_ok (serving c) u0 sent0 qs s"
  shows "\<exists>t e. (fine_step rp (\<lambda>_. None) c)\<^sup>*\<^sup>* s t \<and> fs_phase t = Returned e"
    "(fine_step rp (\<lambda>_. None) c ^^ n) s t \<Longrightarrow> n \<le> session_weight s"
proof -
  obtain v where v: "(fine_step rp (\<lambda>_. None) c)\<^sup>*\<^sup>* s v" "session_weight v = 0" "session_ok (serving c) u0 sent0 qs v"
    using session_goroutines.drains_within [OF assms] by blast
  then have "\<exists>e. fs_phase v = Returned e"
    by (cases "fs_phase v") (auto simp: session_weight_def session_ok_def phase_ok_def)
  with v(1) show "\<exists>t e. (fine_step rp (\<lambda>_. None) c)\<^sup>*\<^sup>* s t \<and> fs_phase t = Returned e" by blast
  show "n \<le> session_weight s" if "(fine_step rp (\<lambda>_. None) c ^^ n) s t"
    using session_goroutines.run_bounded_within [OF assms that] by simp
qed

end

subsection \<open>The server of a stream connection\<close>

text \<open>\<^verbatim>\<open>NewStreamServerFromIO\<close> with \<^verbatim>\<open>WaitOnClose\<close> set on the server it returns.\<close>

definition patient_server :: "'u slog \<Rightarrow> 'u Handler \<Rightarrow> ('u stream_world) RPCServer" where
  "patient_server slog h = (NewStreamServerFromIO slog h)\<lparr>WaitOnClose := True\<rparr>"

lemma patient_simps [simp]:
  "rp_decoder (patient_server slog h) = rp_decoder (NewStreamServerFromIO slog h)"
  "rp_encoder (patient_server slog h) = rp_encoder (NewStreamServerFromIO slog h)"
  "rp_Handler (patient_server slog h) = rp_Handler (NewStreamServerFromIO slog h)"
  "rp_Callbacks (patient_server slog h) = rp_Callbacks (NewStreamServerFromIO slog h)"
  "WaitOnClose (patient_server slog h)" "\<not> NoRoutines (patient_server slog h)"
  by (simp_all add: patient_server_def NewStreamServerFromIO_def NewStreamServer_def newRPCServer_def)

lemma patient_finish:
  "finish (patient_server slog h) cerr c e w = finish (NewStreamServerFromIO slog h) cerr c e w"
  by (simp add: finish_def RPCServer_Close_def)

lemma stream_finish:
  "sw_user (snd (finish (NewStreamServerFromIO slog h) cerr c e w)) = sw_user w"
  "io_sent (sw_conn (snd (finish (NewStreamServerFromIO slog h) cerr c e w))) = io_sent (sw_conn w)"
  "io_enc (sw_conn (snd (finish (NewStreamServerFromIO slog h) cerr c e w))) = io_enc (sw_conn w)"
  by (auto simp: finish_def RPCServer_Close_def NewStreamServerFromIO_def NewStreamServer_def newRPCServer_def runOnExit_def
      decoderShim_def encoderShim_def io_decoder_def io_encoder_def close_if_def Decoder_Close_def Encoder_Close_def
      conn_close_def Let_def split: prod.split)

interpretation patient_side: waiting_side "patient_server slog h" h
    "\<lambda>w. io_dec (sw_conn w)" "\<lambda>d w. w\<lparr>sw_conn := (sw_conn w)\<lparr>io_dec := d\<rparr>\<rparr>" "\<lambda>w. io_enc (sw_conn w)"
    "\<lambda>w. io_sent (sw_conn w)" "\<lambda>b w. w\<lparr>sw_conn := (sw_conn w)\<lparr>io_sent := b\<rparr>\<rparr>" sw_user "\<lambda>u w. w\<lparr>sw_user := u\<rparr>"
  for slog :: "'u slog" and h :: "'u Handler"
  by unfold_locales
    (simp_all only: patient_simps patient_finish stream_finish conn_side.reads conn_side.writes conn_side.handles
      conn_side.put_decoder conn_side.put_sent conn_side.put_user simp_thms)

subsection \<open>The requests of a session\<close>

lemma mapped_order: "mset ys = image_mset f (mset xs) \<Longrightarrow> \<exists>zs. mset zs = mset xs \<and> ys = map f zs"
proof (induction ys arbitrary: xs)
  case (Cons y ys)
  then have "y \<in> set (map f xs)"
    by (metis list.set_intros(1) mset_map set_mset_mset)
  then obtain x where "x \<in> set xs" "y = f x" by auto
  then obtain as bs where x: "xs = as @ x # bs" "y = f x" by (meson split_list)
  then have "mset ys = image_mset f (mset (as @ bs))"
    using Cons.prems by simp
  from Cons.IH [OF this] obtain zs where "mset zs = mset (as @ bs)" "ys = map f zs" by blast
  with x show ?case by (intro exI [of _ "x # zs"]) simp
qed simp

lemma replies_sendable:
  assumes "outcomes h c (map received_request rs) u = (outs, u')" "\<forall>r \<in> set rs. handler_answers h c r"
  shows "\<forall>r \<in> set (replies (map received_request rs) outs). sendable_response r"
  using assms
proof (induction rs arbitrary: u outs)
  case (Cons r rs)
  obtain out u1 where out: "Handle h c (received_request r) u = (out, u1)" by fastforce
  obtain outs' where outs': "outcomes h c (map received_request rs) u1 = (outs', u')" "outs = out # outs'"
    using Cons.prems(1) out by (cases "outcomes h c (map received_request rs) u1") auto
  have "handler_answers h c r" using Cons.prems(2) by simp
  then have "\<not> Request_IsNotification r \<longrightarrow> sendable_response (reply_of (received_request r) out)"
    unfolding handler_answers_def using out by (auto dest: spec [of _ u])
  with Cons.IH [OF outs'(1)] Cons.prems(2) outs'(2) show ?case
    by (simp add: replies_def received_notification)
qed (simp add: replies_def)

lemma answered_texts:
  assumes "\<forall>r \<in> set rs. sendable_request r \<and> handler_answers h (serving c) r"
  shows "\<exists>vs. mapM marshal_request rs = Inr vs \<and> list_all (waiting_side.answered_text (patient_server slog h) h (serving c)) vs
    \<and> map (waiting_side.request_of (patient_server slog h)) vs = map received_request rs"
  using assms
proof (induction rs)
  case (Cons r rs)
  obtain b where b: "marshal_request r = Inr b" "framed b" "HintType b = TypeObject" "unmarshal_request b = Inr (received_request r)"
    using request_wire [of r] Cons.prems by auto
  obtain vs where vs: "mapM marshal_request rs = Inr vs" "list_all (waiting_side.answered_text (patient_server slog h) h (serving c)) vs"
    "map (waiting_side.request_of (patient_server slog h)) vs = map received_request rs"
    using Cons by auto
  have "\<exists>b. marshal_response (reply_of (received_request r) out) = Inr b"
    if "Handle h (serving c) (received_request r) u = (out, u')" "\<not> Request_IsNotification r" for u u' out
    using Cons.prems that response_wire [of "reply_of (received_request r) out"]
    by (fastforce simp: handler_answers_def dest: spec [of _ u])
  moreover have "plain_outcome out" if "Handle h (serving c) (received_request r) u = (out, u')" for u u' out
    using Cons.prems that by (fastforce simp: handler_answers_def dest: spec [of _ u])
  ultimately have "waiting_side.answered_text (patient_server slog h) h (serving c) b"
    using b by (auto simp: patient_side.answered_text_def received_notification split: prod.split)
  moreover have "waiting_side.request_of (patient_server slog h) b = received_request r"
    using b(4) by (simp add: patient_side.request_of_def)
  ultimately show ?case
    using b(1) vs by (intro exI [of _ "b # vs"]) simp
qed simp

end
