(* ===== verification/ConcurrencyProps.thy ===== *)
theory ConcurrencyProps
  imports SessionProps ClientProps SharedClient SharedEncoder ConcurrentServer
begin

text \<open>
  The properties of what runs concurrently on one connection: the goroutines of a server, the callers of a
  transport client, the callers of an encoder.
\<close>

section \<open>The goroutines of a server\<close>

text \<open>A server of goroutines that has been sent some requests, in any state it can reach.\<close>

lemma sent_session_ok:
  assumes "\<forall>r \<in> set rs. sendable_request r \<and> handler_answers h (serving c) r"
    and "se_err i = None" "env_clear_err env = None" "healthy (io_dec k)" "se_err (io_enc k) = None"
    and "sd_pending (io_dec k) = snd (encode_seq (map (\<lambda>r. (env, OutRequest r)) rs) marshal_outgoing i [])"
    and "(fine_step (patient_server slog h) (\<lambda>_. None) c)\<^sup>*\<^sup>* (fine_start \<lparr>sw_user = u, sw_conn = k\<rparr>) s"
  shows "patient_side.session_ok slog h (serving c) u (io_sent k) (mset (map received_request rs)) s"
proof -
  obtain vs where vs: "mapM marshal_request rs = Inr vs"
    "list_all (waiting_side.answered_text (patient_server slog h) h (serving c)) vs"
    "map (waiting_side.request_of (patient_server slog h)) vs = map received_request rs"
    using answered_texts [OF assms(1)] by blast
  have "sd_pending (io_dec k) = concat (map line_of vs)"
    using encoded_requests [OF vs(1) assms(2,3), of "[]"] assms(6) by simp
  with patient_side.session_run [OF _ _ _ vs(2) assms(7)] assms(4,5) vs(3) show ?thesis
    by (simp flip: mset_map)
qed

text \<open>C5: A client writes any number of requests and notifications to the connection of a stream server
  that handles every message in a goroutine of its own and waits for them on close. However the steps of the
  goroutines and of the reading loop interleave, once \<^verbatim>\<open>Run\<close> has returned every request was handled exactly
  once, in some order, and what was written decodes, text by text, as exactly the responses of those requests, in
  some order: no response is lost, doubled or mixed up with another on the connection.\<close>

theorem concurrent_session:
  assumes "\<forall>r \<in> set rs. sendable_request r \<and> handler_answers h (serving c) r"
    and "se_err i = None" "env_clear_err env = None"
    and "healthy (io_dec k)" "se_err (io_enc k) = None" "io_sent k = []"
    and "sd_pending (io_dec k) = snd (encode_seq (map (\<lambda>r. (env, OutRequest r)) rs) marshal_outgoing i [])"
    and "(fine_step (patient_server slog h) (\<lambda>_. None) c)\<^sup>*\<^sup>* (fine_start \<lparr>sw_user = u, sw_conn = k\<rparr>) s"
    and "fs_phase s = Returned e"
  shows "\<exists>order outs reps bs. mset order = mset rs
    \<and> outcomes h (serving c) (map received_request order) u = (outs, sw_user (fs_world s))
    \<and> mset reps = mset (replies (map received_request order) outs) \<and> is_err e EOF
    \<and> mapM unmarshal_response bs = Inr (map received_response reps)
    \<and> (\<forall>d. healthy d \<longrightarrow> sd_pending d = io_sent (sw_conn (fs_world s)) \<longrightarrow>
        fst (decode_seq (replicate (length bs) env) d) = map Inr bs)"
proof -
  have over: "is_err e EOF" "whole_session h (serving c) u [] (mset (map received_request rs)) {#} {#}
      (io_sent (sw_conn (fs_world s))) (sw_user (fs_world s))"
    using patient_side.session_over [OF sent_session_ok [OF assms(1-5,7,8)] assms(9)] assms(6) by simp_all
  then obtain handled outs reps bs where s: "mset (map received_request rs) = mset handled"
    "outcomes h (serving c) handled u = (outs, sw_user (fs_world s))" "mapM marshal_response reps = Inr bs"
    "io_sent (sw_conn (fs_world s)) = concat (map line_of bs)" "mset (replies handled outs) = mset reps"
    by (auto simp: whole_session_def)
  obtain order where order: "mset order = mset rs" "handled = map received_request order"
    using mapped_order [of handled received_request rs] s(1) by auto
  then have "set order = set rs" by (metis set_mset_mset)
  then have "\<forall>r \<in> set (replies handled outs). sendable_response r"
    using replies_sendable [OF s(2) [unfolded order(2)]] assms(1) order(2) by simp
  then have "\<forall>r \<in> set reps. sendable_response r"
    using s(5) by (metis set_mset_mset)
  from responses_lines [OF this] s(3) have bs: "\<forall>b \<in> set bs. framed b" "mapM unmarshal_response bs = Inr (map received_response reps)"
    by auto
  have "fst (decode_seq (replicate (length bs) env) d) = map Inr bs"
    if "healthy d" "sd_pending d = io_sent (sw_conn (fs_world s))" for d
    using decode_seq_framed [OF that(1), of "replicate (length bs) env" bs "[]" "[]"] that(2) s(4) bs(1) assms(3)
    by (simp add: line_of_def [abs_def])
  with over(1) order s bs(2) show ?thesis by metis
qed

text \<open>C17: From every state such a session, on a server that waits on close, can reach, \<^verbatim>\<open>Run\<close> can return, and no run of it has more steps
  than four for each byte of the input and three: the server cannot hang on its goroutines or on its input.\<close>

theorem concurrent_session_returns:
  assumes "\<forall>r \<in> set rs. sendable_request r \<and> handler_answers h (serving c) r"
    and "se_err i = None" "env_clear_err env = None"
    and "healthy (io_dec k)" "se_err (io_enc k) = None"
    and "sd_pending (io_dec k) = snd (encode_seq (map (\<lambda>r. (env, OutRequest r)) rs) marshal_outgoing i [])"
    and "(fine_step (patient_server slog h) (\<lambda>_. None) c ^^ n) (fine_start \<lparr>sw_user = u, sw_conn = k\<rparr>) s"
  shows "(\<exists>t e. (fine_step (patient_server slog h) (\<lambda>_. None) c)\<^sup>*\<^sup>* s t \<and> fs_phase t = Returned e)
    \<and> n \<le> 4 * length (sd_pending (io_dec k)) + 3"
proof -
  note ok = sent_session_ok [OF assms(1-6)]
  from patient_side.session_returns(2) [OF ok [OF rtranclp.rtrancl_refl] assms(7)]
  have "n \<le> 4 * length (sd_pending (io_dec k)) + 3"
    by (simp add: patient_side.session_weight_def fine_start_def)
  with patient_side.session_returns(1) [OF ok [OF relpowp_imp_rtranclp [OF assms(7)]]] show ?thesis
    by blast
qed

text \<open>Three messages for a handler that counts them.\<close>

definition tally :: "nat handle_fn" where
  "tally c req n = (fst (adder c req n), Suc n)"

lemma tally_counts: "outcomes (NewFuncHandler tally) c qs n = (outs, m) \<Longrightarrow> m = n + length qs"
  by (induction qs arbitrary: n outs) (fastforce simp: NewFuncHandler_def tally_def Let_def split: prod.splits)+

lemma mixed_answers:
  "list_all (\<lambda>r. plain_outcome (fst (adder background (received_request r) (0 :: nat))) \<and> (\<not> Request_IsNotification r \<longrightarrow>
     sendable_response (reply_of (received_request r) (fst (adder background (received_request r) (0 :: nat)))))) mixed_batch"
  by code_simp

lemma mixed_session: "\<forall>r \<in> set mixed_batch. sendable_request r \<and> handler_answers (NewFuncHandler tally) (serving background) r"
proof -
  have "fst (adder (serving background) q n) = fst (adder background q (0 :: nat))" for q and n :: nat
    by (simp add: adder_def)
  then show ?thesis
    using mixed_answers mixed_ready(1)
    by (simp add: list_all_iff handler_answers_def NewFuncHandler_def tally_def)
qed

definition mixed_conn :: stream_conn where
  "mixed_conn = fed_conn (snd (encode_seq (map (\<lambda>r. (ctx_env background, OutRequest r)) mixed_batch)
     marshal_outgoing (NewStreamEncoder PlainWriter) []))"

lemma mixed_conn_simps:
  "healthy (io_dec mixed_conn)" "se_err (io_enc mixed_conn) = None" "io_sent mixed_conn = []"
  "sd_pending (io_dec mixed_conn) = snd (encode_seq (map (\<lambda>r. (ctx_env background, OutRequest r)) mixed_batch)
     marshal_outgoing (NewStreamEncoder PlainWriter) [])"
  "se_err (NewStreamEncoder PlainWriter) = None" "env_clear_err (ctx_env background) = None"
  by (simp_all add: mixed_conn_def NewStreamEncoder_def)

lemma mixed_returns:
  "\<exists>s e. (fine_step (patient_server (\<lambda>_ _ _ w. w) (NewFuncHandler tally)) (\<lambda>_. None) background)\<^sup>*\<^sup>*
      (fine_start \<lparr>sw_user = 0, sw_conn = mixed_conn\<rparr>) s \<and> fs_phase s = Returned e"
  using patient_side.session_returns(1) [OF sent_session_ok [OF mixed_session mixed_conn_simps(5,6,1,2,4) rtranclp.rtrancl_refl]]
  by blast

theorem concurrent_session_witness:
  "\<exists>s e reps bs. (fine_step (patient_server (\<lambda>_ _ _ w. w) (NewFuncHandler tally)) (\<lambda>_. None) background)\<^sup>*\<^sup>*
      (fine_start \<lparr>sw_user = 0, sw_conn = mixed_conn\<rparr>) s \<and> fs_phase s = Returned e \<and> is_err e EOF
    \<and> sw_user (fs_world s) = 3 \<and> length bs = 2 \<and> mapM unmarshal_response bs = Inr (map received_response reps)"
proof -
  obtain s e where s: "(fine_step (patient_server (\<lambda>_ _ _ w. w) (NewFuncHandler tally)) (\<lambda>_. None) background)\<^sup>*\<^sup>*
      (fine_start \<lparr>sw_user = 0, sw_conn = mixed_conn\<rparr>) s" "fs_phase s = Returned e"
    using mixed_returns by blast
  from concurrent_session [OF mixed_session mixed_conn_simps(5,6,1-4) s] obtain order outs reps bs where
    order: "mset order = mset mixed_batch"
      "outcomes (NewFuncHandler tally) (serving background) (map received_request order) 0 = (outs, sw_user (fs_world s))"
      "mset reps = mset (replies (map received_request order) outs)" "is_err e EOF"
      "mapM unmarshal_response bs = Inr (map received_response reps)"
    by blast
  have "length order = 3"
    using mset_eq_length [OF order(1)] by (simp add: mixed_batch_def)
  then have "sw_user (fs_world s) = 3"
    using tally_counts [OF order(2)] by simp
  moreover have "length reps = size (filter_mset (\<lambda>r. \<not> Request_IsNotification r) (mset order))"
    using arg_cong [OF replies_ids [OF outcomes_length [OF order(2)]], of length] mset_eq_length [OF order(3)]
    by (simp add: filter_map o_def received_notification flip: mset_filter)
  then have "length reps = 2"
    by (simp add: order(1) mixed_batch_def add_request_def NewRequestWithParams_def NewNotification_def NewRequest_def
        Request_IsNotification_def ID_IsZero_def zero_ID_def zero_Request_def)
  ultimately show ?thesis
    using s order(4,5) mapM_length [OF order(5)] by auto
qed

theorem concurrent_session_returns_witness:
  "\<exists>t e. (fine_step (patient_server (\<lambda>_ _ _ w. w) (NewFuncHandler tally)) (\<lambda>_. None) background)\<^sup>*\<^sup>*
      (fine_start \<lparr>sw_user = 0, sw_conn = mixed_conn\<rparr>) t \<and> fs_phase t = Returned e"
proof -
  have "(fine_step (patient_server (\<lambda>_ _ _ w. w) (NewFuncHandler tally)) (\<lambda>_. None) background ^^ 0)
      (fine_start \<lparr>sw_user = 0, sw_conn = mixed_conn\<rparr>) (fine_start \<lparr>sw_user = 0, sw_conn = mixed_conn\<rparr>)"
    by simp
  from concurrent_session_returns [OF mixed_session mixed_conn_simps(5,6,1,2,4) this] show ?thesis by blast
qed

section \<open>The callers of a transport client\<close>

text \<open>C6: Any number of goroutines call methods over one HTTP client at the same time. When all of them have
  returned, each holds the response to its own request, as if the calls had been made one after another in some
  order: the handler saw the requests in that order, and a caller never gets another caller's answer.\<close>

theorem concurrent_calls_answered:
  assumes "(mutex_step (client_move (bridge_transport newReq (http_network slog h stop cerr))) client_final)\<^sup>*\<^sup>*
      (False, map (\<lambda>x. Waiting (calling x)) reqs, (br, u)) (b, ts, (br', u'))"
    and "list_all returned ts"
    and "\<forall>x \<in> set reqs. callable x \<and> handler_answers (hh_handler h) (http_ctx\<lparr>ctx_rpc_server := True\<rparr>) (snd x)"
    and "plain_request h cerr \<lparr>hr_content_type = ''application/json'', hr_body = []\<rparr>"
    and "\<not> hb_closed br" "newReq (hb_url br) = None"
  shows "map fst (released ts) = map calling reqs \<and> (\<exists>xs outs.
      mset (map (\<lambda>(x, raw). (calling x, Answered (Inr raw))) xs) = mset (released ts)
    \<and> outcomes (hh_handler h) (http_ctx\<lparr>ctx_rpc_server := True\<rparr>) (map (\<lambda>(x, raw). received_request (snd x)) xs) u = (outs, u')
    \<and> list_all2 (\<lambda>(x, raw) out. \<exists>resp. unmarshal_response raw = Inr resp
        \<and> resp = received_response (reply_of (received_request (snd x)) out) \<and> ID_Equal (req_id (snd x)) (resp_id resp)) xs outs)"
proof -
  let ?t = "bridge_transport newReq (http_network slog h stop cerr)"
  have "list_all client_starts (map calling reqs)"
    by (simp add: list_all_iff calling_def)
  with shared_client.serialised [of ?t "map calling reqs" "(br, u)" b ts "(br', u')"] assms(1,2)
  obtain ps where ps: "map fst (released ts) = map calling reqs" "mset ps = mset (released ts)"
    "performs (client_op ?t) ps (br, u) (br', u')"
    by (auto simp: o_def)
  have known: "\<exists>x. k = calling x \<and> x \<in> set reqs" if "(k, l) \<in> set ps" for k l
  proof -
    have "k \<in> set (map fst (released ts))"
      using that ps(2) by (metis fst_conv image_eqI list.set_map set_mset_mset)
    then show ?thesis using ps(1) by auto
  qed
  with assms(3) have "\<forall>(k, l) \<in> set ps. \<exists>x. k = calling x \<and> callable x
      \<and> handler_answers (hh_handler h) (http_ctx\<lparr>ctx_rpc_server := True\<rparr>) (snd x)"
    by blast
  from calls_in_order [OF ps(3) this assms(4-6)] obtain xs outs where
    xs: "ps = map (\<lambda>(x, raw). (calling x, Answered (Inr raw))) xs"
      "outcomes (hh_handler h) (http_ctx\<lparr>ctx_rpc_server := True\<rparr>) (map (\<lambda>(x, raw). received_request (snd x)) xs) u = (outs, u')"
      "list_all2 (\<lambda>(x, raw) out. unmarshal_response raw =
        Inr (received_response (reply_of (received_request (snd x)) out))) xs outs"
    by blast
  have "callable x" if "(x, raw) \<in> set xs" for x raw
  proof -
    have "(calling x, Answered (Inr raw)) \<in> set ps"
      using that xs(1) by force
    from known [OF this] assms(3) show ?thesis
      by (auto simp: calling_def callable_def)
  qed
  then have ids: "ID_Equal (req_id (snd x)) (resp_id (received_response (reply_of (received_request (snd x)) out)))"
    if "(x, raw) \<in> set xs" for x raw out
    using that by (intro own_id) (auto simp: callable_def)
  have "list_all2 (\<lambda>(x, raw) out. \<exists>resp. unmarshal_response raw = Inr resp
        \<and> resp = received_response (reply_of (received_request (snd x)) out) \<and> ID_Equal (req_id (snd x)) (resp_id resp)) xs outs"
  proof (rule list.rel_mono_strong [OF xs(3)])
    fix p out
    assume "p \<in> set xs" "(\<lambda>(x, raw) out. unmarshal_response raw = Inr (received_response (reply_of (received_request (snd x)) out))) p out"
    then show "(\<lambda>(x, raw) out. \<exists>resp. unmarshal_response raw = Inr resp
        \<and> resp = received_response (reply_of (received_request (snd x)) out) \<and> ID_Equal (req_id (snd x)) (resp_id resp)) p out"
      using ids by - (cases p, simp)
  qed
  moreover have "mset (map (\<lambda>(x, raw). (calling x, Answered (Inr raw))) xs) = mset (released ts)"
    using ps(2) by (simp only: xs(1))
  ultimately show ?thesis
    using ps(1) xs(2) by (intro conjI exI [of _ xs] exI [of _ outs])
qed

lemma all2_left: "list_all2 P xs ys \<Longrightarrow> x \<in> set xs \<Longrightarrow> \<exists>y. P x y"
  by (induction rule: list_all2_induct) auto

text \<open>Two goroutines that call the same method.\<close>

theorem concurrent_calls_answered_witness:
  "\<exists>b ts br'. (mutex_step (client_move (bridge_transport (\<lambda>_. None) (http_network (\<lambda>_ _ _ w. w)
      (NewHTTPHandler (NewFuncHandler tally)) (\<lambda>_ w. w) (\<lambda>_. None)))) client_final)\<^sup>*\<^sup>*
    (False, map (\<lambda>x. Waiting (calling x)) [(background, add_request), (background, add_request)], (NewHTTPBridge ''http://h/'', 0))
    (b, ts, (br', 2)) \<and> length (released ts) = 2
    \<and> (\<forall>p \<in> set (released ts). \<exists>raw resp. snd p = Answered (Inr raw) \<and> unmarshal_response raw = Inr resp
        \<and> ID_Equal (NewID (IdInt 7)) (resp_id resp))"
proof -
  let ?t = "bridge_transport (\<lambda>_. None) (http_network (\<lambda>_ _ _ w. w)
      (NewHTTPHandler (NewFuncHandler tally)) (\<lambda>_ w. w) (\<lambda>_. None))"
  let ?reqs = "[(background, add_request), (background, add_request)]"
  obtain b ts w' where run: "(mutex_step (client_move ?t) client_final)\<^sup>*\<^sup>*
      (False, map Waiting (map calling ?reqs), (NewHTTPBridge ''http://h/'', 0)) (b, ts, w')" "list_all returned ts"
    using shared_client.all_return [of ?t "map calling ?reqs" "(NewHTTPBridge ''http://h/'', 0)"] by blast
  obtain br' u' where w': "w' = (br', u')" by fastforce
  have "\<not> Request_IsNotification add_request" "req_id add_request = NewID (IdInt 7)"
    by (simp_all add: add_request_def NewRequestWithParams_def Request_IsNotification_def)
  moreover have "req_method (received_request add_request) = ''add''"
    by (simp add: received_request_def add_request_def NewRequestWithParams_def)
  ultimately have ready: "\<forall>x \<in> set ?reqs. callable x
      \<and> handler_answers (hh_handler (NewHTTPHandler (NewFuncHandler tally))) (http_ctx\<lparr>ctx_rpc_server := True\<rparr>) (snd x)"
    using add_sendable adder_answer
    by (simp add: callable_def background_def handler_answers_def NewHTTPHandler_def NewFuncHandler_def tally_def adder_def)
  from concurrent_calls_answered [OF _ run(2) ready plain_post_nil] run(1) w' obtain xs outs where
    xs: "map fst (released ts) = map calling ?reqs"
      "mset (map (\<lambda>(x, raw). (calling x, Answered (Inr raw))) xs) = mset (released ts)"
      "outcomes (NewFuncHandler tally) (http_ctx\<lparr>ctx_rpc_server := True\<rparr>) (map (\<lambda>(x, raw). received_request (snd x)) xs) 0 = (outs, u')"
      "list_all2 (\<lambda>(x, raw) out. \<exists>resp. unmarshal_response raw = Inr resp
        \<and> resp = received_response (reply_of (received_request (snd x)) out) \<and> ID_Equal (req_id (snd x)) (resp_id resp)) xs outs"
    by (fastforce simp: NewHTTPBridge_def NewHTTPHandler_def)
  have len: "length (released ts) = 2"
    using arg_cong [OF xs(1), of length] by simp
  then have "u' = 2"
    using tally_counts [OF xs(3)] mset_eq_length [OF xs(2)] by simp
  moreover have "\<exists>raw resp. snd p = Answered (Inr raw) \<and> unmarshal_response raw = Inr resp \<and> ID_Equal (NewID (IdInt 7)) (resp_id resp)"
    if p: "p \<in> set (released ts)" for p
  proof -
    have "p \<in> (\<lambda>(x, raw). (calling x, Answered (Inr raw))) ` set xs"
      using xs(2) p by (metis list.set_map set_mset_mset)
    then obtain y where "y \<in> set xs" "p = (\<lambda>(x, raw). (calling x, Answered (Inr raw))) y" by blast
    then obtain x raw where x: "(x, raw) \<in> set xs" "p = (calling x, Answered (Inr raw))" by - (cases y, simp)
    have "fst p \<in> set (map calling ?reqs)"
      using p xs(1) by (metis list.set_map image_eqI)
    with x(2) have "req_id (snd x) = NewID (IdInt 7)"
      by (cases x) (auto simp: calling_def add_request_def NewRequestWithParams_def)
    moreover obtain resp where "unmarshal_response raw = Inr resp" "ID_Equal (req_id (snd x)) (resp_id resp)"
      using all2_left [OF xs(4) x(1)] by auto
    ultimately show ?thesis using x(2) by auto
  qed
  ultimately show ?thesis
    using run(1) w' len by (intro exI [of _ b] exI [of _ ts] exI [of _ br']) (simp add: o_def)
qed

section \<open>The callers of an encoder\<close>

text \<open>C7: Any number of goroutines encode values on one stream encoder of a connection with deadlines, and may close it, while the connection
  takes their bytes piece by piece, contexts end and writes are interrupted or fail. When all of them have returned the
  stream holds one whole line for each call that returned no error, in some order, and after them at most the
  beginning of the line of one call that failed: bytes of two values are never mixed, and nothing follows a torn line.\<close>

theorem concurrent_encodes_whole:
  assumes "(mutex_step (encode_move mar timeout) encode_final)\<^sup>*\<^sup>* (False, map Waiting ks, w) (b, ts, w')"
    and "list_all encode_starts ks" "list_all returned ts"
    and "se_kind (wi_enc w) = DeadlineWriter"
  shows "map fst (released ts) = ks \<and> (\<exists>vs bs tail. mset vs = mset (encoded_values (released ts))
    \<and> mapM mar vs = Inr bs \<and> wi_out w' = wi_out w @ concat (map line_of bs) @ tail \<and> cut_line mar (released ts) tail)"
proof -
  obtain ps where ps: "map fst (released ts) = ks" "mset ps = mset (released ts)"
    "performs (\<lambda>k l w w'. se_kind (wi_enc w) = DeadlineWriter \<longrightarrow> encode_op mar k l w w') ps w w'"
    using shared_encoder.serialised [OF assms(1-3)] by blast
  obtain bs tail where "mapM mar (encoded_values ps) = Inr bs" "wi_out w' = wi_out w @ concat (map line_of bs) @ tail"
    "cut_line mar ps tail"
    using encodes_in_order [OF ps(3) assms(4)] by blast
  moreover have "cut_line mar (released ts) tail"
    using calculation(3) ps(2) unfolding cut_line_def by (metis set_mset_mset)
  ultimately show ?thesis
    using ps(1) encoded_values_mset [OF ps(2)] by blast
qed

definition open_stream :: write_io where
  "open_stream = encode_start (NewStreamEncoder DeadlineWriter) [] 0"

lemma open_stream_simps:
  "se_kind (wi_enc open_stream) = DeadlineWriter" "wi_out open_stream = []" "se_err (wi_enc open_stream) = None"
  "wi_broken open_stream = None"
  by (simp_all add: open_stream_def encode_start_def NewStreamEncoder_def)

theorem concurrent_encodes_whole_witness:
  "\<exists>w' bs. (mutex_step (encode_move Inr (Sentinel OSErrClosed)) encode_final)\<^sup>*\<^sup>*
      (False, map Waiting [EncodeCalled ''{}'', EncodeCalled ''[]''], open_stream)
      (False, map (\<lambda>(k, l). Released k l) [(EncodeCalled ''{}'', EncodeReturned None), (EncodeCalled ''[]'', EncodeReturned None)], w')
    \<and> mset bs = {#''{}'', ''[]''#} \<and> wi_out w' = concat (map line_of bs)"
proof -
  let ?ps = "[(EncodeCalled ''{}'', EncodeReturned None), (EncodeCalled ''[]'', EncodeReturned None)]"
  obtain w1 where w1: "whole (encode_move Inr (Sentinel OSErrClosed)) encode_final (EncodeCalled ''{}'') (EncodeReturned None) open_stream w1"
    "se_err (wi_enc w1) = None" "wi_broken w1 = None"
    using encode_section [of Inr "''{}''" _ open_stream] open_stream_simps by (fastforce simp: same_stream_def)
  obtain w' where "whole (encode_move Inr (Sentinel OSErrClosed)) encode_final (EncodeCalled ''[]'') (EncodeReturned None) w1 w'"
    using encode_section [of Inr "''[]''" _ w1] w1(2,3) by fastforce
  with w1(1) have "performs (whole (encode_move Inr (Sentinel OSErrClosed)) encode_final) ?ps open_stream w'"
    by auto
  from serial_run [OF this, of "[]"] have run: "(mutex_step (encode_move Inr (Sentinel OSErrClosed)) encode_final)\<^sup>*\<^sup>*
      (False, map Waiting [EncodeCalled ''{}'', EncodeCalled ''[]''], open_stream) (False, map (\<lambda>(k, l). Released k l) ?ps, w')"
    by simp
  have "released (map (\<lambda>(k, l). Released k l) ?ps) = ?ps" "list_all returned (map (\<lambda>(k, l). Released k l) ?ps)"
    "list_all encode_starts [EncodeCalled ''{}'', EncodeCalled ''[]'']"
    by simp_all
  from concurrent_encodes_whole [OF run this(3,2) open_stream_simps(1), unfolded this(1) open_stream_simps(2)] obtain vs bs tail where
    "mset vs = mset (encoded_values ?ps)" "mapM (Inr :: bytes \<Rightarrow> go_error + bytes) vs = Inr bs" "wi_out w' = [] @ concat (map line_of bs) @ tail" "cut_line Inr ?ps tail"
    by blast
  moreover have "bs = vs" using calculation(2) by (induction vs arbitrary: bs) (auto simp: rbind_Inr_iff rmap_Inr_iff)
  ultimately show ?thesis
    using run by (intro exI [of _ w'] exI [of _ bs]) (simp add: encoded_values_def cut_line_def)
qed

end
