(* ===== verification/PoolProps.thy ===== *)
theory PoolProps
  imports Net "HOL-Library.Multiset"
begin

text \<open>
  The properties of the client pool (what it borrows it gives back, how often it tries, which
  errors it returns, when it closes idle connections) and of the identifiers a client hands out.
\<close>

section \<open>Borrowing and giving back\<close>



text \<open>A pool whose state is the resources taken and a counter, on which every call fails as a
  connection that was closed does.\<close>

definition counting_puddle :: "(nat multiset \<times> nat) Puddle" where
  "counting_puddle = \<lparr>pu_Acquire = (\<lambda>c (m, k). (Inr \<lparr>res_key = k, res_value =
       NewTransportClient (\<lambda>c v w. (Some (Sentinel EOF), w)) (\<lambda>c w. (Inl (Sentinel EOF), w)) None None\<rparr>,
       (add_mset k m, Suc k))),
     pu_AcquireAllIdle = Pair [], pu_IdleDuration = (\<lambda>r w. 0),
     pu_Release = (\<lambda>r (m, k). (m - {#res_key r#}, k)), pu_ReleaseUnused = (\<lambda>r (m, k). (m - {#res_key r#}, k)),
     pu_Destroy = (\<lambda>r (m, k). (m - {#res_key r#}, k)), pu_Close = id, pu_Reset = id\<rparr>"

definition counting_pool :: "(nat multiset \<times> nat) ClientPool" where
  "counting_pool = \<lparr>cp_pool = counting_puddle, cp_idle = None, cp_retries = 3, cp_closed = False\<rparr>"

lemma counting_simps [simp]:
  "cp_pool counting_pool = counting_puddle" "cp_retries counting_pool = 3"
  "pu_Acquire counting_puddle c u = (Inr \<lparr>res_key = snd u, res_value =
       NewTransportClient (\<lambda>c v w. (Some (Sentinel EOF), w)) (\<lambda>c w. (Inl (Sentinel EOF), w)) None None\<rparr>,
       (add_mset (snd u) (fst u), Suc (snd u)))"
  "pu_Release counting_puddle r u = (fst u - {#res_key r#}, snd u)"
  "pu_Destroy counting_puddle r u = (fst u - {#res_key r#}, snd u)"
  by (simp_all add: counting_pool_def counting_puddle_def split_beta)




section \<open>Retries\<close>


lemma EOF_retryable: "retryable (Sentinel EOF)"
  by (simp add: retryable_def)


text \<open>The error an operation of the pool returns is the context's, the pool's, one the call
  returned and that a retry would not cure, or \<^verbatim>\<open>ErrRetriesExceeded\<close> joined with the last error.\<close>

theorem pool_error_cause:
  assumes "pool_do cp cerr c f w = ((Inl e, evs), w')" "0 < cp_retries cp"
  shows "(\<exists>u. cerr u = Some e) \<or> (\<exists>u. fst (pu_Acquire (cp_pool cp) c u) = Inl e)
    \<or> (\<exists>t d u. fst (f t d u) = Inl e \<and> \<not> retryable e)
    \<or> (\<exists>x. e = Joined [Sentinel ErrRetriesExceeded, x] \<and> retryable x)"
  using attempts_error [of "cp_pool cp" cerr c f "nat (cp_retries cp)" None w e evs w'] assms
  by (auto simp: pool_do_def)

theorem pool_error_cause_witness:
  "\<exists>e evs w'. pool_do counting_pool (\<lambda>_. None) background (\<lambda>t d w. (Inl (Sentinel Canceled) :: go_error + unit, w)) ({#}, 0)
     = ((Inl e, evs), w') \<and> e = Sentinel Canceled"
proof -
  let ?f = "\<lambda>t d w. (Inl (Sentinel Canceled) :: go_error + unit, w)"
  have "\<exists>e evs w'. pool_do counting_pool (\<lambda>_. None) background ?f ({#}, 0) = ((Inl e, evs), w') \<and> errors_is e (Sentinel Canceled)"
    by (simp add: pool_do_def numeral_eq_Suc retryable_def)
  then obtain e evs w' where e: "pool_do counting_pool (\<lambda>_. None) background ?f ({#}, 0) = ((Inl e, evs), w')"
    by blast
  from pool_error_cause [OF this] have "e = Sentinel Canceled \<or> (\<exists>x. e = Joined [Sentinel ErrRetriesExceeded, x])"
    by auto
  moreover have "retryable e = False"
    using e by (auto simp: pool_do_def numeral_eq_Suc retryable_def)
  ultimately show ?thesis
    using e by (auto simp: pool_do_def numeral_eq_Suc retryable_def)
qed

section \<open>Idle connections\<close>

text \<open>When the idle timer fires on a pool whose resources do not age while it runs, exactly the
  resources idle for the timeout are closed, the others are returned unused, and the next firing is due
  within the timeout, no later than the moment the first of the others reaches it.\<close>

theorem idle_timer_exact:
  assumes "\<not> cp_closed cp" "pu_AcquireAllIdle (cp_pool cp) w = (rs, w1)" "0 < timeout"
    and "\<And>r u. pu_IdleDuration (cp_pool cp) r u = idle r"
  shows "\<exists>n. fst (idle_tick cp timeout w) = (cp\<lparr>cp_idle := Some n\<rparr>, map (\<lambda>r. PAcquired (res_key r)) rs
      @ map (\<lambda>r. if timeout \<le> idle r then PDestroyed (res_key r) else PUnused (res_key r)) rs)
    \<and> 0 < n \<and> n \<le> timeout \<and> (\<forall>r \<in> set rs. idle r < timeout \<longrightarrow> n \<le> timeout - idle r)"
proof -
  let ?n = "fold (\<lambda>r m. min m (timeout - idle r)) (filter (\<lambda>r. idle r < timeout) rs) timeout"
  have le: "fold (\<lambda>r m. min m (timeout - idle r)) xs m \<le> m" for xs m
    by (induction xs arbitrary: m) (simp, fastforce intro: order_trans)
  have each: "r \<in> set xs \<Longrightarrow> fold (\<lambda>r m. min m (timeout - idle r)) xs m \<le> timeout - idle r" for xs m r
    by (induction xs arbitrary: m) (auto intro: order_trans [OF le])
  obtain evs w2 where reap: "reap (cp_pool cp) timeout rs timeout w1 = ((?n, evs), w2)"
    "evs = map (\<lambda>r. if idle r < timeout then PUnused (res_key r) else PDestroyed (res_key r)) rs"
    using reap_exact [where idle = idle and P = "cp_pool cp" and timeout = timeout and rs = rs and n = timeout and w = w1] assms(4)
    by (cases "reap (cp_pool cp) timeout rs timeout w1") auto
  have "evs = map (\<lambda>r. if timeout \<le> idle r then PDestroyed (res_key r) else PUnused (res_key r)) rs"
    using reap(2) by (auto simp: not_le)
  moreover have "0 < ?n \<and> ?n \<le> timeout" using reap_wait [OF reap(1)] assms(3) by simp
  ultimately show ?thesis
    using assms(1,2) reap(1) each by (auto simp: idle_tick_def)
qed

definition idle_puddle :: "unit Puddle" where
  "idle_puddle = \<lparr>pu_Acquire = (\<lambda>c w. (Inl (Sentinel EOF), w)),
     pu_AcquireAllIdle = Pair (map (\<lambda>k. \<lparr>res_key = k, res_value =
       NewTransportClient (\<lambda>c v w. (None, w)) (\<lambda>c w. (Inl (Sentinel EOF), w)) None None\<rparr>) [4, 12, 7]),
     pu_IdleDuration = (\<lambda>r w. int (res_key r)), pu_Release = (\<lambda>r w. w), pu_ReleaseUnused = (\<lambda>r w. w),
     pu_Destroy = (\<lambda>r w. w), pu_Close = id, pu_Reset = id\<rparr>"

lemma idle_simps [simp]:
  "pu_AcquireAllIdle idle_puddle = Pair (map (\<lambda>k. \<lparr>res_key = k, res_value =
     NewTransportClient (\<lambda>c v w. (None, w)) (\<lambda>c w. (Inl (Sentinel EOF), w)) None None\<rparr>) [4, 12, 7])"
  "pu_IdleDuration idle_puddle r w = int (res_key r)"
  by (simp_all add: idle_puddle_def)

theorem idle_timer_exact_witness:
  "\<exists>n. fst (idle_tick \<lparr>cp_pool = idle_puddle, cp_idle = None, cp_retries = 2, cp_closed = False\<rparr> 10 ()) =
      (\<lparr>cp_pool = idle_puddle, cp_idle = Some n, cp_retries = 2, cp_closed = False\<rparr>,
       [PAcquired 4, PAcquired 12, PAcquired 7, PUnused 4, PDestroyed 12, PUnused 7]) \<and> n \<le> 3"
proof -
  let ?cp = "\<lparr>cp_pool = idle_puddle, cp_idle = None, cp_retries = 2, cp_closed = False\<rparr>"
  have rs: "pu_AcquireAllIdle (cp_pool ?cp) () = (map (\<lambda>k. \<lparr>res_key = k, res_value =
     NewTransportClient (\<lambda>c v w. (None, w)) (\<lambda>c w. (Inl (Sentinel EOF), w)) None None\<rparr>) [4, 12, 7], ())"
    by simp
  show ?thesis
    using idle_timer_exact [where timeout = 10 and idle = "\<lambda>r. int (res_key r)", OF _ rs] by auto
qed

section \<open>Identifiers\<close>

text \<open>C32: The requests of one batch builder have pairwise distinct identifiers, as long as fewer than
  $2^{32}$ are added, wherever the counter starts: the wrap of the counter repeats none of them.\<close>

theorem builder_ids_distinct:
  assumes "length (good_args tn ms) \<le> 2 ^ 32"
    and "add_all tn c (RequestBatch []) ms = (es, c', RequestBatch b)"
  shows "distinct (map (\<lambda>r. Request_id (the r)) b) \<and> length b = length (good_args tn ms)
    \<and> cl_id c' = cl_id c + of_nat (length b)"
  using built_ids_distinct [OF assms] add_all_requests [OF assms(2)]
  by (simp add: next_ids_length next_ids_eq)

text \<open>A client about to wrap.\<close>

definition refusing_pool :: "unit poolClientInterface" where
  "refusing_pool = \<lparr>if_Call = (\<lambda>c r w. (Inl (Sentinel EOF), w)), if_CallWithTimeout = (\<lambda>c d r w. (Inl (Sentinel EOF), w)),
     if_Notify = (\<lambda>c n w. (None, w)), if_NotifyWithTimeout = (\<lambda>c d n w. (None, w)),
     if_CallBatch = (\<lambda>c b w. (Inl (Sentinel EOF), w)), if_CallBatchWithTimeout = (\<lambda>c d b w. (Inl (Sentinel EOF), w)),
     if_NotifyBatch = (\<lambda>c b w. (None, w)), if_NotifyBatchWithTimeout = (\<lambda>c d b w. (None, w)), if_Close = id\<rparr>"

definition wrapping_client :: "unit Client" where
  "wrapping_client = \<lparr>cl_pool = refusing_pool, cl_id = - 1, cl_defaultTimeout = 0\<rparr>"

definition three_members :: "(bytes \<times> params_arg) list" where
  "three_members = [(''a'', ArgNil), (''b'', ArgValue (GInt 1)), (''c'', ArgNil)]"

lemma three_members_good: "length (good_args (\<lambda>_. []) three_members) = 2"
  by code_simp

theorem builder_ids_distinct_witness:
  "\<exists>es c' b. add_all (\<lambda>_. []) wrapping_client (RequestBatch []) three_members = (es, c', RequestBatch b)
    \<and> distinct (map (\<lambda>r. Request_id (the r)) b) \<and> length b = 2 \<and> cl_id c' = 1"
proof -
  obtain es c' b where b: "add_all (\<lambda>_. []) wrapping_client (RequestBatch []) three_members = (es, c', RequestBatch b)"
    using add_all_requests by (metis surj_pair)
  from builder_ids_distinct [OF _ this] b show ?thesis
    by (simp add: three_members_good) (simp add: wrapping_client_def)
qed

end
