(* ===== verification/Hosting.thy ===== *)
theory Hosting
  imports ServerLoop
begin

text \<open>
  What \<^verbatim>\<open>Serve\<close> and \<^verbatim>\<open>ServePacket\<close> of server.go have in common: each runs several
  servers, whose steps are interleaved on one state, under contexts it may cancel. \<open>hosted_run\<close> is
  the run of one of them, between whose steps the others change the state; \<open>heeds\<close> holds of a server
  whose reads all fail under a cancelled context, and such a server ends.
\<close>

subsection \<open>One server among others\<close>

text \<open>\<open>E\<close> are the functions its context's \<^verbatim>\<open>Err()\<close> may be during the run.\<close>

inductive hosted_run :: "'w RPCServer \<Rightarrow> ctx \<Rightarrow> ('w \<Rightarrow> go_error option) set \<Rightarrow> 'w srv \<Rightarrow> bool"
  for rp :: "'w RPCServer" and c :: ctx and E :: "('w \<Rightarrow> go_error option) set" where
  hosted_start: "hosted_run rp c E (srv_start w)"
| hosted_step: "hosted_run rp c E l \<Longrightarrow> cerr \<in> E \<Longrightarrow> srv_step rp cerr c (l\<lparr>srv_world := w\<rparr>) l'
    \<Longrightarrow> hosted_run rp c E l'"

lemma srv_inv_world: "srv_inv rp (l\<lparr>srv_world := w\<rparr>) = srv_inv rp l"
  by (simp add: srv_inv_def srv_joined_def srv_patient_def srv_sequential_def split: phase.split)

lemma hosted_run_inv: "hosted_run rp c E l \<Longrightarrow> srv_inv rp l"
  by (induction rule: hosted_run.induct) (auto intro: srv_inv_start srv_inv_step simp: srv_inv_world)

subsection \<open>Servers that heed their context end\<close>

definition heeds :: "'w RPCServer \<Rightarrow> bool" where
  "heeds rp \<longleftrightarrow> (\<forall>c w. ctx_error (ctx_err c) \<longrightarrow> (\<exists>e w'. read_message rp c w = NExit e w'))"

definition server_weight :: "'w srv \<Rightarrow> nat" where
  "server_weight l = (if srv_phase l = Looping then length (srv_jobs l) + 4 else closing_weight l)"

lemma server_weight_simps [simp]:
  "server_weight (l\<lparr>srv_world := w\<rparr>) = server_weight l" "server_weight (srv_start w) = 4"
  by (simp_all add: server_weight_def closing_weight_def split: phase.split)

lemma server_weight_bound: "server_weight l \<le> length (srv_jobs l) + 4"
  by (simp add: server_weight_def closing_weight_def split: phase.split)

lemma heeding_exit:
  assumes "heeds rp" "\<And>w. ctx_error (cerr w)"
  shows "\<exists>e w'. read_message rp (internal_ctx cerr False c w) w = NExit e w'"
proof -
  have "ctx_error (ctx_err (internal_ctx cerr False c w))"
    using assms(2) [of w] by (auto simp: internal_ctx_def ctx_error_def)
  then show ?thesis using assms(1) by (simp add: heeds_def)
qed

text \<open>Under a cancelled context every step of a server that heeds it brings it closer to its end,
  and it has a step until it has returned.\<close>

lemma srv_step_weight:
  assumes "srv_step rp cerr c l l'" "heeds rp" "\<And>w. ctx_error (cerr w)" "srv_inv rp l"
  shows "server_weight l' < server_weight l"
proof -
  have exit: "\<exists>e w'. read_message rp (internal_ctx cerr False c (srv_world l)) (srv_world l) = NExit e w'"
    by (rule heeding_exit [OF assms(2)]) (rule assms(3))
  have joined: "srv_joined l" using assms(4) by (simp add: srv_inv_def)
  from assms(1) show ?thesis
    by (cases rule: srv_step.cases)
       (use joined exit in \<open>auto simp: server_weight_def closing_weight_def srv_joined_def split: phase.splits\<close>)
qed

lemma srv_step_enabled:
  assumes "heeds rp" "\<And>w. ctx_error (cerr w)" "\<forall>r. srv_phase l \<noteq> Returned r"
  shows "\<exists>l'. srv_step rp cerr c l l'"
proof (cases "srv_phase l = Looping")
  case True
  have "\<exists>e w'. read_message rp (internal_ctx cerr False c (srv_world l)) (srv_world l) = NExit e w'"
    by (rule heeding_exit [OF assms(1)]) (rule assms(2))
  with True show ?thesis by (metis srv_step.loop_exit)
next
  case False
  with assms(3) have "closing_weight l \<noteq> 0"
    by (auto simp: closing_weight_def split: phase.split)
  then show ?thesis
    using closing_step_enabled [of l rp cerr c] by (auto simp: closing_step_def)
qed

end
