(* ===== verification/PacketServe.thy ===== *)
theory PacketServe
  imports StreamServer Hosting "HOL-Library.Sublist"
begin

text \<open>
  \<^verbatim>\<open>ServePacket\<close> of server.go: the routines that share a packet connection, as a step relation.
  Each routine builds its server, runs it, puts its error into the channel, cancels the common context
  and ends; the steps of their servers, and the goroutines those start, are interleaved on the one
  state, and the caller may cancel its context at any time. \<open>gr_done\<close> is \<^verbatim>\<open>Err()\<close> and the cause
  of the common context from the moment it is cancelled; they do not change any more.
\<close>

subsection \<open>The routines\<close>

datatype 'w routine =
    Unstarted
  | Serving "'w RPCServer" ctx "'w srv"
  | Sent "go_error option"
  | Stopped "go_error option"
  | Ended "go_error option"

record 'w group =
  gr_left :: nat
  gr_routines :: "'w routine list"
  gr_errs :: "go_error option list"
  gr_done :: "(go_error \<times> go_error) option"
  gr_result :: "go_error option option"
  gr_world :: 'w

text \<open>What a packet server is made of: the logger, the codecs, \<open>stop\<close>, the fields of the \<open>Server\<close>
  and the values of the context; \<open>ps_cause\<close> is the cause a binder gave to \<open>stop\<close>, if it has called it.\<close>

record 'w packet_setup =
  ps_slog :: "'w slog"
  ps_dec :: "'w PacketDecoder"
  ps_enc :: "'w PacketEncoder"
  ps_stop :: "'w CancelCauseFunc"
  ps_server :: "'w Server"
  ps_cause :: "'w \<Rightarrow> go_error option"
  ps_ctx :: ctx

definition group_err :: "'w packet_setup \<Rightarrow> (go_error \<times> go_error) option \<Rightarrow> 'w \<Rightarrow> go_error option" where
  "group_err p d w = (case d of
     Some (e, cz) \<Rightarrow> Some e
   | None \<Rightarrow> map_option (\<lambda>cz. Sentinel Canceled) (ps_cause p w))"

definition routine_server :: "'w packet_setup \<Rightarrow> (go_error \<times> go_error) option \<Rightarrow> 'w \<Rightarrow> ('w RPCServer \<times> ctx) \<times> 'w" where
  "routine_server p d w = packet_server (ps_slog p) (ps_dec p) (ps_enc p) (ps_stop p) (ps_server p)
     ((ps_ctx p)\<lparr>ctx_err := group_err p d w\<rparr>) w"

text \<open>A context keeps the first error and cause it was cancelled with; \<open>stop(nil)\<close> gives \<open>Canceled\<close>
  for both.\<close>

definition cancel_group :: "'w packet_setup \<Rightarrow> go_error \<times> go_error \<Rightarrow> 'w group \<Rightarrow> 'w group" where
  "cancel_group p d s = s\<lparr>gr_done := (case gr_done s of
     Some d' \<Rightarrow> Some d'
   | None \<Rightarrow> (case ps_cause p (gr_world s) of Some cz \<Rightarrow> Some (Sentinel Canceled, cz) | None \<Rightarrow> Some d))\<rparr>"

definition group_cause :: "'w packet_setup \<Rightarrow> 'w group \<Rightarrow> go_error option" where
  "group_cause p s = (case gr_done s of Some (e, cz) \<Rightarrow> Some cz | None \<Rightarrow> ps_cause p (gr_world s))"

text \<open>The errors of the channel joined in order, and the cause of the context.\<close>

definition join_results :: "go_error option list \<Rightarrow> go_error option \<Rightarrow> go_error option" where
  "join_results errs cause = errors_join [fold (\<lambda>e err. errors_join [err, e]) errs None, cause]"

fun ended :: "'w routine \<Rightarrow> bool" where
  "ended (Ended r) = True"
| "ended _ = False"

inductive packet_step :: "'w packet_setup \<Rightarrow> 'w group \<Rightarrow> 'w group \<Rightarrow> bool" for p :: "'w packet_setup" where
  spawn: "gr_left s = Suc n
    \<Longrightarrow> packet_step p s (s\<lparr>gr_left := n, gr_routines := gr_routines s @ [Unstarted]\<rparr>)"
| begin_routine: "\<lbrakk>gr_routines s = xs @ Unstarted # ys;
      routine_server p (gr_done s) (gr_world s) = ((rp, c), w')\<rbrakk>
    \<Longrightarrow> packet_step p s (s\<lparr>gr_routines := xs @ Serving rp c (srv_start w') # ys, gr_world := w'\<rparr>)"
| serve: "\<lbrakk>gr_routines s = xs @ Serving rp c l # ys;
      srv_step rp (group_err p (gr_done s)) c (l\<lparr>srv_world := gr_world s\<rparr>) l'\<rbrakk>
    \<Longrightarrow> packet_step p s (s\<lparr>gr_routines := xs @ Serving rp c l' # ys, gr_world := srv_world l'\<rparr>)"
| send_error: "\<lbrakk>gr_routines s = xs @ Serving rp c l # ys; srv_phase l = Returned r;
      int (length (gr_errs s)) < sv_PacketRoutines (ps_server p)\<rbrakk>
    \<Longrightarrow> packet_step p s (s\<lparr>gr_routines := xs @ Sent r # ys, gr_errs := gr_errs s @ [r]\<rparr>)"
| stop_group: "gr_routines s = xs @ Sent r # ys
    \<Longrightarrow> packet_step p s (cancel_group p (Sentinel Canceled, Sentinel Canceled)
          (s\<lparr>gr_routines := xs @ Stopped r # ys\<rparr>))"
| end_routine: "gr_routines s = xs @ Stopped r # ys
    \<Longrightarrow> packet_step p s (s\<lparr>gr_routines := xs @ Ended r # ys\<rparr>)"
| serve_packet_returns: "\<lbrakk>gr_left s = 0; list_all ended (gr_routines s); gr_result s = None\<rbrakk>
    \<Longrightarrow> packet_step p s (s\<lparr>gr_result := Some (join_results (gr_errs s) (group_cause p s))\<rparr>)"
| caller_cancels: "\<lbrakk>gr_done s = None; gr_result s = None; ctx_error (Some e)\<rbrakk>
    \<Longrightarrow> packet_step p s (cancel_group p (e, cz) s)"

text \<open>Making the channel panics for a negative number of routines. A context that is cancelled already
  is one that the first step cancels.\<close>

definition packet_start :: "'w packet_setup \<Rightarrow> 'w \<Rightarrow> 'w group option" where
  "packet_start p w =
     (if sv_PacketRoutines (ps_server p) < 0 then None
      else Some \<lparr>gr_left = nat (sv_PacketRoutines (ps_server p)), gr_routines = [], gr_errs = [],
        gr_done = None, gr_result = None, gr_world = w\<rparr>)"

text \<open>The errors an error was joined from, in order.\<close>

fun error_parts :: "go_error \<Rightarrow> go_error list" where
  "error_parts (Joined es) = concat (map error_parts es)"
| "error_parts e = [e]"

definition parts_of :: "go_error option \<Rightarrow> go_error list" where
  "parts_of x = (case x of Some e \<Rightarrow> error_parts e | None \<Rightarrow> [])"

lemma parts_of_None [simp]: "parts_of None = []"
  by (simp add: parts_of_def)

lemma parts_of_join: "parts_of (errors_join xs) = concat (map parts_of xs)"
proof -
  have "concat (map error_parts (List.map_filter (\<lambda>x. x) xs)) = concat (map parts_of xs)"
    by (induction xs) (auto simp: List.map_filter_def parts_of_def split: option.splits)
  then show ?thesis
    by (auto simp: errors_join_def parts_of_def Let_def)
qed

lemma parts_of_fold: "parts_of (fold (\<lambda>e err. errors_join [err, e]) es acc) = parts_of acc @ concat (map parts_of es)"
  by (induction es arbitrary: acc) (simp_all add: parts_of_join)

lemma parts_of_results: "parts_of (join_results errs cause) = concat (map parts_of errs) @ parts_of cause"
  by (simp add: join_results_def parts_of_join parts_of_fold)

lemma join_some: "errors_join [a, Some e] \<noteq> None"
  by (cases a) (simp_all add: errors_join_def)

lemma join_results_some: "cause \<noteq> None \<Longrightarrow> join_results errs cause \<noteq> None"
  by (cases cause) (simp_all add: join_results_def join_some del: not_None_eq)

subsection \<open>Every routine is joined, and its error sent once\<close>

fun routine_result :: "'w routine \<Rightarrow> go_error option list" where
  "routine_result (Sent r) = [r]"
| "routine_result (Stopped r) = [r]"
| "routine_result (Ended r) = [r]"
| "routine_result _ = []"

fun routine_stopped :: "'w routine \<Rightarrow> bool" where
  "routine_stopped (Stopped r) = True"
| "routine_stopped (Ended r) = True"
| "routine_stopped _ = False"

text \<open>A routine serves with the server it built, and what it sends is what the run of that server
  returned.\<close>

definition routine_run :: "'w packet_setup \<Rightarrow> 'w RPCServer \<Rightarrow> ctx \<Rightarrow> 'w srv \<Rightarrow> bool" where
  "routine_run p rp c l \<longleftrightarrow> (\<exists>d w w'. routine_server p d w = ((rp, c), w')) \<and> hosted_run rp c (range (group_err p)) l"

fun routine_good :: "'w packet_setup \<Rightarrow> 'w routine \<Rightarrow> bool" where
  "routine_good p Unstarted = True"
| "routine_good p (Serving rp c l) = routine_run p rp c l"
| "routine_good p (Sent r) = (\<exists>rp c l. routine_run p rp c l \<and> srv_phase l = Returned r)"
| "routine_good p (Stopped r) = (\<exists>rp c l. routine_run p rp c l \<and> srv_phase l = Returned r)"
| "routine_good p (Ended r) = (\<exists>rp c l. routine_run p rp c l \<and> srv_phase l = Returned r)"

definition group_counts :: "'w packet_setup \<Rightarrow> 'w group \<Rightarrow> bool" where
  "group_counts p s \<longleftrightarrow> int (gr_left s + length (gr_routines s)) = sv_PacketRoutines (ps_server p)
     \<and> mset (gr_errs s) = mset (concat (map routine_result (gr_routines s)))"

definition group_stops :: "'w group \<Rightarrow> bool" where
  "group_stops s \<longleftrightarrow> (gr_done s = None \<longrightarrow> list_all (\<lambda>r. \<not> routine_stopped r) (gr_routines s))"

definition group_joins :: "'w packet_setup \<Rightarrow> 'w group \<Rightarrow> bool" where
  "group_joins p s \<longleftrightarrow> (case gr_result s of
     None \<Rightarrow> True
   | Some r \<Rightarrow> gr_left s = 0 \<and> list_all ended (gr_routines s)
       \<and> r = join_results (gr_errs s) (group_cause p s))"

definition group_proper :: "'w group \<Rightarrow> bool" where
  "group_proper s \<longleftrightarrow> (case gr_done s of Some (e, cz) \<Rightarrow> ctx_error (Some e) | None \<Rightarrow> True)"

definition group_inv :: "'w packet_setup \<Rightarrow> 'w group \<Rightarrow> bool" where
  "group_inv p s \<longleftrightarrow> group_counts p s \<and> group_stops s \<and> group_joins p s \<and> group_proper s
     \<and> list_all (routine_good p) (gr_routines s)"

lemma group_inv_start: "packet_start p w = Some s \<Longrightarrow> group_inv p s"
  by (auto simp: packet_start_def group_inv_def group_counts_def group_stops_def group_joins_def group_proper_def split: if_splits)

lemma cancel_group_simps [simp]:
  "gr_left (cancel_group p d s) = gr_left s" "gr_routines (cancel_group p d s) = gr_routines s"
  "gr_errs (cancel_group p d s) = gr_errs s" "gr_result (cancel_group p d s) = gr_result s"
  "gr_world (cancel_group p d s) = gr_world s" "\<exists>e cz. gr_done (cancel_group p d s) = Some (e, cz)"
  by (auto simp: cancel_group_def split: option.split)

lemma cancel_group_done: "gr_done s = Some d' \<Longrightarrow> gr_done (cancel_group p d s) = Some d'"
  by (simp add: cancel_group_def)

lemma group_counts_step: "packet_step p s t \<Longrightarrow> group_counts p s \<Longrightarrow> group_counts p t"
  by (erule packet_step.cases) (simp_all add: group_counts_def)

lemma group_stops_step: "packet_step p s t \<Longrightarrow> group_stops s \<Longrightarrow> group_stops t"
proof (erule packet_step.cases)
  fix s' xs r ys
  show "t = cancel_group p (Sentinel Canceled, Sentinel Canceled) (s'\<lparr>gr_routines := xs @ Stopped r # ys\<rparr>) \<Longrightarrow> group_stops t"
    using cancel_group_simps(6) [of p "(Sentinel Canceled, Sentinel Canceled)" "s'\<lparr>gr_routines := xs @ Stopped r # ys\<rparr>"]
    by (auto simp: group_stops_def)
qed (auto simp: group_stops_def)

lemma group_joins_step: "packet_step p s t \<Longrightarrow> group_joins p s \<Longrightarrow> group_joins p t"
  by (erule packet_step.cases) (auto simp: group_joins_def group_cause_def split: option.splits)

lemma group_proper_step: "packet_step p s t \<Longrightarrow> group_proper s \<Longrightarrow> group_proper t"
  by (erule packet_step.cases) (auto simp: group_proper_def cancel_group_def ctx_error_def split: option.splits)

lemma group_good_step:
  assumes "packet_step p s t" "list_all (routine_good p) (gr_routines s)"
  shows "list_all (routine_good p) (gr_routines t)"
  using assms(1)
proof (cases rule: packet_step.cases)
  case (begin_routine xs ys rp c w')
  then have "routine_run p rp c (srv_start w')"
    unfolding routine_run_def by (blast intro: hosted_start)
  then show ?thesis using begin_routine assms(2) by simp
next
  case (serve xs rp c l ys l')
  then have "routine_run p rp c l \<Longrightarrow> routine_run p rp c l'"
    unfolding routine_run_def by (blast intro: hosted_step)
  then show ?thesis using serve assms(2) by simp
qed (use assms(2) in auto)

lemma group_inv_step: "packet_step p s t \<Longrightarrow> group_inv p s \<Longrightarrow> group_inv p t"
  unfolding group_inv_def
  by (intro conjI; elim conjE; rule group_counts_step group_stops_step group_joins_step group_proper_step group_good_step)

lemma group_inv_reachable:
  "(packet_step p)\<^sup>*\<^sup>* s t \<Longrightarrow> packet_start p w = Some s \<Longrightarrow> group_inv p t"
  by (induction rule: rtranclp_induct) (auto intro: group_inv_start group_inv_step)

text \<open>The channel keeps the order in which the routines sent.\<close>

lemma channel_step: "packet_step p s t \<Longrightarrow> prefix (gr_errs s) (gr_errs t)"
  by (erule packet_step.cases) simp_all

lemma channel_grows: "(packet_step p)\<^sup>*\<^sup>* s t \<Longrightarrow> prefix (gr_errs s) (gr_errs t)"
  by (induction rule: rtranclp_induct) (auto intro: prefix_order.trans channel_step)

lemma all_ended: "list_all ended rs \<Longrightarrow> \<exists>xs. rs = map Ended xs"
proof (induction rs)
  case (Cons r rs)
  then obtain x xs where "r = Ended x" "rs = map Ended xs" by (cases r) auto
  then show ?case by (intro exI [of _ "x # xs"]) simp
qed simp

subsection \<open>The group ends when its context is cancelled\<close>

definition cancelled :: "'w group \<Rightarrow> bool" where
  "cancelled s \<longleftrightarrow> gr_done s \<noteq> None"

fun routine_weight :: "'w routine \<Rightarrow> nat" where
  "routine_weight Unstarted = 9"
| "routine_weight (Serving rp c l) = 4 + server_weight l"
| "routine_weight (Sent r) = 2"
| "routine_weight (Stopped r) = 1"
| "routine_weight (Ended r) = 0"

definition group_weight :: "'w group \<Rightarrow> nat" where
  "group_weight s = (case gr_result s of
     Some r \<Rightarrow> 0 | None \<Rightarrow> Suc (10 * gr_left s + sum_list (map routine_weight (gr_routines s))))"

fun routine_heeds :: "'w routine \<Rightarrow> bool" where
  "routine_heeds (Serving rp c l) = heeds rp"
| "routine_heeds _ = True"

definition group_heeds :: "'w packet_setup \<Rightarrow> 'w group \<Rightarrow> bool" where
  "group_heeds p s \<longleftrightarrow> group_inv p s \<and> cancelled s \<and> list_all routine_heeds (gr_routines s)"

lemma cancelled_err: "cancelled s \<Longrightarrow> group_proper s \<Longrightarrow> ctx_error (group_err p (gr_done s) w)"
  by (auto simp: cancelled_def group_proper_def group_err_def)

lemma cancelled_step: "packet_step p s t \<Longrightarrow> cancelled s \<Longrightarrow> cancelled t"
  by (erule packet_step.cases) (auto simp: cancelled_def dest: cancel_group_done)

lemma group_weight_step:
  assumes "packet_step p s t" "group_heeds p s"
  shows "group_weight t < group_weight s"
  using assms(1)
proof (cases rule: packet_step.cases)
  case (serve xs rp c l ys l')
  then have "heeds rp" "routine_run p rp c l"
    using assms(2) by (simp_all add: group_heeds_def group_inv_def)
  then have "srv_inv rp (l\<lparr>srv_world := gr_world s\<rparr>)"
    by (auto simp: routine_run_def srv_inv_world intro: hosted_run_inv)
  moreover have "ctx_error (group_err p (gr_done s) w)" for w
    using assms(2) by (simp add: group_heeds_def group_inv_def cancelled_err)
  ultimately have "server_weight l' < server_weight (l\<lparr>srv_world := gr_world s\<rparr>)"
    using srv_step_weight [OF serve(3)] \<open>heeds rp\<close> by blast
  with serve assms(2) show ?thesis
    by (simp add: group_weight_def group_heeds_def group_inv_def group_joins_def split: option.splits)
qed (use assms(2) in \<open>simp_all add: group_weight_def group_heeds_def group_inv_def group_joins_def cancelled_def
      split: option.splits\<close>)

fun routine_jobs :: "'w routine \<Rightarrow> nat" where
  "routine_jobs (Serving rp c l) = length (srv_jobs l)"
| "routine_jobs _ = 0"

definition group_jobs :: "'w group \<Rightarrow> nat" where
  "group_jobs s = sum_list (map routine_jobs (gr_routines s))"

lemma group_weight_bound:
  assumes "group_counts p s"
  shows "group_weight s \<le> Suc (10 * nat (sv_PacketRoutines (ps_server p)) + group_jobs s)"
proof -
  have one: "routine_weight r \<le> 10 + routine_jobs r" for r :: "'a routine"
  proof (cases r)
    case (Serving rp c l)
    then show ?thesis using server_weight_bound [of l] by simp
  qed simp_all
  have "sum_list (map routine_weight rs) \<le> 10 * length rs + sum_list (map routine_jobs rs)" for rs :: "'a routine list"
  proof (induction rs)
    case (Cons r rs)
    with one [of r] show ?case by simp
  qed simp
  from this [of "gr_routines s"] assms show ?thesis
    by (auto simp: group_weight_def group_jobs_def group_counts_def split: option.split)
qed

text \<open>Nothing blocks: the channel has room for every routine.\<close>

lemma results_room:
  assumes "group_counts p s" "gr_routines s = xs @ r # ys" "routine_result r = []"
  shows "int (length (gr_errs s)) < sv_PacketRoutines (ps_server p)"
proof -
  have one: "length (routine_result x) \<le> 1" for x :: "'a routine"
    by (cases x) simp_all
  have "length (concat (map routine_result zs)) \<le> length zs" for zs :: "'a routine list"
  proof (induction zs)
    case (Cons z zs)
    with one [of z] show ?case by simp
  qed simp
  from this [of xs] this [of ys] have "length (concat (map routine_result (gr_routines s))) < length (gr_routines s)"
    using assms(2,3) by simp
  moreover have "length (gr_errs s) = length (concat (map routine_result (gr_routines s)))"
    using assms(1) by (metis group_counts_def size_mset)
  ultimately show ?thesis
    using assms(1) by (simp add: group_counts_def)
qed

lemma routine_enabled:
  assumes "group_heeds p s" "gr_routines s = xs @ r # ys" "\<not> ended r"
  shows "\<exists>t. packet_step p s t"
proof (cases r)
  case Unstarted
  obtain rp c w' where "routine_server p (gr_done s) (gr_world s) = ((rp, c), w')"
    by (metis surj_pair)
  with assms(2) Unstarted show ?thesis by (blast intro: packet_step.begin_routine)
next
  case (Serving rp c l)
  show ?thesis
  proof (cases "\<exists>r. srv_phase l = Returned r")
    case True
    then obtain x where x: "srv_phase l = Returned x" by blast
    have "int (length (gr_errs s)) < sv_PacketRoutines (ps_server p)"
      by (rule results_room [of p s xs r ys]) (use assms Serving in \<open>simp_all add: group_heeds_def group_inv_def\<close>)
    with x show ?thesis using assms(2) Serving by (blast intro: packet_step.send_error)
  next
    case False
    moreover have "heeds rp" "ctx_error (group_err p (gr_done s) w)" for w
      using assms Serving by (simp_all add: group_heeds_def group_inv_def cancelled_err)
    ultimately obtain l' where "srv_step rp (group_err p (gr_done s)) c (l\<lparr>srv_world := gr_world s\<rparr>) l'"
      using srv_step_enabled [of rp "group_err p (gr_done s)" "l\<lparr>srv_world := gr_world s\<rparr>" c] by auto
    then show ?thesis using assms(2) Serving by (blast intro: packet_step.serve)
  qed
next
  case (Sent x)
  then show ?thesis using assms(2) by (blast intro: packet_step.stop_group)
next
  case (Stopped x)
  then show ?thesis using assms(2) by (blast intro: packet_step.end_routine)
next
  case (Ended x)
  then show ?thesis using assms(3) by simp
qed

lemma group_enabled:
  assumes "group_heeds p s" "group_weight s \<noteq> 0"
  shows "\<exists>t. packet_step p s t"
proof -
  have none: "gr_result s = None"
    using assms(2) by (simp add: group_weight_def split: option.splits)
  show ?thesis
  proof (cases "list_all ended (gr_routines s)")
    case True
    then show ?thesis
      using none by (cases "gr_left s") (blast intro: packet_step.spawn packet_step.serve_packet_returns)+
  next
    case False
    then obtain r where "r \<in> set (gr_routines s)" "\<not> ended r" by (auto simp: list_all_iff)
    then show ?thesis using routine_enabled [OF assms(1)] by (meson split_list)
  qed
qed

text \<open>The first routine whose \<^verbatim>\<open>Run\<close> has returned brings the others down.\<close>

fun run_over :: "'w routine \<Rightarrow> bool" where
  "run_over (Serving rp c l) = (case srv_phase l of Returned r \<Rightarrow> True | _ \<Rightarrow> False)"
| "run_over (Sent r) = True"
| "run_over _ = False"

definition ending :: "'w group \<Rightarrow> bool" where
  "ending s \<longleftrightarrow> cancelled s \<or> list_ex run_over (gr_routines s)"

lemma sent_cancels:
  assumes "gr_routines s = xs @ Sent r # ys"
  shows "\<exists>t. packet_step p s t \<and> cancelled t"
  using packet_step.stop_group [OF assms, of p] by (fastforce simp: cancelled_def)

lemma ending_cancels:
  assumes "ending s" "group_counts p s"
  shows "\<exists>t. (packet_step p)\<^sup>*\<^sup>* s t \<and> cancelled t"
proof (cases "cancelled s")
  case False
  then obtain x where "x \<in> set (gr_routines s)" "run_over x"
    using assms(1) by (auto simp: ending_def list_ex_iff)
  then obtain xs ys where split: "gr_routines s = xs @ x # ys" by (meson split_list)
  show ?thesis
  proof (cases x)
    case (Serving rp c l)
    then obtain r where r: "srv_phase l = Returned r"
      using \<open>run_over x\<close> by (auto split: phase.splits)
    let ?s = "s\<lparr>gr_routines := xs @ Sent r # ys, gr_errs := gr_errs s @ [r]\<rparr>"
    have "int (length (gr_errs s)) < sv_PacketRoutines (ps_server p)"
      by (rule results_room [OF assms(2) split]) (simp add: Serving)
    then have first: "packet_step p s ?s"
      using packet_step.send_error [OF split [unfolded Serving] r] by blast
    obtain t where "packet_step p ?s t" "cancelled t"
      using sent_cancels [of ?s xs r ys p] by auto
    with first show ?thesis by (meson converse_rtranclp_into_rtranclp r_into_rtranclp)
  next
    case (Sent r)
    then show ?thesis using sent_cancels split by (metis r_into_rtranclp)
  qed (use \<open>run_over x\<close> in simp_all)
qed auto

text \<open>A setup whose servers all heed their context, whatever the binder does.\<close>

locale heeding_group =
  fixes p :: "'w packet_setup"
  assumes servers_heed: "routine_server p cz w = ((rp, c), w') \<Longrightarrow> heeds rp"
begin

lemma group_heeds_step: "group_heeds p s \<Longrightarrow> packet_step p s t \<Longrightarrow> group_heeds p t"
  unfolding group_heeds_def
proof (intro conjI; elim conjE)
  assume "packet_step p s t" "list_all routine_heeds (gr_routines s)"
  then show "list_all routine_heeds (gr_routines t)"
    by (cases rule: packet_step.cases) (auto dest: servers_heed)
qed (auto intro: group_inv_step cancelled_step)

end

sublocale heeding_group \<subseteq> draining_within "packet_step p" group_weight "group_heeds p"
  by unfold_locales (fact group_heeds_step, fact group_weight_step [rotated], fact group_enabled)

context heeding_group
begin

lemma reachable_heeds:
  assumes "(packet_step p)\<^sup>*\<^sup>* s t" "packet_start p w = Some s"
  shows "list_all routine_heeds (gr_routines t)"
  using assms
proof (induction rule: rtranclp_induct)
  case (step t u)
  from step.hyps(2) step.IH step.prems show ?case
    by (cases rule: packet_step.cases) (auto dest: servers_heed)
qed (auto simp: packet_start_def split: if_splits)

lemma group_drains:
  assumes "(packet_step p)\<^sup>*\<^sup>* s t" "packet_start p w = Some s" "cancelled t"
  shows "\<exists>u r. (packet_step p)\<^sup>*\<^sup>* t u \<and> gr_result u = Some r"
    "(packet_step p ^^ n) t u \<Longrightarrow> n \<le> Suc (10 * nat (sv_PacketRoutines (ps_server p)) + group_jobs t)"
proof -
  have good: "group_heeds p t"
    using group_inv_reachable [OF assms(1,2)] reachable_heeds [OF assms(1,2)] assms(3) by (simp add: group_heeds_def)
  obtain v where "(packet_step p)\<^sup>*\<^sup>* t v" "group_weight v = 0"
    using drains_within [OF good] by blast
  moreover from this have "\<exists>r. gr_result v = Some r"
    by (simp add: group_weight_def split: option.splits)
  ultimately show "\<exists>u r. (packet_step p)\<^sup>*\<^sup>* t u \<and> gr_result u = Some r" by blast
  have "group_weight t \<le> Suc (10 * nat (sv_PacketRoutines (ps_server p)) + group_jobs t)"
    using good by (intro group_weight_bound) (simp add: group_heeds_def group_inv_def)
  then show "n \<le> Suc (10 * nat (sv_PacketRoutines (ps_server p)) + group_jobs t)" if "(packet_step p ^^ n) t u"
    using run_bounded_within [OF good that] by simp
qed

lemma group_returns:
  assumes "(packet_step p)\<^sup>*\<^sup>* s t" "packet_start p w = Some s" "ending t"
  shows "\<exists>u r. (packet_step p)\<^sup>*\<^sup>* t u \<and> gr_result u = Some r"
proof -
  obtain u where u: "(packet_step p)\<^sup>*\<^sup>* t u" "cancelled u"
    using ending_cancels [OF assms(3)] group_inv_reachable [OF assms(1,2)] by (auto simp: group_inv_def)
  with assms(1) have "(packet_step p)\<^sup>*\<^sup>* s u" by (meson rtranclp_trans)
  from group_drains(1) [OF this assms(2) u(2)] u(1) show ?thesis by (meson rtranclp_trans)
qed

end

subsection \<open>Packet connections heed their context\<close>

text \<open>A connection whose \<^verbatim>\<open>ReadFrom\<close> never fails with an error of encoding/json.\<close>

definition plain_errors :: "('w \<Rightarrow> (bytes \<times> bytes option \<times> go_error option) \<times> 'w) \<Rightarrow> bool" where
  "plain_errors recv \<longleftrightarrow> (\<forall>w d addr e w'. recv w = ((d, addr, Some e), w') \<longrightarrow> \<not> is_syntax_error e \<and> \<not> is_type_error e)"

lemma packet_decoder_heeds:
  assumes "plain_errors recv" "rp_decoder rp = NewPacketDecoder recv close"
  shows "heeds rp"
  unfolding heeds_def
proof (intro allI impI)
  fix c :: ctx and w assume c: "ctx_error (ctx_err c)"
  then obtain s where s: "ctx_err c = Some (Sentinel s)" by (auto simp: ctx_error_def)
  obtain d addr err w' where recv: "recv w = ((d, addr, err), w')" by (metis surj_pair)
  have "pd_DecodeFrom (rp_decoder rp) c w = ((addr, [], errors_join [err, Some (Sentinel s)]), w')"
    using s recv by (simp add: assms(2) NewPacketDecoder_def PacketConn_DecodeFrom_def packet_env_of_def Let_def)
  moreover have "\<not> is_syntax_error e \<and> \<not> is_type_error e" if "err = Some e" for e
    using assms(1) recv that unfolding plain_errors_def by blast
  ultimately show "\<exists>e w'. read_message rp c w = NExit e w'"
    by (cases err) (auto simp: read_message_def errors_join_def)
qed

locale packet_conn =
  fixes p :: "'w packet_setup" and recv :: "'w \<Rightarrow> (bytes \<times> bytes option \<times> go_error option) \<times> 'w" and close
  assumes decodes: "ps_dec p = NewPacketDecoder recv close"
    and recv_errors: "plain_errors recv"
    and unbound: "sv_Binder (ps_server p) = None"

sublocale packet_conn \<subseteq> heeding_group p
proof unfold_locales
  fix cz w rp c w'
  assume "routine_server p cz w = ((rp, c), w')"
  then have "rp_decoder rp = NewPacketDecoder recv close"
    using unbound by (auto simp: routine_server_def packet_server_def NewPacketServer_def newRPCServer_def Let_def decodes)
  with recv_errors show "heeds rp" by (rule packet_decoder_heeds)
qed

context packet_conn
begin

lemma packet_returns:
  assumes "(packet_step p)\<^sup>*\<^sup>* s t" "packet_start p w = Some s"
  shows "ending t \<Longrightarrow> \<exists>u r. (packet_step p)\<^sup>*\<^sup>* t u \<and> gr_result u = Some r"
    "cancelled t \<Longrightarrow> (packet_step p ^^ n) t u
      \<Longrightarrow> n \<le> Suc (10 * nat (sv_PacketRoutines (ps_server p)) + group_jobs t)"
  using group_returns [OF assms] group_drains(2) [OF assms] by simp_all

end

text \<open>A socket that gives its datagrams and is then closed, and the routines of a server on it.\<close>

definition socket_recv :: "'u packet_world \<Rightarrow> (bytes \<times> bytes option \<times> go_error option) \<times> 'u packet_world" where
  "socket_recv w = (case pw_in w of
     [] \<Rightarrow> (([], None, Some (Sentinel NetErrClosed)), w)
   | (d, addr, e) # xs \<Rightarrow> ((d, addr, None), w\<lparr>pw_in := xs\<rparr>))"

definition socket_setup :: "'u slog \<Rightarrow> ('u packet_world) Server \<Rightarrow> ('u packet_world) packet_setup" where
  "socket_setup slog sv = \<lparr>ps_slog = (\<lambda>c m attrs w. w\<lparr>pw_user := slog c m attrs (pw_user w)\<rparr>),
     ps_dec = NewPacketDecoder socket_recv packet_close, ps_enc = NewPacketEncoder packet_send packet_close,
     ps_stop = (\<lambda>e w. w), ps_server = sv, ps_cause = (\<lambda>w. None), ps_ctx = background\<rparr>"

lemma socket_recv_plain: "plain_errors socket_recv"
  by (auto simp: plain_errors_def socket_recv_def split: list.splits)

interpretation socket: packet_conn "socket_setup slog (NewServer n m (on_user h pw_user (\<lambda>u w. w\<lparr>pw_user := u\<rparr>)))"
    socket_recv packet_close
  for slog :: "'u slog" and n m and h :: "'u Handler"
  by unfold_locales
     (simp_all add: socket_setup_def socket_recv_plain NewServer_def)

end
