(* ===== verification/ConnServe.thy ===== *)
theory ConnServe
  imports Net Hosting
begin

text \<open>
  \<^verbatim>\<open>Serve\<close> of server.go as a step relation: the accept loop, and the goroutine of each
  connection, which builds and binds its server, runs it, and cancels the context of the connection when
  it ends. The steps of the servers, and of the goroutines those start, are interleaved with the accept
  loop on one state. When accepting fails the common context is cancelled, then the connections are waited
  for.
\<close>

subsection \<open>The accept loop and its connections\<close>

text \<open>What \<^verbatim>\<open>Serve\<close> is given: the listener's \<^verbatim>\<open>Accept\<close>, the fields of the \<open>Server\<close>
  and \<^verbatim>\<open>Err()\<close> of the caller's context. \<open>sl_connStop\<close> cancels the context of a connection,
  \<open>sl_stopped\<close> tells whether a binder has done so.\<close>

record ('w, 'c) serve_setup =
  sl_slog :: "'w slog"
  sl_accept :: "'w \<Rightarrow> (go_error + 'c) \<times> 'w"
  sl_newDecoder :: "'c \<Rightarrow> 'w Decoder"
  sl_newEncoder :: "'c \<Rightarrow> 'w Encoder"
  sl_connStop :: "'c \<Rightarrow> 'w CancelCauseFunc"
  sl_stopped :: "'c \<Rightarrow> 'w \<Rightarrow> bool"
  sl_server :: "'w Server"
  sl_err :: "'w \<Rightarrow> go_error option"
  sl_ctx :: ctx

datatype accept_phase = Accepting | Closing go_error | Served "go_error option"

datatype ('w, 'c) conn_routine =
    ConnReady 'c
  | ConnServing 'c "'w RPCServer" ctx "'w srv"
  | ConnEnded 'c

record ('w, 'c) accept_state =
  ac_phase :: accept_phase
  ac_conns :: "('w, 'c) conn_routine list"
  ac_world :: 'w

text \<open>\<^verbatim>\<open>Err()\<close> of the context of a connection, once \<^verbatim>\<open>Serve\<close> has called \<open>stop\<close> or not.\<close>

definition conn_err :: "('w, 'c) serve_setup \<Rightarrow> bool \<Rightarrow> 'c \<Rightarrow> 'w \<Rightarrow> go_error option" where
  "conn_err p closing x w = (case sl_err p w of
     Some e \<Rightarrow> Some e
   | None \<Rightarrow> if closing \<or> sl_stopped p x w then Some (Sentinel Canceled) else None)"

definition conn_server :: "('w, 'c) serve_setup \<Rightarrow> bool \<Rightarrow> 'c \<Rightarrow> 'w \<Rightarrow> ('w RPCServer \<times> ctx) \<times> 'w" where
  "conn_server p closing x w = connection_server (sl_slog p) (sl_newDecoder p) (sl_newEncoder p) (sl_connStop p)
     (sl_server p) ((sl_ctx p)\<lparr>ctx_err := conn_err p closing x w\<rparr>) x w"

fun conn_over :: "('w, 'c) conn_routine \<Rightarrow> bool" where
  "conn_over (ConnEnded x) = True"
| "conn_over _ = False"

abbreviation closing_down :: "('w, 'c) accept_state \<Rightarrow> bool" where
  "closing_down s \<equiv> ac_phase s \<noteq> Accepting"

inductive serve_step :: "('w, 'c) serve_setup \<Rightarrow> ('w, 'c) accept_state \<Rightarrow> ('w, 'c) accept_state \<Rightarrow> bool"
  for p :: "('w, 'c) serve_setup" where
  accept_conn: "\<lbrakk>ac_phase s = Accepting; sl_accept p (ac_world s) = (Inr x, w')\<rbrakk>
    \<Longrightarrow> serve_step p s (s\<lparr>ac_conns := ac_conns s @ [ConnReady x], ac_world := w'\<rparr>)"
| accept_fail: "\<lbrakk>ac_phase s = Accepting; sl_accept p (ac_world s) = (Inl e, w');
      errors_join [Some e, sl_err p w'] = Some err\<rbrakk>
    \<Longrightarrow> serve_step p s (s\<lparr>ac_phase := Closing err, ac_world := w'\<rparr>)"
| conn_begins: "\<lbrakk>ac_conns s = xs @ ConnReady x # ys;
      conn_server p (closing_down s) x (ac_world s) = ((rp, c), w')\<rbrakk>
    \<Longrightarrow> serve_step p s (s\<lparr>ac_conns := xs @ ConnServing x rp c (srv_start w') # ys, ac_world := w'\<rparr>)"
| conn_serves: "\<lbrakk>ac_conns s = xs @ ConnServing x rp c l # ys;
      srv_step rp (conn_err p (closing_down s) x) c (l\<lparr>srv_world := ac_world s\<rparr>) l'\<rbrakk>
    \<Longrightarrow> serve_step p s (s\<lparr>ac_conns := xs @ ConnServing x rp c l' # ys, ac_world := srv_world l'\<rparr>)"
| conn_ends: "\<lbrakk>ac_conns s = xs @ ConnServing x rp c l # ys; srv_phase l = Returned r\<rbrakk>
    \<Longrightarrow> serve_step p s (s\<lparr>ac_conns := xs @ ConnEnded x # ys, ac_world := sl_connStop p x None (ac_world s)\<rparr>)"
| serve_returns: "\<lbrakk>ac_phase s = Closing e; list_all conn_over (ac_conns s)\<rbrakk>
    \<Longrightarrow> serve_step p s (s\<lparr>ac_phase := Served (Some e)\<rparr>)"

definition serve_start :: "'w \<Rightarrow> ('w, 'c) accept_state" where
  "serve_start w = \<lparr>ac_phase = Accepting, ac_conns = [], ac_world = w\<rparr>"

subsection \<open>What a run does to the state\<close>

text \<open>The events of a run and what each does to the state. The events of a connection bear its number,
  whether \<open>stop\<close> had been called, and the server they concern.\<close>

datatype ('w, 'c) serve_event =
    Takes 'c
  | Refuses go_error
  | Builds nat bool 'c "'w RPCServer" ctx
  | Runs nat bool 'c "'w RPCServer" ctx "'w srv" "'w srv"
  | Stops nat bool 'c

fun serve_effect :: "('w, 'c) serve_setup \<Rightarrow> 'w \<Rightarrow> ('w, 'c) serve_event \<Rightarrow> 'w \<Rightarrow> bool" where
  "serve_effect p w (Takes x) w' \<longleftrightarrow> sl_accept p w = (Inr x, w')"
| "serve_effect p w (Refuses e) w' \<longleftrightarrow> sl_accept p w = (Inl e, w')"
| "serve_effect p w (Builds i b x rp c) w' \<longleftrightarrow> conn_server p b x w = ((rp, c), w')"
| "serve_effect p w (Runs i b x rp c l l') w' \<longleftrightarrow>
     srv_world l = w \<and> srv_step rp (conn_err p b x) c l l' \<and> srv_world l' = w'"
| "serve_effect p w (Stops i b x) w' \<longleftrightarrow> w' = sl_connStop p x None w"

fun serve_effects :: "('w, 'c) serve_setup \<Rightarrow> 'w \<Rightarrow> ('w, 'c) serve_event list \<Rightarrow> 'w \<Rightarrow> bool" where
  "serve_effects p w [] w' \<longleftrightarrow> w' = w"
| "serve_effects p w (ev # evs) w' \<longleftrightarrow> (\<exists>w1. serve_effect p w ev w1 \<and> serve_effects p w1 evs w')"

lemma serve_effects_append:
  "serve_effects p w (as @ bs) w' \<longleftrightarrow> (\<exists>w1. serve_effects p w as w1 \<and> serve_effects p w1 bs w')"
  by (induction as arbitrary: w) auto

fun taken_by :: "('w, 'c) serve_event list \<Rightarrow> 'c list" where
  "taken_by [] = []"
| "taken_by (Takes x # evs) = x # taken_by evs"
| "taken_by (_ # evs) = taken_by evs"

lemma taken_append [simp]: "taken_by (as @ bs) = taken_by as @ taken_by bs"
  by (induction as rule: taken_by.induct) simp_all

text \<open>The events of one connection, and the sessions they are to form: the server is built, runs from its
  start, each step from where the last one left it in a state the others may have changed, until it has
  returned, and then the context of the connection is cancelled.\<close>

fun event_of :: "nat \<Rightarrow> ('w, 'c) serve_event \<Rightarrow> bool" where
  "event_of i (Builds j b x rp c) \<longleftrightarrow> j = i"
| "event_of i (Runs j b x rp c l l') \<longleftrightarrow> j = i"
| "event_of i (Stops j b x) \<longleftrightarrow> j = i"
| "event_of i _ \<longleftrightarrow> False"

inductive session :: "nat \<Rightarrow> 'c \<Rightarrow> ('w, 'c) serve_event list \<Rightarrow> ('w, 'c) conn_routine \<Rightarrow> bool" for i :: nat and x :: 'c where
  session_ready: "session i x [] (ConnReady x)"
| session_builds: "session i x es (ConnReady x) \<Longrightarrow> session i x (es @ [Builds i b x rp c]) (ConnServing x rp c (srv_start w))"
| session_runs: "session i x es (ConnServing x rp c l) \<Longrightarrow>
    session i x (es @ [Runs i b x rp c (l\<lparr>srv_world := w\<rparr>) l']) (ConnServing x rp c l')"
| session_stops: "session i x es (ConnServing x rp c l) \<Longrightarrow> srv_phase l = Returned r \<Longrightarrow>
    session i x (es @ [Stops i b x]) (ConnEnded x)"

text \<open>While the listener accepts the context is not cancelled by \<open>stop\<close>; afterwards it is, and
  nothing is accepted any more. A connection does nothing before it was accepted.\<close>

fun open_event :: "('w, 'c) serve_event \<Rightarrow> bool" where
  "open_event (Takes x) = True"
| "open_event (Refuses e) = False"
| "open_event (Builds i b x rp c) = (\<not> b)"
| "open_event (Runs i b x rp c l l') = (\<not> b)"
| "open_event (Stops i b x) = (\<not> b)"

fun shut_event :: "('w, 'c) serve_event \<Rightarrow> bool" where
  "shut_event (Takes x) = False"
| "shut_event (Refuses e) = False"
| "shut_event (Builds i b x rp c) = b"
| "shut_event (Runs i b x rp c l l') = b"
| "shut_event (Stops i b x) = b"

definition once_taken :: "('w, 'c) serve_event list \<Rightarrow> bool" where
  "once_taken es \<longleftrightarrow> (\<forall>n i. n < length es \<longrightarrow> event_of i (es ! n) \<longrightarrow> i < length (taken_by (take n es)))"

text \<open>The accept loop failed with the error \<open>Serve\<close> is to return.\<close>

definition refused_with :: "('w, 'c) serve_setup \<Rightarrow> 'w \<Rightarrow> ('w, 'c) serve_event list \<Rightarrow> go_error \<Rightarrow> bool" where
  "refused_with p w es err \<longleftrightarrow> (\<exists>pre e post w1. es = pre @ Refuses e # post \<and> list_all open_event pre \<and> list_all shut_event post
     \<and> serve_effects p w (pre @ [Refuses e]) w1 \<and> errors_join [Some e, sl_err p w1] = Some err)"

text \<open>The run up to a state.\<close>

definition serve_trace :: "('w, 'c) serve_setup \<Rightarrow> 'w \<Rightarrow> ('w, 'c) serve_event list \<Rightarrow> ('w, 'c) accept_state \<Rightarrow> bool" where
  "serve_trace p w es s \<longleftrightarrow> serve_effects p w es (ac_world s) \<and> length (taken_by es) = length (ac_conns s) \<and> once_taken es
     \<and> (\<forall>i < length (ac_conns s). session i (taken_by es ! i) (filter (event_of i) es) (ac_conns s ! i))
     \<and> (case ac_phase s of
          Accepting \<Rightarrow> list_all open_event es
        | Closing e \<Rightarrow> refused_with p w es e
        | Served r \<Rightarrow> list_all conn_over (ac_conns s) \<and> (\<exists>e. r = Some e \<and> refused_with p w es e))"

lemma serve_trace_start: "serve_trace p w [] (serve_start w)"
  by (simp add: serve_trace_def serve_start_def once_taken_def)

lemma once_taken_snoc:
  "once_taken (es @ [ev]) \<longleftrightarrow> once_taken es \<and> (\<forall>i. event_of i ev \<longrightarrow> i < length (taken_by es))"
  by (auto simp: once_taken_def nth_append less_Suc_eq split: if_splits)

lemma taken_take: "length (taken_by (take n es)) \<le> length (taken_by es)"
  by (metis append_take_drop_id le_add1 length_append taken_append)

lemma no_events_before:
  assumes "once_taken es" "length (taken_by es) \<le> i"
  shows "filter (event_of i) es = []"
proof -
  have "\<not> event_of i ev" if member: "ev \<in> set es" for ev
  proof -
    obtain n where "n < length es" "es ! n = ev" using member by (meson in_set_conv_nth)
    then show ?thesis
      using assms taken_take [of n es] unfolding once_taken_def by fastforce
  qed
  then show ?thesis by (simp add: filter_empty_conv)
qed

lemma refused_then:
  assumes "refused_with p w es e" "shut_event ev"
  shows "refused_with p w (es @ [ev]) e"
proof -
  obtain pre e1 post w1 where es: "es = pre @ Refuses e1 # post" "list_all open_event pre" "list_all shut_event post"
    "serve_effects p w (pre @ [Refuses e1]) w1" "errors_join [Some e1, sl_err p w1] = Some e"
    using assms(1) unfolding refused_with_def by blast
  show ?thesis
    unfolding refused_with_def
    by (rule exI [of _ pre], rule exI [of _ e1], rule exI [of _ "post @ [ev]"], rule exI [of _ w1])
       (use es assms(2) in simp)
qed

text \<open>An event of the connection \<open>i\<close> prolongs the session of that connection and no other.\<close>

lemma serve_trace_conn:
  assumes "serve_trace p w es s" "i < length (ac_conns s)" "\<And>j. event_of j ev \<longleftrightarrow> j = i" "taken_by [ev] = []"
    and "serve_effect p (ac_world s) ev w'" "if closing_down s then shut_event ev else open_event ev"
    and "session i (taken_by es ! i) (filter (event_of i) es @ [ev]) r" "\<not> list_all conn_over (ac_conns s)"
  shows "serve_trace p w (es @ [ev]) (s\<lparr>ac_conns := (ac_conns s)[i := r], ac_world := w'\<rparr>)"
proof -
  have "session j (taken_by (es @ [ev]) ! j) (filter (event_of j) (es @ [ev])) ((ac_conns s)[i := r] ! j)"
    if "j < length (ac_conns s)" for j
    using assms(1,3,4,7) that by (cases "j = i") (simp_all add: serve_trace_def)
  moreover have "once_taken (es @ [ev])"
    using assms(1-3) by (simp add: once_taken_snoc serve_trace_def)
  ultimately show ?thesis
    using assms(1,4-6,8)
    by (cases "ac_phase s") (auto simp: serve_trace_def serve_effects_append intro: refused_then)
qed

lemma session_routine:
  "session i x es r \<Longrightarrow> r = ConnReady x \<or> (\<exists>rp c l. r = ConnServing x rp c l) \<or> r = ConnEnded x"
  by (erule session.cases) simp_all

lemma serve_trace_step:
  assumes "serve_step p s t" "serve_trace p w es s"
  shows "\<exists>es'. serve_trace p w es' t"
proof -
  have old: "session i (taken_by es ! i) (filter (event_of i) es) (ac_conns s ! i)" if "i < length (ac_conns s)" for i
    using assms(2) that by (simp add: serve_trace_def)
  from assms(1) show ?thesis
  proof (cases rule: serve_step.cases)
    case (accept_conn x w')
    have "session i ((taken_by es @ [x]) ! i) (filter (event_of i) es) ((ac_conns s @ [ConnReady x]) ! i)"
      if "i < Suc (length (ac_conns s))" for i
      using that old [of i] assms(2) no_events_before [of es i] session_ready [of i x]
      by (cases "i = length (ac_conns s)") (auto simp: serve_trace_def nth_append)
    with accept_conn assms(2) have "serve_trace p w (es @ [Takes x]) t"
      by (auto simp: serve_trace_def serve_effects_append once_taken_snoc)
    then show ?thesis ..
  next
    case (accept_fail e w' err)
    have "refused_with p w (es @ [Refuses e]) err"
      unfolding refused_with_def
      by (rule exI [of _ es], rule exI [of _ e], rule exI [of _ "[]"], rule exI [of _ w'])
         (use accept_fail assms(2) in \<open>auto simp: serve_trace_def serve_effects_append\<close>)
    with accept_fail assms(2) have "serve_trace p w (es @ [Refuses e]) t"
      by (auto simp: serve_trace_def serve_effects_append once_taken_snoc)
    then show ?thesis ..
  next
    case (conn_begins xs x ys rp c w')
    let ?i = "length xs" and ?ev = "Builds (length xs) (closing_down s) x rp c"
    have was: "session ?i (taken_by es ! ?i) (filter (event_of ?i) es) (ConnReady x)"
      using old [of ?i] conn_begins by simp
    with session_routine [OF was] have "session ?i (taken_by es ! ?i) (filter (event_of ?i) es @ [?ev]) (ConnServing x rp c (srv_start w'))"
      by (auto intro: session_builds)
    then have "serve_trace p w (es @ [?ev])
        (s\<lparr>ac_conns := (ac_conns s)[?i := ConnServing x rp c (srv_start w')], ac_world := w'\<rparr>)"
      by (intro serve_trace_conn [OF assms(2)]) (use conn_begins in auto)
    then show ?thesis using conn_begins by auto
  next
    case (conn_serves xs x rp c l ys l')
    let ?i = "length xs" and ?ev = "Runs (length xs) (closing_down s) x rp c (l\<lparr>srv_world := ac_world s\<rparr>) l'"
    have was: "session ?i (taken_by es ! ?i) (filter (event_of ?i) es) (ConnServing x rp c l)"
      using old [of ?i] conn_serves by simp
    with session_routine [OF was] have "session ?i (taken_by es ! ?i) (filter (event_of ?i) es @ [?ev]) (ConnServing x rp c l')"
      by (auto intro: session_runs)
    then have "serve_trace p w (es @ [?ev])
        (s\<lparr>ac_conns := (ac_conns s)[?i := ConnServing x rp c l'], ac_world := srv_world l'\<rparr>)"
      by (intro serve_trace_conn [OF assms(2)]) (use conn_serves in auto)
    then show ?thesis using conn_serves by auto
  next
    case (conn_ends xs x rp c l ys r)
    let ?i = "length xs" and ?ev = "Stops (length xs) (closing_down s) x"
    have was: "session ?i (taken_by es ! ?i) (filter (event_of ?i) es) (ConnServing x rp c l)"
      using old [of ?i] conn_ends by simp
    with session_routine [OF was] conn_ends have "session ?i (taken_by es ! ?i) (filter (event_of ?i) es @ [?ev]) (ConnEnded x)"
      by (auto intro: session_stops)
    then have "serve_trace p w (es @ [?ev])
        (s\<lparr>ac_conns := (ac_conns s)[?i := ConnEnded x], ac_world := sl_connStop p x None (ac_world s)\<rparr>)"
      by (intro serve_trace_conn [OF assms(2)]) (use conn_ends in auto)
    then show ?thesis using conn_ends by auto
  next
    case (serve_returns e)
    with assms(2) have "serve_trace p w es t" by (simp add: serve_trace_def)
    then show ?thesis ..
  qed
qed

lemma serve_trace_reachable:
  assumes "(serve_step p)\<^sup>*\<^sup>* (serve_start w) s"
  shows "\<exists>es. serve_trace p w es s"
  using assms
proof (induction rule: rtranclp_induct)
  case base
  show ?case by (rule exI) (rule serve_trace_start)
next
  case (step s t)
  then show ?case using serve_trace_step by metis
qed

lemma conn_over_session: "session i x es r \<Longrightarrow> conn_over r \<Longrightarrow> r = ConnEnded x"
  by (auto dest: session_routine)

text \<open>The run of the server of one connection, while nothing else happens.\<close>

lemma server_runs:
  assumes "(srv_step rp (conn_err p (closing_down s) x) c)\<^sup>*\<^sup>* l l'" "ac_conns s = xs @ ConnServing x rp c l # ys"
    and "srv_world l = ac_world s"
  shows "(serve_step p)\<^sup>*\<^sup>* s (s\<lparr>ac_conns := xs @ ConnServing x rp c l' # ys, ac_world := srv_world l'\<rparr>)"
  using assms(1)
proof (induction rule: rtranclp_induct)
  case base
  have "s\<lparr>ac_conns := xs @ ConnServing x rp c l # ys, ac_world := srv_world l\<rparr> = s" using assms(2,3) by simp
  then show ?case by simp
next
  case (step l1 l2)
  let ?s = "s\<lparr>ac_conns := xs @ ConnServing x rp c l1 # ys, ac_world := srv_world l1\<rparr>"
  have "serve_step p ?s (?s\<lparr>ac_conns := xs @ ConnServing x rp c l2 # ys, ac_world := srv_world l2\<rparr>)"
    by (rule serve_step.conn_serves [where l = l1]) (use step.hyps(2) in simp_all)
  with step.IH show ?case by (simp add: rtranclp.rtrancl_into_rtrancl)
qed

end
