(* ===== verification/ServerProps.thy ===== *)
theory ServerProps
  imports PacketServe SessionProps ConnServe
begin

text \<open>
  The properties of the multiplexer, of the responses the server builds, of the accept loop, of packet servers, and
  of the address a URI gives.
\<close>

section \<open>The multiplexer\<close>

text \<open>The operations on a multiplexer, and what they do to its abstraction: registering keeps the
  handler that is there.\<close>

datatype 'w mux_op =
    OpRegister bytes "'w Handler"
  | OpReplace bytes "'w Handler"
  | OpDelete bytes
  | OpDefault "'w Handler option"

fun mux_run :: "'w mux_op \<Rightarrow> 'w MethodMux \<Rightarrow> 'w MethodMux" where
  "mux_run (OpRegister m h) mm = snd (Mux_Register mm m h)"
| "mux_run (OpReplace m h) mm = Mux_Replace mm m h"
| "mux_run (OpDelete m) mm = Mux_Delete mm m"
| "mux_run (OpDefault d) mm = Mux_SetDefault mm d"

fun table_run :: "'w mux_op \<Rightarrow> 'w Handler option \<times> (bytes \<Rightarrow> 'w Handler option)
    \<Rightarrow> 'w Handler option \<times> (bytes \<Rightarrow> 'w Handler option)" where
  "table_run (OpRegister m h) (d, t) = (d, if t m = None then t(m \<mapsto> h) else t)"
| "table_run (OpReplace m h) (d, t) = (d, t(m \<mapsto> h))"
| "table_run (OpDelete m) (d, t) = (d, t(m := None))"
| "table_run (OpDefault d') (d, t) = (d', t)"

lemma mux_run_abs: "mux_abs (mux_run op mm) = table_run op (mux_abs mm)"
  by (cases op; cases "mux_abs mm") (auto simp: mux_abs_ops mux_abs_Register split: option.splits)

lemma mux_runs_abs: "mux_abs (fold mux_run ops mm) = fold table_run ops (mux_abs mm)"
  by (induction ops arbitrary: mm) (simp_all add: mux_run_abs)

lemma mux_runs_wf: "wf_mux mm \<Longrightarrow> wf_mux (fold mux_run ops mm)"
proof (induction ops arbitrary: mm)
  case (Cons op ops)
  then show ?case by (cases op) (simp_all add: wf_mux_ops)
qed simp

text \<open>C27: After any sequence of operations a multiplexer dispatches as the table those operations
  give: the handler of the method, else the default, else Method not found; and \<^verbatim>\<open>Methods\<close> lists the
  methods of the table, each once.\<close>

theorem mux_refines_table:
  "let mm = fold mux_run ops NewMethodMux; (d, t) = fold table_run ops (None, Map.empty) in
     Handle (MuxHandler mm) c q w =
       (case t (req_method q) of
          Some h \<Rightarrow> Handle h c q w
        | None \<Rightarrow> (case d of
            Some h \<Rightarrow> Handle h c q w
          | None \<Rightarrow> (HReturn (ResValue GNil) (Some (RpcErr ErrMethodNotFound)), w)))
     \<and> set (Mux_Methods mm) = dom t \<and> distinct (Mux_Methods mm)"
proof -
  let ?mm = "fold mux_run ops NewMethodMux :: 'a MethodMux"
  have abs: "mux_abs ?mm = fold table_run ops (None, Map.empty)"
    by (simp add: mux_runs_abs mux_abs_ops)
  have "wf_mux ?mm" by (rule mux_runs_wf) (simp add: wf_mux_ops)
  then have "distinct (Mux_Methods ?mm)" "set (Mux_Methods ?mm) = dom (snd (mux_abs ?mm))"
    by (simp_all add: wf_mux_def Mux_Methods_def mux_abs_def dom_map_of_conv_image_fst)
  then show ?thesis
    by (simp add: abs [symmetric] split_beta Let_def Mux_Handle_abs del: Mux_Handle.simps)
qed

section \<open>Responses\<close>

text \<open>The outcomes whose error, if it holds one of the package's error objects, does not hold a zero one.\<close>

fun nonzero_error :: "houtcome \<Rightarrow> bool" where
  "nonzero_error (HReturn res (Some e)) = (case errors_as_rpc e of Some je \<Rightarrow> err_present je | None \<Rightarrow> True)"
| "nonzero_error _ = True"

text \<open>C29: Whatever text a message is and whatever the handler does with it, short of returning a zero
  \<^verbatim>\<open>Error\<close>, what the server answers is either the response or the raw message the handler itself
  returned, unchanged, or a response the server built, which has exactly one of a result and an error, and the
  ID of the request, or null when the text is not a request.\<close>

theorem responses_well_formed:
  assumes "handleRequest rp c jr w = (Some v, w')"
    and "\<And>q. pd_request (rp_decoder rp) jr = Inr q \<Longrightarrow> nonzero_error (fst (Handle (rp_Handler rp) c q w))"
  shows "(\<exists>q own. pd_request (rp_decoder rp) jr = Inr q \<and> fst (Handle (rp_Handler rp) c q w) = HReturn (ResResponse own) None
        \<and> v = OutResponse own)
    \<or> (\<exists>q raw. pd_request (rp_decoder rp) jr = Inr q \<and> fst (Handle (rp_Handler rp) c q w) = HReturn (ResRaw raw) None
        \<and> v = OutRaw raw)
    \<or> (\<exists>r. v = OutResponse (Some r) \<and> wf_response r
        \<and> resp_id r = (case pd_request (rp_decoder rp) jr of Inr q \<Rightarrow> req_id q | Inl e \<Rightarrow> NewNullID))"
proof (cases "pd_request (rp_decoder rp) jr")
  case (Inl e)
  then show ?thesis
    using assms(1) by (auto simp: handleRequest_def invalid_request_def wf_response_def)
next
  case (Inr q)
  obtain out u where out: "Handle (rp_Handler rp) c q w = (out, u)" by fastforce
  then have fine: "nonzero_error out" using assms(2) [OF Inr] by simp
  have built: "wf_response (Request_ResponseWithError q (RpcErr ErrInternalError))"
    by (rule wf_response_error) simp
  show ?thesis
  proof (cases out)
    case (HPanic r)
    with assms(1) Inr out have "v = OutResponse (Some (Request_ResponseWithError q (RpcErr ErrInternalError)))"
      by (simp add: handleRequest_def)
    with built Inr show ?thesis by (simp add: Request_ResponseWithError_def)
  next
    case (HReturn res err)
    show ?thesis
    proof (cases err)
      case (Some e)
      with assms(1) Inr out HReturn have "v = OutResponse (Some (Request_ResponseWithError q e))"
        by (simp add: handleRequest_def split: if_splits)
      moreover have "wf_response (Request_ResponseWithError q e)"
        using fine HReturn Some by (intro wf_response_error) (simp split: option.splits)
      ultimately show ?thesis using Inr by (simp add: Request_ResponseWithError_def)
    next
      case None
      with assms(1) Inr out HReturn show ?thesis
        by (cases res) (auto simp: handleRequest_def Request_ResponseWithResult_def wf_response_result(1) [unfolded Request_ResponseWithResult_def]
            split: if_splits)
    qed
  qed
qed

definition crasher :: "'w handle_fn" where
  "crasher c req w = (HPanic (GStr ''boom''), w)"

theorem responses_well_formed_witness:
  "\<forall>c (w :: nat http_conn). \<exists>jr r w'. handleRequest (http_server (\<lambda>_ _ _ w. w) (NewHTTPHandler (NewFuncHandler crasher))) c jr w =
     (Some (OutResponse (Some r)), w') \<and> resp_id r = NewID (IdNum ''7'') \<and> wf_response r"
proof (intro allI)
  fix c and w :: "nat http_conn"
  let ?rp = "http_server (\<lambda>_ _ _ w. w) (NewHTTPHandler (NewFuncHandler crasher)) :: nat http_conn RPCServer"
  obtain b where b: "unmarshal_request b = Inr (received_request add_request)"
    using request_wire [OF add_sendable] by blast
  then have dec: "pd_request (rp_decoder ?rp) b = Inr (received_request add_request)"
    by simp
  have crash: "Handle (rp_Handler ?rp) c q u = (HPanic (GStr ''boom''), u)" for q u
    by (simp add: NewHTTPHandler_def lift_handler_def NewFuncHandler_def crasher_def)
  obtain w' where h: "handleRequest ?rp c b w = (Some (OutResponse (Some (Request_ResponseWithError
      (received_request add_request) (RpcErr ErrInternalError)))), w')"
    using dec crash by (simp add: handleRequest_def)
  have "wf_response (Request_ResponseWithError (received_request add_request) (RpcErr ErrInternalError))"
    using responses_well_formed [OF h] unfolding crash by auto
  moreover have "req_id (received_request add_request) = NewID (IdNum ''7'')"
    by code_simp
  ultimately show "\<exists>jr r w'. handleRequest ?rp c jr w = (Some (OutResponse (Some r)), w')
      \<and> resp_id r = NewID (IdNum ''7'') \<and> wf_response r"
    using h by (intro exI [of _ b] exI [of _ "Request_ResponseWithError (received_request add_request) (RpcErr ErrInternalError)"]) simp
qed

section \<open>The accept loop\<close>

text \<open>C31: When \<^verbatim>\<open>Serve\<close> has returned, what it did to the state is a sequence of events in which every
  connection the listener gave was served exactly once, after it was accepted: its server was built and
  bound, ran from its start to its end, and its context was then cancelled, whatever the other connections
  did in between. \<^verbatim>\<open>Serve\<close> accepted until the listener failed, cancelled the contexts then and not
  before, and returned that error joined with the error of the caller's context.\<close>

theorem serve_joins:
  assumes "(serve_step p)\<^sup>*\<^sup>* (serve_start w) s" "ac_phase s = Served r"
  shows "\<exists>es e. r = Some e \<and> serve_effects p w es (ac_world s) \<and> refused_with p w es e \<and> once_taken es
    \<and> ac_conns s = map ConnEnded (taken_by es)
    \<and> (\<forall>i < length (taken_by es). session i (taken_by es ! i) (filter (event_of i) es) (ConnEnded (taken_by es ! i)))"
proof -
  obtain es where es: "serve_trace p w es s" using serve_trace_reachable [OF assms(1)] ..
  have ended: "ac_conns s ! i = ConnEnded (taken_by es ! i)" if "i < length (ac_conns s)" for i
    using es assms(2) that conn_over_session by (fastforce simp: serve_trace_def list_all_length)
  then have "ac_conns s = map ConnEnded (taken_by es)"
    using es by (intro nth_equalityI) (simp_all add: serve_trace_def)
  with es assms(2) ended show ?thesis
    unfolding serve_trace_def by (intro exI [of _ es]) auto
qed

text \<open>A listener that gives a connection while the count stands at five, on which a client wrote three
  messages, and is then closed; the binder sets \<^verbatim>\<open>NoRoutines\<close> on the server of the connection.\<close>

definition tick_setup :: "(nat stream_world, unit) serve_setup" where
  "tick_setup = \<lparr>sl_slog = (\<lambda>_ _ _ w. w),
     sl_accept = (\<lambda>w. if sw_user w = 5 then (Inr (), w) else (Inl (Sentinel NetErrClosed), w)),
     sl_newDecoder = (\<lambda>_. io_decoder), sl_newEncoder = (\<lambda>_. io_encoder), sl_connStop = (\<lambda>_ _ w. w), sl_stopped = (\<lambda>_ _. False),
     sl_server = (NewServer 2 4 (on_user (NewFuncHandler counter) sw_user (\<lambda>u w. w\<lparr>sw_user := u\<rparr>)))
       \<lparr>sv_Binder := Some (NewFuncBinder (\<lambda>c rp stop w. (rp\<lparr>NoRoutines := True\<rparr>, w)))\<rparr>,
     sl_err = (\<lambda>_. None), sl_ctx = background\<rparr>"

lemma tick_conn_server:
  "\<exists>c. conn_server tick_setup False () w = ((tick_server, c), w)"
proof -
  have "NewStreamServer (\<lambda>_ _ _ w. w) io_decoder io_encoder (on_user (NewFuncHandler counter) sw_user (\<lambda>u w. w\<lparr>sw_user := u\<rparr>)) =
      NewStreamServerFromIO (\<lambda>_ _ _ w. w) (NewFuncHandler counter)"
    by (simp add: NewStreamServerFromIO_def)
  then show ?thesis
    by (simp add: conn_server_def connection_server_def tick_setup_def tick_server_def NewServer_def Let_def)
qed

lemma tick_runs: "\<exists>e w. Run_sync tick_server (handle_all tick_server) (\<lambda>_. None) c tick_start = Some (e, w) \<and> sw_user w = 8"
proof -
  let ?outs = "map (\<lambda>n. HReturn (ResValue (GInt n)) None) [5, 6, 7]"
  obtain vs where vs: "mapM marshal_request three_calls = Inr vs" "\<forall>v \<in> set vs. framed v \<and> HintType v = TypeObject"
    "list_all2 (\<lambda>v q. unmarshal_request v = Inr q) vs (map received_request three_calls)"
    using requests_lines [of three_calls] three_ready(1) unfolding list_all_iff by blast
  obtain bs where bs: "mapM marshal_response (replies (map received_request three_calls) ?outs) = Inr bs"
    using responses_lines [OF three_ready(2) [unfolded list_all_iff]] by blast
  have sent: "snd (encode_seq (map (\<lambda>r. (ctx_env background, OutRequest r)) three_calls) marshal_outgoing (NewStreamEncoder PlainWriter) []) =
      concat (map line_of vs)"
    using encoded_requests [OF vs(1), of "NewStreamEncoder PlainWriter" "ctx_env background" "[]"] by (simp add: NewStreamEncoder_def)
  have "\<exists>e w'. Run_sync ((NewStreamServerFromIO (\<lambda>_ _ _ w. w) (NewFuncHandler counter))\<lparr>NoRoutines := True\<rparr>)
      (handle_all tick_server) (\<lambda>_. None) c \<lparr>sw_user = 5, sw_conn = sw_conn tick_start\<rparr> = Some (e, w')
      \<and> is_err e EOF \<and> sw_user w' = 8 \<and> io_sent (sw_conn w') = concat (map line_of bs)"
    by (rule stream_run [OF _ _ _ _ _ vs(2,3) counter_outcomes _ bs]) (simp_all add: tick_start_def sent)
  moreover have "\<lparr>sw_user = 5, sw_conn = sw_conn tick_start\<rparr> = tick_start" by (simp add: tick_start_def)
  ultimately show ?thesis by (auto simp: tick_server_def)
qed

lemma tick_served:
  "\<exists>s e. (serve_step tick_setup)\<^sup>*\<^sup>* (serve_start tick_start) s \<and> ac_phase s = Served (Some e) \<and> ac_conns s = [ConnEnded ()]
     \<and> sw_user (ac_world s) = 8"
proof -
  let ?step = "serve_step tick_setup"
  let ?at = "\<lambda>ph rs w. \<lparr>ac_phase = ph, ac_conns = rs, ac_world = w\<rparr> :: (nat stream_world, unit) accept_state"
  obtain c where c: "conn_server tick_setup False () tick_start = ((tick_server, c), tick_start)"
    using tick_conn_server by blast
  obtain e w where run: "Run_sync tick_server (handle_all tick_server) (\<lambda>_. None) c tick_start = Some (e, w)" "sw_user w = 8"
    using tick_runs by blast
  obtain l where l: "(srv_step tick_server (\<lambda>_. None) c)\<^sup>*\<^sup>* (srv_start tick_start) l" "srv_phase l = Returned e" "srv_world l = w"
    using Run_sync_steps [OF run(1) schedule_serial] by blast
  have live: "conn_err tick_setup False () = (\<lambda>_. None)"
    by (simp add: conn_err_def tick_setup_def fun_eq_iff)
  have "?step\<^sup>*\<^sup>* (serve_start tick_start) (?at Accepting [ConnReady ()] tick_start)"
    using serve_step.accept_conn [of "serve_start tick_start" tick_setup "()" tick_start]
    by (auto simp: serve_start_def tick_setup_def tick_start_def)
  also have "?step\<^sup>*\<^sup>* (?at Accepting [ConnReady ()] tick_start) (?at Accepting [ConnServing () tick_server c (srv_start tick_start)] tick_start)"
    using serve_step.conn_begins [of "?at Accepting [ConnReady ()] tick_start" "[]" "()" "[]" tick_setup] c by auto
  also have "?step\<^sup>*\<^sup>* (?at Accepting [ConnServing () tick_server c (srv_start tick_start)] tick_start)
      (?at Accepting [ConnServing () tick_server c l] w)"
    using server_runs [of tick_server tick_setup "?at Accepting [ConnServing () tick_server c (srv_start tick_start)] tick_start"
        "()" c "srv_start tick_start" l "[]" "[]"] l live by simp
  also have "?step\<^sup>*\<^sup>* (?at Accepting [ConnServing () tick_server c l] w) (?at Accepting [ConnEnded ()] w)"
    using serve_step.conn_ends [of "?at Accepting [ConnServing () tick_server c l] w" "[]" "()" tick_server c l "[]" e tick_setup] l(2)
    by (auto simp: tick_setup_def)
  also have "?step\<^sup>*\<^sup>* (?at Accepting [ConnEnded ()] w) (?at (Closing (Joined [Sentinel NetErrClosed])) [ConnEnded ()] w)"
    using serve_step.accept_fail [of "?at Accepting [ConnEnded ()] w" tick_setup "Sentinel NetErrClosed" w "Joined [Sentinel NetErrClosed]"] run(2)
    by (auto simp: tick_setup_def errors_join_def)
  also have "?step\<^sup>*\<^sup>* (?at (Closing (Joined [Sentinel NetErrClosed])) [ConnEnded ()] w)
      (?at (Served (Some (Joined [Sentinel NetErrClosed]))) [ConnEnded ()] w)"
    using serve_step.serve_returns [of "?at (Closing (Joined [Sentinel NetErrClosed])) [ConnEnded ()] w" "Joined [Sentinel NetErrClosed]" tick_setup]
    by auto
  finally show ?thesis
    using run(2) by (intro exI [of _ "?at (Served (Some (Joined [Sentinel NetErrClosed]))) [ConnEnded ()] w"]
        exI [of _ "Joined [Sentinel NetErrClosed]"]) simp
qed

theorem serve_joins_witness:
  "\<exists>s es e. (serve_step tick_setup)\<^sup>*\<^sup>* (serve_start tick_start) s \<and> ac_phase s = Served (Some e) \<and> sw_user (ac_world s) = 8
    \<and> serve_effects tick_setup tick_start es (ac_world s) \<and> taken_by es = [()]
    \<and> session 0 () (filter (event_of 0) es) (ConnEnded ())"
proof -
  obtain s e where s: "(serve_step tick_setup)\<^sup>*\<^sup>* (serve_start tick_start) s" "ac_phase s = Served (Some e)"
    "ac_conns s = [ConnEnded ()]" "sw_user (ac_world s) = 8"
    using tick_served by blast
  obtain es where es: "serve_effects tick_setup tick_start es (ac_world s)" "ac_conns s = map ConnEnded (taken_by es)"
    "\<forall>i < length (taken_by es). session i (taken_by es ! i) (filter (event_of i) es) (ConnEnded (taken_by es ! i))"
    using serve_joins [OF s(1,2)] by blast
  then have "taken_by es = [()]" using s(3) by auto
  with es s show ?thesis by (intro exI [of _ s] exI [of _ es] exI [of _ e]) auto
qed

section \<open>Packet servers\<close>

text \<open>C18: When \<^verbatim>\<open>ServePacket\<close> has returned, each of its routines has run the server it built to
  the end and has sent what that run returned to the channel once; the channel holds these errors in the
  order in which they were sent, and the error \<^verbatim>\<open>ServePacket\<close> returns is joined from them in that
  order, followed by the cause of the context. It is not nil when there was a routine.\<close>

theorem serve_packet_joins:
  assumes "packet_start p w = Some s" "(packet_step p)\<^sup>*\<^sup>* s t" "gr_result t = Some r"
  shows "\<exists>rs. gr_routines t = map Ended rs \<and> int (length rs) = sv_PacketRoutines (ps_server p)
    \<and> (\<forall>x \<in> set rs. \<exists>rp c l. routine_run p rp c l \<and> srv_phase l = Returned x)
    \<and> mset (gr_errs t) = mset rs
    \<and> (\<forall>u. (packet_step p)\<^sup>*\<^sup>* s u \<and> (packet_step p)\<^sup>*\<^sup>* u t \<longrightarrow> prefix (gr_errs u) (gr_errs t)
        \<and> mset (gr_errs u) = mset (concat (map routine_result (gr_routines u))))
    \<and> parts_of r = concat (map parts_of (gr_errs t)) @ parts_of (group_cause p t)
    \<and> (rs \<noteq> [] \<longrightarrow> r \<noteq> None \<and> group_cause p t \<noteq> None)"
proof -
  have inv: "group_counts p t" "group_stops t" "group_joins p t" "list_all (routine_good p) (gr_routines t)"
    using group_inv_reachable [OF assms(2,1)] by (simp_all add: group_inv_def)
  then have r: "gr_left t = 0" "list_all ended (gr_routines t)" "r = join_results (gr_errs t) (group_cause p t)"
    using assms(3) by (simp_all add: group_joins_def)
  obtain rs where rs: "gr_routines t = map Ended rs" using all_ended [OF r(2)] ..
  have sent: "mset (gr_errs u) = mset (concat (map routine_result (gr_routines u)))" if "(packet_step p)\<^sup>*\<^sup>* s u" for u
    using group_inv_reachable [OF that assms(1)] by (simp add: group_inv_def group_counts_def)
  have "group_cause p t \<noteq> None" if "rs \<noteq> []"
    using that inv(2) rs by (cases rs) (auto simp: group_stops_def group_cause_def)
  moreover from this have "r \<noteq> None" if "rs \<noteq> []"
    using that r(3) join_results_some by blast
  moreover have "concat (map routine_result (gr_routines t)) = rs" by (simp add: rs o_def)
  moreover have "\<forall>x \<in> set rs. \<exists>rp c l. routine_run p rp c l \<and> srv_phase l = Returned x"
    using inv(4) by (auto simp: rs list_all_iff)
  ultimately show ?thesis
    using inv(1) r(1) rs sent [OF assms(2)] sent channel_grows [of p _ t]
    by (intro exI [of _ rs]) (simp add: r(3) parts_of_results group_counts_def)
qed

text \<open>Two routines on a socket whose caller cancels the context after the first routine was spawned.\<close>

definition quiet_setup :: "(nat packet_world) packet_setup" where
  "quiet_setup = socket_setup (\<lambda>_ _ _ u. u) (NewServer 2 4 (NewFuncHandler crasher))"

definition quiet_start :: "(nat packet_world) group" where
  "quiet_start = \<lparr>gr_left = 2, gr_routines = [], gr_errs = [], gr_done = None, gr_result = None,
     gr_world = \<lparr>pw_user = 0, pw_in = [], pw_sent = [], pw_closed = False\<rparr>\<rparr>"

definition quiet_cancelled :: "(nat packet_world) group" where
  "quiet_cancelled = quiet_start\<lparr>gr_left := 1, gr_routines := [Unstarted],
     gr_done := Some (Sentinel Canceled, OtherErr ''shutting down'')\<rparr>"

lemma quiet_started:
  "packet_start quiet_setup \<lparr>pw_user = 0, pw_in = [], pw_sent = [], pw_closed = False\<rparr> = Some quiet_start"
  "(packet_step quiet_setup)\<^sup>*\<^sup>* quiet_start quiet_cancelled" "cancelled quiet_cancelled"
proof -
  show "packet_start quiet_setup \<lparr>pw_user = 0, pw_in = [], pw_sent = [], pw_closed = False\<rparr> = Some quiet_start"
    "cancelled quiet_cancelled"
    by (simp_all add: packet_start_def quiet_setup_def socket_setup_def NewServer_def quiet_start_def quiet_cancelled_def cancelled_def)
  let ?s = "quiet_start\<lparr>gr_left := 1, gr_routines := [Unstarted]\<rparr>"
  have "packet_step quiet_setup quiet_start ?s"
    using packet_step.spawn [of quiet_start 1 quiet_setup] by (simp add: quiet_start_def)
  moreover have "packet_step quiet_setup ?s (cancel_group quiet_setup (Sentinel Canceled, OtherErr ''shutting down'') ?s)"
    by (rule packet_step.caller_cancels) (simp_all add: quiet_start_def ctx_error_def)
  moreover have "cancel_group quiet_setup (Sentinel Canceled, OtherErr ''shutting down'') ?s = quiet_cancelled"
    by (simp add: cancel_group_def quiet_cancelled_def quiet_start_def quiet_setup_def socket_setup_def)
  ultimately show "(packet_step quiet_setup)\<^sup>*\<^sup>* quiet_start quiet_cancelled"
    by (simp add: converse_rtranclp_into_rtranclp)
qed

lemma quiet_conn: "packet_conn quiet_setup socket_recv packet_close"
  by unfold_locales (simp_all add: quiet_setup_def socket_setup_def socket_recv_plain NewServer_def)

theorem serve_packet_joins_witness:
  "\<exists>t r e1 e2 c. (packet_step quiet_setup)\<^sup>*\<^sup>* quiet_cancelled t \<and> gr_result t = Some r \<and> gr_errs t = [e1, e2]
    \<and> parts_of r = parts_of e1 @ parts_of e2 @ parts_of (Some c)"
proof -
  have "ending quiet_cancelled"
    by (simp add: ending_def quiet_started)
  then obtain t r where t: "(packet_step quiet_setup)\<^sup>*\<^sup>* quiet_cancelled t" "gr_result t = Some r"
    using packet_conn.packet_returns(1) [OF quiet_conn quiet_started(2,1)] by blast
  have two: "sv_PacketRoutines (ps_server quiet_setup) = 2"
    by (simp add: quiet_setup_def socket_setup_def NewServer_def)
  have "(packet_step quiet_setup)\<^sup>*\<^sup>* quiet_start t"
    using quiet_started(2) t(1) by (rule rtranclp_trans)
  from serve_packet_joins [OF quiet_started(1) this t(2)] obtain rs where rs: "length rs = 2" "mset (gr_errs t) = mset rs"
    "parts_of r = concat (map parts_of (gr_errs t)) @ parts_of (group_cause quiet_setup t)" "group_cause quiet_setup t \<noteq> None"
    unfolding two by auto
  then have "length (gr_errs t) = 2" by (metis size_mset)
  then obtain e1 e2 where "gr_errs t = [e1, e2]"
    by (metis (no_types) One_nat_def Suc_1 length_0_conv length_Suc_conv)
  moreover obtain c where "group_cause quiet_setup t = Some c" using rs(4) by blast
  ultimately show ?thesis
    using t rs(3) by (intro exI [of _ t] exI [of _ r] exI [of _ e1] exI [of _ e2] exI [of _ c]) simp
qed

text \<open>C19: Without a \<^verbatim>\<open>Binder\<close>, \<^verbatim>\<open>ServePacket\<close> ends when its context is cancelled, by the
  caller at whatever moment or by a routine, and when the \<^verbatim>\<open>Run\<close> of any of its routines has returned: it
  can always return from there, and once the context is cancelled no run is longer than ten steps for each
  routine, one for each message being handled, and one more.\<close>

theorem serve_packet_returns:
  assumes "ps_dec p = NewPacketDecoder recv close" "plain_errors recv" "sv_Binder (ps_server p) = None"
    and "packet_start p w = Some s" "(packet_step p)\<^sup>*\<^sup>* s t" "ending t"
  shows "(\<exists>u r. (packet_step p)\<^sup>*\<^sup>* t u \<and> gr_result u = Some r)
    \<and> (cancelled t \<longrightarrow> (\<forall>n u. (packet_step p ^^ n) t u
        \<longrightarrow> n \<le> Suc (10 * nat (sv_PacketRoutines (ps_server p)) + group_jobs t)))"
proof -
  have "packet_conn p recv close"
    using assms(1-3) by unfold_locales
  from packet_conn.packet_returns [OF this assms(5,4)] assms(6) show ?thesis by blast
qed

theorem serve_packet_returns_witness:
  "\<not> cancelled quiet_start \<and> (packet_step quiet_setup)\<^sup>*\<^sup>* quiet_start quiet_cancelled
    \<and> (\<exists>u r. (packet_step quiet_setup)\<^sup>*\<^sup>* quiet_cancelled u \<and> gr_result u = Some r)
    \<and> {n. \<exists>u. (packet_step quiet_setup ^^ n) quiet_cancelled u} \<subseteq> {..21}"
proof -
  have "ending quiet_cancelled" "\<not> cancelled quiet_start"
    by (simp_all add: ending_def quiet_started) (simp add: cancelled_def quiet_start_def)
  moreover have "group_jobs quiet_cancelled = 0" "sv_PacketRoutines (ps_server quiet_setup) = 2"
    by (simp_all add: quiet_cancelled_def group_jobs_def quiet_setup_def socket_setup_def NewServer_def)
  ultimately show ?thesis
    using serve_packet_returns [OF _ _ _ quiet_started(1,2), of socket_recv packet_close] quiet_conn quiet_started
    by (auto simp: packet_conn_def)
qed

section \<open>Addresses\<close>

text \<open>C39: For a URI of a TCP scheme the address that is listened on and dialled is what follows the
  scheme and the colon when the scheme is written in lower case; otherwise it is the whole URI, since
  \<^verbatim>\<open>url.Parse\<close> lowers the scheme that is then looked for.\<close>

theorem tcp_address:
  assumes "parse u = Inr uri" "u = s @ '':'' @ a" "length (url_Scheme uri) = length s"
    and "url_Scheme uri \<in> {''tcp'', ''tcp4'', ''tcp6''}"
  shows "ListenAndServe parse ops sv u w = listenAndServe ops (url_Scheme uri) (if s = url_Scheme uri then a else u) w
    \<and> DialTransport parse dops c u w = dial dops c (url_Scheme uri) (if s = url_Scheme uri then a else u) w"
proof -
  have "trim_prefix u (url_Scheme uri @ '':'') = (if s = url_Scheme uri then a else u)"
  proof (cases "s = url_Scheme uri")
    case True
    then show ?thesis
      using trim_prefix_append [of "s @ '':''" a] assms(2) by simp
  next
    case False
    then have "\<not> has_prefix u (url_Scheme uri @ '':'')"
      using assms(2,3) by (simp add: has_prefix_iff)
    with False show ?thesis by (simp add: trim_prefix_def)
  qed
  then show ?thesis
    using assms(1,4) by (auto simp: ListenAndServe_def DialTransport_def Let_def)
qed

text \<open>A listener that shows which address it was asked for.\<close>

definition asking_ops :: "(bytes list, unit, unit) net_ops" where
  "asking_ops = \<lparr>net_Listen = (\<lambda>n a w. (Inl (Sentinel NetErrClosed), a # w)),
     net_ListenPacket = (\<lambda>n a w. (Inl (Sentinel NetErrClosed), w)), net_Serve = (\<lambda>l w. (None, w)),
     net_ServePacket = (\<lambda>p w. (None, w)), net_ServeHTTP = (\<lambda>h w. (None, w))\<rparr>"

theorem tcp_address_witness:
  "let parse = (\<lambda>_. Inr \<lparr>url_Scheme = ''tcp'', url_Host = [], url_Path = []\<rparr>) in
     snd (ListenAndServe parse asking_ops (NewServer 1 1 (NewFuncHandler crasher)) ''TCP:h:1'' []) = [''TCP:h:1'']
     \<and> snd (ListenAndServe parse asking_ops (NewServer 1 1 (NewFuncHandler crasher)) ''tcp:h:1'' []) = [''h:1'']"
proof -
  let ?parse = "\<lambda>_. Inr \<lparr>url_Scheme = ''tcp'', url_Host = [], url_Path = []\<rparr>"
  have "ListenAndServe ?parse asking_ops (NewServer 1 1 (NewFuncHandler crasher)) (s @ '':'' @ ''h:1'') [] =
      listenAndServe asking_ops ''tcp'' (if s = ''tcp'' then ''h:1'' else s @ '':'' @ ''h:1'') []" if "length s = 3" for s
    using tcp_address [of ?parse "s @ '':'' @ ''h:1''", OF refl refl, THEN conjunct1, of asking_ops "NewServer 1 1 (NewFuncHandler crasher)" "[]"] that
    by simp
  from this [of "''TCP''"] this [of "''tcp''"] show ?thesis
    by (simp add: listenAndServe_def asking_ops_def)
qed

end
