(* ===== verification/SharedReads.thy ===== *)
theory SharedReads
  imports Interrupts
begin

text \<open>
  The routines of \<^verbatim>\<open>ServePacket\<close> read from one connection, whose read deadline they share: each call
  of \<^verbatim>\<open>DecodeFrom\<close> clears it, and each goroutine of \<^verbatim>\<open>context.AfterFunc\<close> sets it. Here the calls of all
  routines run step by step on that one deadline; a routine reads again after a message or a message it
  could not parse, and otherwise closes the connection and cancels the common context. What it does
  with a message is left out (PacketServe). A blocked read that is woken by a deadline which another call
  has cleared before it runs goes on waiting, as the poller of the runtime has it.
\<close>

subsection \<open>Readers of one connection\<close>

datatype read_stage = Blocked | Received datagram | Awaiting datagram

text \<open>A routine is about to call, in a call, leaving its loop, or gone; a call has its goroutine and
  \<^verbatim>\<open>dctx.Err()\<close>.\<close>

datatype reader = Ready | InCall read_stage after_func "go_error option" | Leaving go_error | Gone go_error

record shared =
  sh_readers :: "reader list"
  sh_io :: recv_io
  sh_deadline :: bool
  sh_closed :: bool
  sh_cancel :: "go_error option"

text \<open>What the loop of \<^verbatim>\<open>Run\<close> does with the result of a call.\<close>

definition next_reader :: "bytes option \<times> bytes \<times> go_error option \<Rightarrow> reader" where
  "next_reader res = (case res of (addr, raw, err) \<Rightarrow>
     (case err of
        None \<Rightarrow> Ready
      | Some e \<Rightarrow> if is_syntax_error e \<or> is_type_error e then Ready else Leaving e))"

inductive shared_step :: "PacketConnDecoder \<Rightarrow> go_error \<Rightarrow> (recv_io \<Rightarrow> recv_io \<Rightarrow> bool) \<Rightarrow> shared \<Rightarrow> shared \<Rightarrow> bool"
  for i :: PacketConnDecoder and timeout :: go_error and peer :: "recv_io \<Rightarrow> recv_io \<Rightarrow> bool" where
  begin_read: "\<lbrakk>sh_readers s = xs @ Ready # ys; \<not> sh_closed s\<rbrakk>
    \<Longrightarrow> shared_step i timeout peer s (s\<lparr>sh_readers := xs @ InCall Blocked
          (if sh_cancel s = None then Armed else Running) (sh_cancel s) # ys, sh_deadline := False\<rparr>)"
| begin_closed: "\<lbrakk>sh_readers s = xs @ Ready # ys; sh_closed s\<rbrakk>
    \<Longrightarrow> shared_step i timeout peer s (s\<lparr>sh_readers := xs @ Leaving (Sentinel NetErrClosed) # ys\<rparr>)"
| receive: "\<lbrakk>sh_readers s = xs @ InCall Blocked a e # ys;
      recv_from (if sh_closed s then Sentinel NetErrClosed else timeout) (sh_deadline s \<or> sh_closed s) (sh_io s)
        = Some (Inr (d, io'))\<rbrakk>
    \<Longrightarrow> shared_step i timeout peer s (s\<lparr>sh_readers := xs @ InCall (Received d) a e # ys, sh_io := io'\<rparr>)"
| peer_does: "peer (sh_io s) io' \<Longrightarrow> shared_step i timeout peer s (s\<lparr>sh_io := io'\<rparr>)"
| cancels: "\<lbrakk>sh_cancel s = None; ctx_error (Some e)\<rbrakk>
    \<Longrightarrow> shared_step i timeout peer s (s\<lparr>sh_cancel := Some e\<rparr>)"
| ctx_cancelled: "\<lbrakk>sh_readers s = xs @ InCall st a None # ys; sh_cancel s = Some e\<rbrakk>
    \<Longrightarrow> shared_step i timeout peer s (s\<lparr>sh_readers := xs @ InCall st a (Some e) # ys\<rparr>)"
| idle_ends: "\<lbrakk>sh_readers s = xs @ InCall st a None # ys; 0 < pcd_t i\<rbrakk>
    \<Longrightarrow> shared_step i timeout peer s (s\<lparr>sh_readers := xs @ InCall st a (Some (Sentinel DeadlineExceeded)) # ys\<rparr>)"
| func_starts: "sh_readers s = xs @ InCall st Armed (Some e) # ys
    \<Longrightarrow> shared_step i timeout peer s (s\<lparr>sh_readers := xs @ InCall st Running (Some e) # ys\<rparr>)"
| sets_deadline: "sh_readers s = xs @ InCall st Running e # ys
    \<Longrightarrow> shared_step i timeout peer s (s\<lparr>sh_readers := xs @ InCall st Ran e # ys, sh_deadline := True\<rparr>)"
| func_stops: "sh_readers s = xs @ InCall (Received d) Armed e # ys
    \<Longrightarrow> shared_step i timeout peer s (s\<lparr>sh_readers := xs @ next_reader (recv_report i False e d) # ys\<rparr>)"
| func_late: "\<lbrakk>sh_readers s = xs @ InCall (Received d) a e # ys; a = Running \<or> a = Ran\<rbrakk>
    \<Longrightarrow> shared_step i timeout peer s (s\<lparr>sh_readers := xs @ InCall (Awaiting d) a e # ys\<rparr>)"
| func_joined: "sh_readers s = xs @ InCall (Awaiting d) Ran e # ys
    \<Longrightarrow> shared_step i timeout peer s (s\<lparr>sh_readers := xs @ next_reader (recv_report i True e d) # ys\<rparr>)"
| leaves: "sh_readers s = xs @ Leaving e # ys
    \<Longrightarrow> shared_step i timeout peer s (s\<lparr>sh_readers := xs @ Gone e # ys, sh_closed := True\<rparr>)"
| stops: "\<lbrakk>sh_readers s = xs @ Gone e # ys; sh_cancel s = None\<rbrakk>
    \<Longrightarrow> shared_step i timeout peer s (s\<lparr>sh_cancel := Some (Sentinel Canceled)\<rparr>)"

definition shared_start :: "nat \<Rightarrow> datagram list \<Rightarrow> shared" where
  "shared_start n ds = \<lparr>sh_readers = replicate n Ready, sh_io = recv_start ds, sh_deadline = False,
     sh_closed = False, sh_cancel = None\<rparr>"

subsection \<open>The invariant\<close>

text \<open>The errors of a socket are not those of a parser.\<close>

definition plain_error :: "go_error \<Rightarrow> bool" where
  "plain_error e \<longleftrightarrow> \<not> is_syntax_error e \<and> \<not> is_type_error e"

fun plain_datagram :: "datagram \<Rightarrow> bool" where
  "plain_datagram (b, addr, err) = (case err of None \<Rightarrow> True | Some e \<Rightarrow> plain_error e)"

definition plain_posts :: "recv_io \<Rightarrow> recv_io \<Rightarrow> bool" where
  "plain_posts s t \<longleftrightarrow> (\<exists>d. plain_datagram d \<and> t = s\<lparr>vi_in := vi_in s @ [d], vi_sent := vi_sent s @ [d]\<rparr>)"

fun stage_ok :: "read_stage \<Rightarrow> after_func \<Rightarrow> bool" where
  "stage_ok Blocked a = True"
| "stage_ok (Received d) a = plain_datagram d"
| "stage_ok (Awaiting d) a = (plain_datagram d \<and> a \<noteq> Armed)"

fun reader_ok :: "reader \<Rightarrow> bool" where
  "reader_ok (InCall st a e) = (a \<noteq> Disarmed \<and> (a \<noteq> Armed \<longrightarrow> e \<noteq> None) \<and> (e = None \<or> ctx_error e) \<and> stage_ok st a)"
| "reader_ok _ = True"

fun gone :: "reader \<Rightarrow> bool" where
  "gone (Gone e) = True"
| "gone _ = False"

text \<open>A reader that may still set the deadline, or close the connection, on its own.\<close>

fun alert :: "reader \<Rightarrow> bool" where
  "alert (InCall st a e) = (a \<noteq> Ran)"
| "alert _ = True"

definition shared_inv :: "shared \<Rightarrow> bool" where
  "shared_inv s \<longleftrightarrow> list_all reader_ok (sh_readers s) \<and> list_all plain_datagram (vi_in (sh_io s))
     \<and> (sh_cancel s = None \<or> ctx_error (sh_cancel s))
     \<and> (\<not> sh_closed s \<longrightarrow> list_all (\<lambda>r. \<not> gone r) (sh_readers s))
     \<and> (sh_deadline s \<or> sh_readers s = [] \<or> (\<exists>r \<in> set (sh_readers s). alert r))"

lemma next_reader_ok: "reader_ok (next_reader res) \<and> alert (next_reader res) \<and> \<not> gone (next_reader res)"
  by (cases res) (auto simp: next_reader_def split: option.split)

lemma next_reader_ok_simps [simp]:
  "reader_ok (next_reader res)" "alert (next_reader res)" "\<not> gone (next_reader res)"
  using next_reader_ok by blast+

lemma recv_from_plain:
  assumes "recv_from err intr io = Some (Inr (d, io'))" "plain_error err" "list_all plain_datagram (vi_in io)"
  shows "plain_datagram d \<and> list_all plain_datagram (vi_in io')"
  using assms by (auto simp: recv_from_def split: if_splits list.splits)

lemma plain_closed: "plain_error (Sentinel s)"
  by (simp add: plain_error_def is_syntax_error_def is_type_error_def)

lemma shared_inv_start: "list_all plain_datagram ds \<Longrightarrow> shared_inv (shared_start n ds)"
  by (cases n) (auto simp: shared_inv_def shared_start_def recv_start_def list_all_iff)

lemma stage_ok_mono: "stage_ok st a \<Longrightarrow> b \<noteq> Armed \<Longrightarrow> stage_ok st b"
  by (cases st) simp_all

lemma shared_inv_step:
  assumes "shared_step i timeout peer s t" "shared_inv s" "plain_error timeout" "\<And>a b. peer a b \<Longrightarrow> plain_posts a b"
  shows "shared_inv t"
  using assms(1)
proof (cases rule: shared_step.cases)
  case (receive xs a e ys d io')
  have "plain_error (if sh_closed s then Sentinel NetErrClosed else timeout)"
    using assms(3) plain_closed by simp
  from recv_from_plain [OF receive(3) this] receive assms(2) show ?thesis
    by (auto simp: shared_inv_def)
next
  case (peer_does io')
  with assms(4) [OF peer_does(2)] assms(2) show ?thesis
    by (auto simp: shared_inv_def plain_posts_def)
qed (use assms(2) in \<open>auto simp: shared_inv_def ctx_error_def intro: stage_ok_mono\<close>)

lemma shared_inv_reachable:
  assumes "(shared_step i timeout peer)\<^sup>*\<^sup>* s t" "shared_inv s" "plain_error timeout" "\<And>a b. peer a b \<Longrightarrow> plain_posts a b"
  shows "shared_inv t"
  using assms(1,2) by (induction rule: rtranclp_induct) (auto intro: shared_inv_step [OF _ _ assms(3,4)])

subsection \<open>Under a cancelled context every routine leaves\<close>

fun stage_weight :: "read_stage \<Rightarrow> nat" where
  "stage_weight Blocked = 4"
| "stage_weight (Received d) = (if snd (snd d) = None then 11 else 3)"
| "stage_weight (Awaiting d) = 2"

fun reader_weight :: "reader \<Rightarrow> nat" where
  "reader_weight Ready = 8"
| "reader_weight (InCall st a e) = stage_weight st + (case a of Armed \<Rightarrow> 2 | Running \<Rightarrow> 1 | _ \<Rightarrow> 0)
     + (if e = None then 1 else 0)"
| "reader_weight (Leaving e) = 1"
| "reader_weight (Gone e) = 0"

definition shared_weight :: "shared \<Rightarrow> nat" where
  "shared_weight s = (if list_all gone (sh_readers s) then 0
     else sum_list (map reader_weight (sh_readers s)) + 8 * length (vi_in (sh_io s)))"

definition shared_cut :: "go_error \<Rightarrow> shared \<Rightarrow> bool" where
  "shared_cut timeout s \<longleftrightarrow> plain_error timeout \<and> shared_inv s \<and> sh_cancel s \<noteq> None"

lemma plain_joined: "plain_error e \<Longrightarrow> ctx_error (Some c) \<Longrightarrow> plain_error (Joined [e, c])"
  by (auto simp: plain_error_def is_syntax_error_def is_type_error_def ctx_error_def)

lemma next_late:
  assumes "plain_datagram d" "ctx_error e"
  shows "\<exists>x. next_reader (recv_report i True e d) = Leaving x"
proof -
  obtain c where c: "e = Some (Sentinel c)" using assms(2) by (auto simp: ctx_error_def)
  obtain b addr err where d: "d = (b, addr, err)" by (cases d)
  obtain x where x: "errors_join [err, e] = Some x"
    using c by (cases err) (auto simp: errors_join_def Let_def)
  then have "\<not> is_syntax_error x \<and> \<not> is_type_error x"
    using assms(1) c d by (cases err) (auto simp: errors_join_def plain_error_def is_syntax_error_def is_type_error_def)
  with x show ?thesis
    by (simp add: recv_report_def PacketConn_DecodeFrom_def d next_reader_def Let_def)
qed

lemma next_failed:
  assumes "plain_datagram d" "snd (snd d) \<noteq> None"
  shows "\<exists>x. next_reader (recv_report i False e d) = Leaving x"
  using assms by (cases d) (auto simp: recv_report_def PacketConn_DecodeFrom_def next_reader_def plain_error_def Let_def)

lemma next_weight: "reader_weight (next_reader res) \<le> 8"
  by (cases res) (auto simp: next_reader_def split: option.split)

lemma received_weight:
  assumes "recv_from err intr io = Some (Inr (d, io'))"
  shows "stage_weight (Received d) + 8 * length (vi_in io') < 4 + 8 * length (vi_in io)"
  using assms by (auto simp: recv_from_def split: if_splits list.splits)

definition readers_weight :: "shared \<Rightarrow> nat" where
  "readers_weight s = sum_list (map reader_weight (sh_readers s)) + 8 * length (vi_in (sh_io s))"

lemma readers_lowers:
  assumes "shared_step i timeout silent s t" "shared_cut timeout s"
  shows "readers_weight t < readers_weight s"
  using assms(1)
proof (cases rule: shared_step.cases)
  case (receive xs a e ys d io')
  then show ?thesis
    using received_weight [OF receive(3)] by (simp add: readers_weight_def)
next
  case (func_stops xs d e ys)
  then have "plain_datagram d"
    using assms(2) by (simp add: shared_cut_def shared_inv_def)
  then show ?thesis
    using func_stops next_weight [of "recv_report i False e d"] next_failed [of d i e]
    by (auto simp: readers_weight_def)
next
  case (func_joined xs d e ys)
  then have "plain_datagram d" "ctx_error e"
    using assms(2) by (auto simp: shared_cut_def shared_inv_def)
  then obtain x where "next_reader (recv_report i True e d) = Leaving x"
    using next_late [of d e i] by blast
  with func_joined show ?thesis
    by (simp add: readers_weight_def)
qed (use assms(2) in \<open>auto simp: readers_weight_def shared_cut_def shared_inv_def silent_def\<close>)

lemma gone_weight: "reader_weight r = 0 \<longleftrightarrow> gone r"
proof (cases r)
  case (InCall st a e)
  then show ?thesis by (cases st) simp_all
qed simp_all

lemma shared_lowers:
  assumes "shared_step i timeout silent s t" "shared_cut timeout s"
  shows "shared_weight t < shared_weight s"
proof -
  have "\<not> list_all gone (sh_readers s)"
    using assms by (auto simp: shared_cut_def shared_inv_def silent_def elim!: shared_step.cases)
  moreover have "shared_weight t \<le> readers_weight t"
    by (simp add: shared_weight_def readers_weight_def)
  ultimately show ?thesis
    using readers_lowers [OF assms] by (simp add: shared_weight_def readers_weight_def)
qed

lemma alert_enabled:
  assumes "sh_readers s = xs @ r # ys" "alert r" "\<not> gone r" "reader_ok r" "sh_cancel s \<noteq> None"
  shows "\<exists>t. shared_step i timeout silent s t"
proof (cases r)
  case Ready
  with assms(1) show ?thesis
    by (cases "sh_closed s") (blast intro: shared_step.begin_read shared_step.begin_closed)+
next
  case (InCall st a e)
  then consider "a = Running" | "a = Armed" "e = None" | x where "a = Armed" "e = Some x"
    using assms(2,4) by (cases a; cases e) auto
  then show ?thesis
    using assms(1,5) InCall
    by cases (blast intro: shared_step.sets_deadline, blast intro: shared_step.ctx_cancelled,
        blast intro: shared_step.func_starts)
qed (use assms in \<open>auto intro: shared_step.leaves\<close>)

lemma ran_enabled:
  assumes "sh_readers s = xs @ InCall st Ran e # ys" "sh_deadline s \<or> sh_closed s"
  shows "\<exists>t. shared_step i timeout silent s t"
proof (cases st)
  case Blocked
  with assms show ?thesis
    using shared_step.receive [where s = s] by (fastforce simp: recv_from_def)
qed (use assms(1) in \<open>auto intro: shared_step.func_late shared_step.func_joined\<close>)

lemma shared_enabled:
  assumes "shared_cut timeout s" "shared_weight s \<noteq> 0"
  shows "\<exists>t. shared_step i timeout silent s t"
proof -
  have inv: "shared_inv s" "sh_cancel s \<noteq> None"
    using assms(1) by (simp_all add: shared_cut_def)
  obtain r where r: "r \<in> set (sh_readers s)" "\<not> gone r"
    using assms(2) by (auto simp: shared_weight_def list_all_iff split: if_splits)
  show ?thesis
  proof (cases "\<exists>q \<in> set (sh_readers s). alert q \<and> \<not> gone q")
    case True
    then obtain q xs ys where q: "sh_readers s = xs @ q # ys" "alert q" "\<not> gone q"
      using split_list by metis
    moreover have "reader_ok q"
      using inv(1) q(1) by (simp add: shared_inv_def)
    ultimately show ?thesis
      using inv(2) by (rule alert_enabled)
  next
    case False
    then obtain st e where ran: "r = InCall st Ran e"
      using r by (cases r) auto
    have "sh_deadline s \<or> sh_closed s"
      using inv(1) False r(1) unfolding shared_inv_def list_all_iff by (metis empty_iff empty_set)
    moreover obtain xs ys where "sh_readers s = xs @ r # ys"
      using split_list [OF r(1)] by blast
    ultimately show ?thesis
      using ran by (blast intro: ran_enabled)
  qed
qed

lemma shared_cut_step: "shared_cut timeout s \<Longrightarrow> shared_step i timeout silent s t \<Longrightarrow> shared_cut timeout t"
  using shared_inv_step [of i timeout silent s t]
  by (auto simp: shared_cut_def silent_def elim: shared_step.cases)

interpretation shared_reads: draining_within "shared_step i timeout silent" shared_weight "shared_cut timeout"
  for i :: PacketConnDecoder and timeout :: go_error
  by unfold_locales
     (rule shared_cut_step, assumption+, rule shared_lowers, assumption+, rule shared_enabled, assumption+)

lemma shared_weight_bound: "shared_weight s \<le> 14 * length (sh_readers s) + 8 * length (vi_in (sh_io s))"
proof -
  have "reader_weight r \<le> 14" for r
  proof (cases r)
    case (InCall st a e)
    then show ?thesis by (cases st; cases a) simp_all
  qed simp_all
  then have "sum_list (map reader_weight rs) \<le> 14 * length rs" for rs
    by (induction rs) (simp_all add: add_mono)
  then show ?thesis by (simp add: shared_weight_def)
qed

lemma shared_length: "(shared_step i timeout peer)\<^sup>*\<^sup>* s t \<Longrightarrow> length (sh_readers t) = length (sh_readers s)"
  by (induction rule: rtranclp_induct) (auto elim!: shared_step.cases)

lemma shared_cut_ends:
  assumes "shared_cut timeout s"
  shows "\<exists>t. (shared_step i timeout silent)\<^sup>*\<^sup>* s t \<and> list_all gone (sh_readers t)"
proof -
  obtain t where t: "(shared_step i timeout silent)\<^sup>*\<^sup>* s t" "shared_weight t = 0"
    using shared_reads.drains_within [OF assms] by blast
  then have "list_all gone (sh_readers t)"
    by (auto simp: shared_weight_def list_all_iff gone_weight split: if_splits)
  with t(1) show ?thesis by blast
qed

subsection \<open>Idle timeouts of readers that share a deadline\<close>

text \<open>Two readers of which the first has been idle too long: the goroutine of its call sets the deadline.\<close>

definition idle_decoder :: PacketConnDecoder where
  "idle_decoder = PacketDecoder_SetIdleTimeout NewPacketConnDecoder 1"

definition idle_reader :: reader where
  "idle_reader = InCall Blocked Ran (Some (Sentinel DeadlineExceeded))"

definition two_readers :: "reader \<Rightarrow> reader \<Rightarrow> bool \<Rightarrow> shared" where
  "two_readers r q b = (shared_start 0 [])\<lparr>sh_readers := [r, q], sh_deadline := b\<rparr>"

lemma two_started: "two_readers Ready Ready False = shared_start 2 []"
  by (simp add: two_readers_def shared_start_def numeral_2_eq_2)

lemma two_simps [simp]:
  "sh_readers (two_readers r q b) = [r, q]" "sh_deadline (two_readers r q b) = b" "sh_closed (two_readers r q b) = False"
  "sh_cancel (two_readers r q b) = None" "vi_in (sh_io (two_readers r q b)) = []"
  "(two_readers r q b)\<lparr>sh_readers := [r', q']\<rparr> = two_readers r' q' b"
  "(two_readers r q b)\<lparr>sh_deadline := b'\<rparr> = two_readers r q b'"
  "(two_readers r q b)\<lparr>sh_io := sh_io (two_readers r' q' b')\<rparr> = two_readers r q b"
  by (simp_all add: two_readers_def shared_start_def recv_start_def)

lemma first_begins: "shared_step i timeout peer (two_readers Ready q b) (two_readers (InCall Blocked Armed None) q False)"
  using shared_step.begin_read [of "two_readers Ready q b" "[]" "[q]" i timeout peer] by simp

lemma second_begins: "shared_step i timeout peer (two_readers r Ready b) (two_readers r (InCall Blocked Armed None) False)"
  using shared_step.begin_read [of "two_readers r Ready b" "[r]" "[]" i timeout peer] by simp

lemma first_idle:
  "(shared_step idle_decoder timeout peer)\<^sup>*\<^sup>* (two_readers (InCall Blocked Armed None) q b) (two_readers idle_reader q True)"
proof -
  let ?e = "Some (Sentinel DeadlineExceeded)"
  have "shared_step idle_decoder timeout peer (two_readers (InCall Blocked Armed None) q b) (two_readers (InCall Blocked Armed ?e) q b)"
    using shared_step.idle_ends [of "two_readers (InCall Blocked Armed None) q b" "[]" Blocked Armed "[q]" idle_decoder timeout peer]
    by (simp add: idle_decoder_def PacketDecoder_SetIdleTimeout_def)
  moreover have "shared_step idle_decoder timeout peer (two_readers (InCall Blocked Armed ?e) q b) (two_readers (InCall Blocked Running ?e) q b)"
    using shared_step.func_starts [of "two_readers (InCall Blocked Armed ?e) q b" "[]" Blocked _ "[q]" idle_decoder timeout peer]
    by simp
  moreover have "shared_step idle_decoder timeout peer (two_readers (InCall Blocked Running ?e) q b) (two_readers idle_reader q True)"
    using shared_step.sets_deadline [of "two_readers (InCall Blocked Running ?e) q b" "[]" Blocked ?e "[q]" idle_decoder timeout peer]
    by (simp add: idle_reader_def)
  ultimately show ?thesis by (meson converse_rtranclp_into_rtranclp rtranclp.rtrancl_refl)
qed

text \<open>The second reader begins a call: it clears the deadline, and the first goes on waiting.\<close>

lemma timeout_lost:
  "(shared_step idle_decoder timeout peer)\<^sup>*\<^sup>* (shared_start 2 []) (two_readers idle_reader (InCall Blocked Armed None) False)"
  using converse_rtranclp_into_rtranclp [OF first_begins rtranclp.rtrancl_into_rtrancl [OF first_idle second_begins]]
  by (simp add: two_started [symmetric])

text \<open>The second reader is in a call: it is interrupted although its own context has not ended.\<close>

lemma timeout_strays:
  assumes "plain_error timeout"
  shows "(shared_step idle_decoder timeout peer)\<^sup>*\<^sup>* (shared_start 2 []) (two_readers idle_reader (Leaving timeout) True)"
proof -
  let ?d = "([], None, Some timeout)"
  have "shared_step idle_decoder timeout peer (two_readers idle_reader (InCall Blocked Armed None) True)
      (two_readers idle_reader (InCall (Received ?d) Armed None) True)"
    using shared_step.receive [of "two_readers idle_reader (InCall Blocked Armed None) True" "[idle_reader]" Armed None "[]"
        timeout ?d "sh_io (two_readers idle_reader (InCall Blocked Armed None) True)" idle_decoder peer]
    by (simp add: recv_from_def)
  moreover have "shared_step idle_decoder timeout peer (two_readers idle_reader (InCall (Received ?d) Armed None) True)
      (two_readers idle_reader (Leaving timeout) True)"
    using shared_step.func_stops [of "two_readers idle_reader (InCall (Received ?d) Armed None) True" "[idle_reader]" ?d None "[]"
        idle_decoder timeout peer] assms
    by (simp add: recv_report_def PacketConn_DecodeFrom_def next_reader_def plain_error_def Let_def)
  ultimately show ?thesis
    using first_begins second_begins first_idle two_started
    by (metis (no_types, lifting) converse_rtranclp_into_rtranclp rtranclp.rtrancl_into_rtrancl)
qed

end
