(* ===== verification/InterruptProps.thy ===== *)
theory InterruptProps
  imports SharedReads
begin

text \<open>
  The properties of calls that are interrupted: what they return, that they can return, and that they
  leave no goroutine behind that would disturb a later call; and of the calls that share the deadline of
  one packet connection.
\<close>

section \<open>Interrupted calls\<close>

text \<open>C12: A call of \<^verbatim>\<open>Decode\<close> on a reader that can be closed, run step by step beside its peer, the
  timer of its context and the goroutine that interrupts it, returns what the function \<open>Decoder_Decode\<close> returns
  on the reads it made, and leaves the decoder in the same state. The reads are the bytes and errors the peer
  sent, in order and none lost, with the error of the interrupt after them only if the context had ended; the
  error that is joined is the context's.\<close>

theorem decode_interrupt_refines:
  assumes "(call_step (decode_io timeout) peer_sends decode_report)\<^sup>*\<^sup>* (call_start e0 (decode_start i)) s"
    and "e0 = None \<or> ctx_error e0" "sd_kind i = ReadCloser \<or> sd_kind i = DeadlineReader" "cs_phase s = Finished x"
  shows "\<exists>reads brk e. Decoder_Decode \<lparr>env_clear_err = None, env_ctx_err = e\<rparr>
        (i\<lparr>sd_r := reads @ (if brk then [RFail timeout] else [])\<rparr>) = (x, (ri_dec (cs_io s))\<lparr>sd_r := []\<rparr>)
    \<and> data_of reads @ data_of (sd_r (ri_dec (cs_io s))) = data_of (ri_sent (cs_io s))
    \<and> (\<forall>f. RFail f \<in> set reads \<longrightarrow> RFail f \<in> set (ri_sent (cs_io s)))
    \<and> (brk \<longrightarrow> e \<noteq> None) \<and> (e = None \<or> e = cs_err s)"
  using assms by (rule decode_call_refines)

text \<open>A cancelled call on a connection whose peer is silent.\<close>

definition cut_decode :: "(read_io, go_error + bytes, go_error + bytes) call_state" where
  "cut_decode = call_start (Some (Sentinel Canceled)) (decode_start (NewStreamDecoder DeadlineReader []))"

lemma cut_decode_inv: "call_inv cut_decode" "cs_err cut_decode \<noteq> None"
  by (simp_all add: cut_decode_def call_inv_start ctx_error_def) (simp add: call_start_def)

lemma cut_decode_returns:
  "\<exists>s x. (call_step (decode_io (Sentinel OSErrClosed)) peer_sends decode_report)\<^sup>*\<^sup>* cut_decode s \<and> cs_phase s = Finished x"
  using decode_call.cut_returns(1) [OF cut_decode_inv, of "Sentinel OSErrClosed" decode_report] silent_run by blast

theorem decode_interrupt_refines_witness:
  "\<exists>s x reads brk e. (call_step (decode_io (Sentinel OSErrClosed)) peer_sends decode_report)\<^sup>*\<^sup>* cut_decode s
    \<and> cs_phase s = Finished x
    \<and> Decoder_Decode \<lparr>env_clear_err = None, env_ctx_err = e\<rparr>
        ((NewStreamDecoder DeadlineReader [])\<lparr>sd_r := reads @ (if brk then [RFail (Sentinel OSErrClosed)] else [])\<rparr>) =
      (x, (ri_dec (cs_io s))\<lparr>sd_r := []\<rparr>)"
proof -
  obtain s x where s: "(call_step (decode_io (Sentinel OSErrClosed)) peer_sends decode_report)\<^sup>*\<^sup>* cut_decode s"
    "cs_phase s = Finished x"
    using cut_decode_returns by blast
  have "Some (Sentinel Canceled) = None \<or> ctx_error (Some (Sentinel Canceled))"
    "sd_kind (NewStreamDecoder DeadlineReader []) = ReadCloser \<or> sd_kind (NewStreamDecoder DeadlineReader []) = DeadlineReader"
    by (simp_all add: ctx_error_def NewStreamDecoder_def)
  from decode_interrupt_refines [OF s(1) [unfolded cut_decode_def] this s(2)] s show ?thesis
    by blast
qed

text \<open>A call of \<^verbatim>\<open>Encode\<close> on a writer that can be closed, run step by step, returns what the
  function \<open>Encoder_Encode\<close> returns for a writer that takes a prefix of the text, and has written exactly that
  prefix: all of it if there was no error, and otherwise the error is that of a broken connection, or of the
  interrupt if the context had ended; it stays in the encoder.\<close>

theorem encode_interrupt_refines:
  assumes "(call_step (encode_io mar v timeout) peer_takes encode_report)\<^sup>*\<^sup>* (call_start e0 (encode_start i w room)) s"
    and "e0 = None \<or> ctx_error e0" "se_kind i = WriteCloser \<or> se_kind i = DeadlineWriter" "cs_phase s = Finished x"
  shows "\<exists>err k e. Encoder_Encode \<lparr>env_clear_err = None, env_ctx_err = e\<rparr> mar (partial_write err k) i v w =
        (x, wi_enc (cs_io s), wi_out (cs_io s))
    \<and> write_ended mar v timeout (e \<noteq> None) err k (cs_io s) \<and> (e = None \<or> e = cs_err s)"
  using assms by (rule encode_call_refines)

theorem encode_interrupt_refines_witness:
  "\<exists>s x err k e. (call_step (encode_io Inr ''{}'' (Sentinel OSErrClosed)) peer_takes encode_report)\<^sup>*\<^sup>*
      (call_start (Some (Sentinel DeadlineExceeded)) (encode_start (NewStreamEncoder DeadlineWriter) [] 1)) s
    \<and> cs_phase s = Finished x
    \<and> Encoder_Encode \<lparr>env_clear_err = None, env_ctx_err = e\<rparr> Inr (partial_write err k) (NewStreamEncoder DeadlineWriter)
        ''{}'' [] = (x, wi_enc (cs_io s), wi_out (cs_io s))"
proof -
  let ?s0 = "call_start (Some (Sentinel DeadlineExceeded)) (encode_start (NewStreamEncoder DeadlineWriter) [] 1)
    :: (write_io, go_error option, go_error option) call_state"
  have "call_inv ?s0" "cs_err ?s0 \<noteq> None"
    by (simp_all add: call_inv_start ctx_error_def) (simp add: call_start_def)
  from encode_call.cut_returns(1) [OF this, of Inr "''{}''" "Sentinel OSErrClosed" encode_report] silent_run
  obtain s x where s: "(call_step (encode_io Inr ''{}'' (Sentinel OSErrClosed)) peer_takes encode_report)\<^sup>*\<^sup>* ?s0 s"
    "cs_phase s = Finished x"
    by blast
  have "Some (Sentinel DeadlineExceeded) = None \<or> ctx_error (Some (Sentinel DeadlineExceeded))"
    "se_kind (NewStreamEncoder DeadlineWriter) = WriteCloser \<or> se_kind (NewStreamEncoder DeadlineWriter) = DeadlineWriter"
    by (simp_all add: ctx_error_def NewStreamEncoder_def)
  from encode_interrupt_refines [OF s(1) this s(2)] s show ?thesis
    by blast
qed

text \<open>C23: Once a guarded call has returned, its goroutine has run or never will: whatever happens next,
  the call does not set the deadline (or close the connection) any more, so it cannot interrupt a later
  call; and it was interrupted only if its context had ended.\<close>

theorem no_stray_deadline:
  assumes "(call_step io peer report)\<^sup>*\<^sup>* (call_start e0 i) s" "e0 = None \<or> ctx_error e0" "cs_phase s = Finished x"
    and "(call_step io peer report)\<^sup>*\<^sup>* s t"
  shows "(cs_after s = Ran \<or> cs_after s = Disarmed) \<and> (cs_interrupted s \<longrightarrow> ctx_error (cs_err s))
    \<and> cs_phase t = Finished x \<and> cs_interrupted t = cs_interrupted s"
proof -
  have inv: "call_inv s" by (rule call_inv_reachable [OF assms(1) call_inv_start [OF assms(2)]])
  with finished_run [OF assms(4) inv assms(3)] assms(3) show ?thesis
    by (auto simp: call_inv_def)
qed

theorem no_stray_deadline_witness:
  "\<exists>s x. (call_step (decode_io (Sentinel OSErrClosed)) peer_sends decode_report)\<^sup>*\<^sup>* cut_decode s
    \<and> cs_phase s = Finished x \<and> (cs_after s = Ran \<or> cs_after s = Disarmed)"
proof -
  obtain s x where s: "(call_step (decode_io (Sentinel OSErrClosed)) peer_sends decode_report)\<^sup>*\<^sup>* cut_decode s"
    "cs_phase s = Finished x"
    using cut_decode_returns by blast
  from no_stray_deadline [OF s(1) [unfolded cut_decode_def] _ s(2) rtranclp.rtrancl_refl] s show ?thesis
    by (auto simp: ctx_error_def)
qed

text \<open>Once the context of a \<^verbatim>\<open>Decode\<close> has ended the call can return without any help of its
  peer, and no run of it is longer than the bytes and reads still pending and seven steps.\<close>

theorem interrupted_decode_returns:
  assumes "(call_step (decode_io timeout) peer_sends decode_report)\<^sup>*\<^sup>* (call_start e0 (decode_start i)) s"
    and "e0 = None \<or> ctx_error e0" "cs_err s \<noteq> None"
  shows "(\<exists>t x. (call_step (decode_io timeout) silent decode_report)\<^sup>*\<^sup>* s t \<and> cs_phase t = Finished x)
    \<and> (\<forall>n t. (call_step (decode_io timeout) silent decode_report ^^ n) s t
        \<longrightarrow> n \<le> sum_list (map event_weight (sd_r (ri_dec (cs_io s)))) + 7)"
proof -
  have inv: "call_inv s" by (rule call_inv_reachable [OF assms(1) call_inv_start [OF assms(2)]])
  have "decode_weight (cs_io s) \<le> Suc (sum_list (map event_weight (sd_r (ri_dec (cs_io s)))))"
    by (simp add: decode_weight_def split: read_phase.split)
  then show ?thesis
    using decode_call.cut_returns [OF inv assms(3), where timeout = timeout and report = decode_report]
    by fastforce
qed

theorem interrupted_decode_returns_witness:
  "\<exists>t x. (call_step (decode_io (Sentinel OSErrClosed)) silent decode_report)\<^sup>*\<^sup>* cut_decode t \<and> cs_phase t = Finished x"
proof -
  have "ctx_error (Some (Sentinel Canceled))" by (simp add: ctx_error_def)
  then show ?thesis
    using interrupted_decode_returns [of "Sentinel OSErrClosed" "Some (Sentinel Canceled)"
        "NewStreamDecoder DeadlineReader []" cut_decode] cut_decode_inv(2)
    by (simp add: cut_decode_def)
qed

section \<open>Calls that share a deadline\<close>

text \<open>C24: The routines of a packet connection clear and set one read deadline. Still, once their common
  context has been cancelled, all of them can leave their loops without any help of the peer, wherever each of
  them is, and no run until then is longer than fourteen steps for each routine and eight for each
  datagram that has arrived: the routine that cleared the deadline last will set it again.\<close>

theorem shared_reads_end:
  assumes "(shared_step i timeout plain_posts)\<^sup>*\<^sup>* (shared_start k ds) s" "list_all plain_datagram ds"
    and "plain_error timeout" "sh_cancel s \<noteq> None"
  shows "(\<exists>t. (shared_step i timeout silent)\<^sup>*\<^sup>* s t \<and> list_all gone (sh_readers t))
    \<and> (\<forall>n t. (shared_step i timeout silent ^^ n) s t \<longrightarrow> n \<le> 14 * k + 8 * length (vi_in (sh_io s)))"
proof -
  have cut: "shared_cut timeout s"
    using shared_inv_reachable [OF assms(1) shared_inv_start [OF assms(2)] assms(3)] assms(3,4)
    by (simp add: shared_cut_def)
  have "length (sh_readers s) = k"
    using shared_length [OF assms(1)] by (simp add: shared_start_def)
  with shared_weight_bound [of s] have "n \<le> 14 * k + 8 * length (vi_in (sh_io s))"
    if "(shared_step i timeout silent ^^ n) s t" for n t
    using shared_reads.run_bounded_within [OF cut that] by simp
  with shared_cut_ends [OF cut] show ?thesis by blast
qed

theorem shared_reads_end_witness:
  "\<exists>t. (shared_step NewPacketConnDecoder (OtherErr ''i/o timeout'') silent)\<^sup>*\<^sup>*
      ((shared_start 2 [(''{}'', None, None)])\<lparr>sh_cancel := Some (Sentinel Canceled)\<rparr>) t \<and> list_all gone (sh_readers t)"
proof -
  let ?s = "shared_start 2 [(''{}'', None, None)]"
  have "shared_step NewPacketConnDecoder (OtherErr ''i/o timeout'') plain_posts ?s (?s\<lparr>sh_cancel := Some (Sentinel Canceled)\<rparr>)"
    by (rule shared_step.cancels) (simp_all add: shared_start_def ctx_error_def)
  then have "(shared_step NewPacketConnDecoder (OtherErr ''i/o timeout'') plain_posts)\<^sup>*\<^sup>* ?s (?s\<lparr>sh_cancel := Some (Sentinel Canceled)\<rparr>)" ..
  moreover have "plain_error (OtherErr ''i/o timeout'')"
    by (simp add: plain_error_def is_syntax_error_def is_type_error_def)
  ultimately show ?thesis
    using shared_reads_end [where k = 2 and ds = "[(''{}'', None, None)]"] by simp
qed

text \<open>C25: With an idle timeout the shared deadline goes wrong both ways. A routine whose timeout has
  set the deadline may go on waiting, since a call of another one has cleared it; and another one, whose context has not ended,
  may fail with a timeout and leave its loop, which closes the connection of both.\<close>

theorem idle_timeouts_stray:
  "(\<exists>s. (shared_step idle_decoder timeout silent)\<^sup>*\<^sup>* (shared_start 2 []) s
      \<and> sh_readers s = [InCall Blocked Ran (Some (Sentinel DeadlineExceeded)), InCall Blocked Armed None]
      \<and> \<not> sh_deadline s \<and> \<not> sh_closed s)
    \<and> (\<exists>s. (shared_step idle_decoder (OtherErr ''i/o timeout'') silent)\<^sup>*\<^sup>* (shared_start 2 []) s
      \<and> sh_readers s = [InCall Blocked Ran (Some (Sentinel DeadlineExceeded)), Leaving (OtherErr ''i/o timeout'')]
      \<and> sh_cancel s = None)"
proof -
  have "plain_error (OtherErr ''i/o timeout'')"
    by (simp add: plain_error_def is_syntax_error_def is_type_error_def)
  from timeout_strays [OF this, of silent] timeout_lost [of timeout silent] show ?thesis
    by (fastforce simp: idle_reader_def)
qed

end
