(* ===== verification/SharedMux.thy ===== *)
theory SharedMux
  imports Handlers
begin

text \<open>
  A method mux (handler.go) that is changed while it dispatches: \<^verbatim>\<open>Handle\<close> reads the map and then, if the
  method is not in it, the default, in two atomic steps, and other goroutines may change either between them.
\<close>

text \<open>One change of the mux; each is one atomic operation on the map or on the default.\<close>

inductive mux_change :: "'w MethodMux \<Rightarrow> 'w MethodMux \<Rightarrow> bool" where
  registers: "mux_change mm (snd (Mux_Register mm m h))"
| replaces: "mux_change mm (Mux_Replace mm m h)"
| deletes: "mux_change mm (Mux_Delete mm m)"
| sets_default: "mux_change mm (Mux_SetDefault mm d)"

text \<open>A dispatch has read nothing, has not found its method, or has chosen a handler, \<open>None\<close> for
  \<^verbatim>\<open>ErrMethodNotFound\<close>. It is kept with the states the mux has had, the last one its present state.\<close>

datatype 'w dispatch = Looking | Missed | Chosen "'w Handler option"

inductive mux_step :: "bytes \<Rightarrow> 'w dispatch \<times> 'w MethodMux list \<Rightarrow> 'w dispatch \<times> 'w MethodMux list \<Rightarrow> bool"
  for m :: bytes where
  finds: "map_of (mux (last ms)) m = Some h \<Longrightarrow> mux_step m (Looking, ms) (Chosen (Some h), ms)"
| misses: "map_of (mux (last ms)) m = None \<Longrightarrow> mux_step m (Looking, ms) (Missed, ms)"
| takes_default: "mux_step m (Missed, ms) (Chosen (defaultHandler (last ms)), ms)"
| changes: "mux_change (last ms) mm \<Longrightarrow> mux_step m (p, ms) (p, ms @ [mm])"

text \<open>What a mux that nobody changes dispatches to.\<close>

definition dispatches :: "'w MethodMux \<Rightarrow> bytes \<Rightarrow> 'w Handler option" where
  "dispatches mm m = (case map_of (mux mm) m of Some h \<Rightarrow> Some h | None \<Rightarrow> defaultHandler mm)"

lemma Mux_Handle_dispatches:
  "Mux_Handle mm c req w = (case dispatches mm (req_method req) of
     Some h \<Rightarrow> Handle h c req w
   | None \<Rightarrow> (HReturn (ResValue GNil) (Some (RpcErr ErrMethodNotFound)), w))"
  by (simp add: Mux_Handle_abs mux_abs_def dispatches_def split: option.split)

text \<open>\<open>seen_at m x ms\<close>: some state of \<open>ms\<close> had \<open>x\<close> for the method, or had no entry and it or a later one the default \<open>x\<close>.\<close>

definition seen_at :: "bytes \<Rightarrow> 'w Handler option \<Rightarrow> 'w MethodMux list \<Rightarrow> bool" where
  "seen_at m x ms \<longleftrightarrow> (\<exists>before mm later. ms = before @ mm # later
     \<and> (case map_of (mux mm) m of Some h \<Rightarrow> x = Some h | None \<Rightarrow> x \<in> defaultHandler ` set (mm # later)))"

definition missed_at :: "bytes \<Rightarrow> 'w MethodMux list \<Rightarrow> bool" where
  "missed_at m ms \<longleftrightarrow> (\<exists>before mm later. ms = before @ mm # later \<and> map_of (mux mm) m = None)"

definition dispatch_inv :: "bytes \<Rightarrow> 'w dispatch \<times> 'w MethodMux list \<Rightarrow> bool" where
  "dispatch_inv m s \<longleftrightarrow> snd s \<noteq> [] \<and> (case fst s of
     Looking \<Rightarrow> True | Missed \<Rightarrow> missed_at m (snd s) | Chosen x \<Rightarrow> seen_at m x (snd s))"

lemma seen_later: "seen_at m x ms \<Longrightarrow> seen_at m x (ms @ [mm])"
  unfolding seen_at_def by (elim exE conjE, rule exI, rule exI, rule_tac x = "later @ [mm]" in exI)
    (auto split: option.splits)

lemma missed_later: "missed_at m ms \<Longrightarrow> missed_at m (ms @ [mm])"
  unfolding missed_at_def by force

lemma split_last: "ms \<noteq> [] \<Longrightarrow> ms = butlast ms @ last ms # []"
  by simp

lemma found_seen: "ms \<noteq> [] \<Longrightarrow> map_of (mux (last ms)) m = Some h \<Longrightarrow> seen_at m (Some h) ms"
  unfolding seen_at_def using split_last [of ms] by fastforce

lemma missed_now: "ms \<noteq> [] \<Longrightarrow> map_of (mux (last ms)) m = None \<Longrightarrow> missed_at m ms"
  unfolding missed_at_def using split_last [of ms] by blast

lemma missed_seen:
  assumes "missed_at m ms"
  shows "seen_at m (defaultHandler (last ms)) ms"
proof -
  obtain before mm later where ms: "ms = before @ mm # later" "map_of (mux mm) m = None"
    using assms by (auto simp: missed_at_def)
  then have "last ms \<in> set (mm # later)" by simp
  with ms show ?thesis unfolding seen_at_def by force
qed

lemma dispatch_inv_step: "mux_step m s t \<Longrightarrow> dispatch_inv m s \<Longrightarrow> dispatch_inv m t"
  by (erule mux_step.cases)
    (auto simp: dispatch_inv_def intro: found_seen missed_now missed_seen seen_later missed_later split: dispatch.splits)

lemma dispatch_inv_reachable: "(mux_step m)\<^sup>*\<^sup>* s t \<Longrightarrow> dispatch_inv m s \<Longrightarrow> dispatch_inv m t"
  by (induction rule: rtranclp_induct) (auto intro: dispatch_inv_step)

lemma seen_fixed_default:
  assumes "seen_at m x ms" "\<forall>mm \<in> set ms. defaultHandler mm = d"
  shows "\<exists>mm \<in> set ms. dispatches mm m = x"
proof -
  obtain before mm later where ms: "ms = before @ mm # later"
    "case map_of (mux mm) m of Some h \<Rightarrow> x = Some h | None \<Rightarrow> x \<in> defaultHandler ` set (mm # later)"
    using assms(1) by (auto simp: seen_at_def)
  have "dispatches mm m = x"
  proof (cases "map_of (mux mm) m")
    case None
    with ms(2) obtain mm1 where "mm1 \<in> set (mm # later)" "x = defaultHandler mm1" by auto
    then show ?thesis using assms(2) ms(1) None by (auto simp: dispatches_def)
  qed (use ms(2) in \<open>simp add: dispatches_def\<close>)
  with ms(1) show ?thesis by auto
qed

text \<open>The race: between the two reads the method is registered, and then another handler is made the default.\<close>

lemma dispatch_race:
  assumes "h \<noteq> d"
  shows "\<exists>ms. (mux_step m)\<^sup>*\<^sup>* (Looking, [NewMethodMux]) (Chosen (Some d), ms) \<and> (\<forall>mm \<in> set ms. dispatches mm m \<noteq> Some d)"
proof -
  let ?m1 = "snd (Mux_Register NewMethodMux m h)"
  let ?m2 = "Mux_SetDefault ?m1 (Some d)"
  have "(mux_step m)\<^sup>*\<^sup>* (Looking, [NewMethodMux]) (Missed, [NewMethodMux])"
    by (rule r_into_rtranclp, rule mux_step.misses) (simp add: NewMethodMux_def)
  also have "mux_step m \<dots> (Missed, [NewMethodMux] @ [?m1])"
    by (rule mux_step.changes) (simp add: mux_change.registers)
  also have "mux_step m \<dots> (Missed, ([NewMethodMux] @ [?m1]) @ [?m2])"
    by (rule mux_step.changes) (simp add: mux_change.sets_default)
  also have "mux_step m \<dots> (Chosen (Some d), ([NewMethodMux] @ [?m1]) @ [?m2])"
    using mux_step.takes_default [of m "([NewMethodMux] @ [?m1]) @ [?m2]"] by (simp add: Mux_SetDefault_def)
  finally have "(mux_step m)\<^sup>*\<^sup>* (Looking, [NewMethodMux]) (Chosen (Some d), ([NewMethodMux] @ [?m1]) @ [?m2])" .
  moreover have "\<forall>mm \<in> set (([NewMethodMux] @ [?m1]) @ [?m2]). dispatches mm m \<noteq> Some d"
    using assms by (simp add: dispatches_def NewMethodMux_def Mux_Register_def Mux_SetDefault_def)
  ultimately show ?thesis by blast
qed

lemma other_handler: "MuxHandler (MethodMux (Some d) []) \<noteq> d"
proof
  assume "MuxHandler (MethodMux (Some d) []) = d"
  then have "size (MuxHandler (MethodMux (Some d) [])) = size d" by simp
  then show False by simp
qed

text \<open>C28: A mux that is changed while it dispatches calls the handler it has for the method at the moment it looks,
  or, if it has none then, the default of that moment or a later one. If the default stays the same, that is the
  handler the mux has at one moment of the dispatch, as if it happened then. If both are changed, this fails: a request
  can reach a new default although, from the moment that default was set, its method had a handler of its own.\<close>

theorem mux_dispatch_concurrent:
  fixes mm0 :: "'w MethodMux"
  assumes "(mux_step m)\<^sup>*\<^sup>* (Looking, [mm0]) (Chosen x, ms)"
  shows "(\<exists>before mm later. ms = before @ mm # later
      \<and> (case map_of (mux mm) m of Some h \<Rightarrow> x = Some h | None \<Rightarrow> x \<in> defaultHandler ` set (mm # later)))
    \<and> ((\<forall>mm \<in> set ms. defaultHandler mm = defaultHandler mm0) \<longrightarrow> (\<exists>mm \<in> set ms. dispatches mm m = x))
    \<and> (\<exists>d ns. (mux_step m)\<^sup>*\<^sup>* (Looking, [NewMethodMux]) (Chosen (Some d), ns)
        \<and> (\<forall>mm \<in> set ns. dispatches mm m \<noteq> Some (d :: 'w Handler)))"
proof -
  have "dispatch_inv m (Looking, [mm0])" by (simp add: dispatch_inv_def)
  from dispatch_inv_reachable [OF assms this] have seen: "seen_at m x ms"
    by (simp add: dispatch_inv_def)
  with seen_fixed_default [OF seen, of "defaultHandler mm0"] show ?thesis
    using dispatch_race [OF other_handler, of m] unfolding seen_at_def by blast
qed

theorem mux_dispatch_concurrent_witness:
  "(mux_step ''m'')\<^sup>*\<^sup>* (Looking, [NewMethodMux :: nat MethodMux]) (Chosen None, [NewMethodMux])
   \<and> (\<exists>mm \<in> {NewMethodMux :: nat MethodMux}. dispatches mm ''m'' = None)"
proof -
  have "(mux_step ''m'')\<^sup>*\<^sup>* (Looking, [NewMethodMux]) (Missed, [NewMethodMux :: nat MethodMux])"
    by (rule r_into_rtranclp, rule mux_step.misses) (simp add: NewMethodMux_def)
  also have "mux_step ''m'' \<dots> (Chosen None, [NewMethodMux])"
    using mux_step.takes_default [of "''m''" "[NewMethodMux]"] by (simp add: NewMethodMux_def)
  finally have run: "(mux_step ''m'')\<^sup>*\<^sup>* (Looking, [NewMethodMux]) (Chosen None, [NewMethodMux :: nat MethodMux])" .
  then have "\<exists>mm \<in> {NewMethodMux :: nat MethodMux}. dispatches mm ''m'' = None"
    using mux_dispatch_concurrent [OF run] by simp
  with run show ?thesis by (rule conjI)
qed

end
