(* ===== verification/Examples.thy ===== *)
theory Examples
  imports MessageProps
begin

text \<open>
  The client of a pool (dial.go, client.go), and the two programs under examples/: the ping server and
  the client that calls it. A program's run is its exit code and the lines it logs.
\<close>

subsection \<open>The client of a pool\<close>

text \<open>The pool as the interface the client sees: without the record of its events.\<close>

definition without_events :: "'r pool_result \<times> 'w \<Rightarrow> (go_error + 'r) \<times> 'w" where
  "without_events r = (fst (fst r), snd r)"

definition only_error :: "unit pool_result \<times> 'w \<Rightarrow> go_error option \<times> 'w" where
  "only_error r = (err_of (fst (fst r)), snd r)"

definition pool_client :: "'w ClientPool \<Rightarrow> ('w \<Rightarrow> go_error option) \<Rightarrow> 'w timed_err \<Rightarrow> int \<Rightarrow> 'w poolClientInterface" where
  "pool_client cp cerr tcerr now = \<lparr>
     if_Call = (\<lambda>c r w. without_events (Pool_Call cp cerr c r w)),
     if_CallWithTimeout = (\<lambda>c d r w. without_events (Pool_CallWithTimeout cp tcerr now c d r w)),
     if_Notify = (\<lambda>c n w. only_error (Pool_Notify cp cerr c n w)),
     if_NotifyWithTimeout = (\<lambda>c d n w. only_error (Pool_NotifyWithTimeout cp tcerr now c d n w)),
     if_CallBatch = (\<lambda>c r w. without_events (Pool_CallBatch cp cerr c r w)),
     if_CallBatchWithTimeout = (\<lambda>c d r w. without_events (Pool_CallBatchWithTimeout cp tcerr now c d r w)),
     if_NotifyBatch = (\<lambda>c n w. only_error (Pool_NotifyBatch cp cerr c n w)),
     if_NotifyBatchWithTimeout = (\<lambda>c d n w. only_error (Pool_NotifyBatchWithTimeout cp tcerr now c d n w)),
     if_Close = (\<lambda>w. snd (Pool_Close cp w))\<rparr>"

definition dialled_client :: "('w ClientPool \<Rightarrow> 'w poolClientInterface) \<Rightarrow> 'w ClientPool \<times> 32 word \<Rightarrow> 'w Client" where
  "dialled_client iface d = \<lparr>cl_pool = iface (fst d), cl_id = snd d, cl_defaultTimeout = 0\<rparr>"

subsection \<open>The ping server\<close>

definition ping_handle :: "'w handle_fn" where
  "ping_handle c req w =
     (case ctx_err c of
        Some err \<Rightarrow> (HReturn (ResValue GNil) (Some err), w)
      | None \<Rightarrow>
        if req_method req = ''ping'' then (HReturn (ResValue (GStr ''pong'')) None, w)
        else (HReturn (ResValue GNil) (Some (RpcErr ErrMethodNotFound)), w))"

text \<open>The program: its default address, and the line it logs when serving ends with an error.\<close>

definition pingserver_listen :: bytes where
  "pingserver_listen = ''tcp:127.0.0.1:9090''"

definition pingserver_main :: "(bytes \<Rightarrow> go_error + url) \<Rightarrow> ('w, 'l, 'p) net_ops \<Rightarrow> int \<Rightarrow> int \<Rightarrow> bytes \<Rightarrow> 'w \<Rightarrow> bytes list \<times> 'w" where
  "pingserver_main parse ops numCPU maxProcs listenURI w =
     (let server = NewServer numCPU maxProcs (FuncHandler ping_handle) in
      case ListenAndServe parse ops server listenURI w of
        (Some err, w') \<Rightarrow> ([error_text err], w')
      | (None, w') \<Rightarrow> ([], w'))"

subsection \<open>The client\<close>

definition client_method :: bytes where
  "client_method = ''ping''"

definition client_dest :: bytes where
  "client_dest = ''tcp:127.0.0.1:9090''"

text \<open>\<open>dialF\<close> is \<^verbatim>\<open>Dial\<close>, \<open>unm\<close> the decoding into the variable \<open>reply\<close>, \<open>fmt\<close> what \<^verbatim>\<open>%v\<close>
  prints of it; the client is closed when \<^verbatim>\<open>run\<close> returns.\<close>

definition client_run :: "(ctx \<Rightarrow> bytes \<Rightarrow> 'w \<Rightarrow> (go_error + 'w Client) \<times> 'w) \<Rightarrow> (bytes \<Rightarrow> go_error + 'v) \<Rightarrow> ('v \<Rightarrow> bytes)
    \<Rightarrow> (gval \<Rightarrow> bytes) \<Rightarrow> ctx \<Rightarrow> bytes \<Rightarrow> bytes \<Rightarrow> 'w \<Rightarrow> (int \<times> bytes list) \<times> 'w" where
  "client_run dialF unm fmt tn c method destURI w =
     (case dialF c destURI w of
        (Inl err, w1) \<Rightarrow> ((- 1, [error_text err]), w1)
      | (Inr client, w1) \<Rightarrow>
        (case Client_Call tn client c method ArgNil w1 of
           (Inl err, client', w2) \<Rightarrow> ((- 2, [error_text err]), Client_Close client' w2)
         | (Inr resp, client', w2) \<Rightarrow>
             (if Response_IsError resp then (- 3, [err_message (resp_error resp)])
              else case Data_Unmarshal unm (resp_result resp) of
                Inl err \<Rightarrow> (- 4, [error_text err])
              | Inr reply \<Rightarrow> (0, [''Got: '' @ fmt reply @ ''!'']),
              Client_Close client' w2)))"

subsection \<open>The client against the server over HTTP\<close>

text \<open>The state has the pool's, the bridges that were made, and the network's. An operation of a bridge is one
  on the state by the bridge's place.\<close>

definition at_bridge :: "nat \<Rightarrow> (HTTPBridge \<times> 'w \<Rightarrow> 'a \<times> (HTTPBridge \<times> 'w)) \<Rightarrow> 'p \<times> HTTPBridge list \<times> 'w
    \<Rightarrow> 'a \<times> ('p \<times> HTTPBridge list \<times> 'w)" where
  "at_bridge i f s = (case s of (p, bs, w) \<Rightarrow> (case f (bs ! i, w) of (a, b, w') \<Rightarrow> (a, p, bs[i := b], w')))"

definition placed :: "nat \<Rightarrow> (HTTPBridge \<times> 'w) TransportClient \<Rightarrow> ('p \<times> HTTPBridge list \<times> 'w) TransportClient" where
  "placed i t = \<lparr>tc_Encode = (\<lambda>c m. at_bridge i (tc_Encode t c m)), tc_Decode = (\<lambda>c. at_bridge i (tc_Decode t c)),
     tc_response = tc_response t, tc_response_ptr = tc_response_ptr t, tc_responses = tc_responses t,
     tc_Close_e = map_option (at_bridge i) (tc_Close_e t), tc_Close_d = map_option (at_bridge i) (tc_Close_d t)\<rparr>"

lemma placed_call:
  assumes "i < length bs"
  shows "Transport_Call (placed i t) c r (p, bs, w) = at_bridge i (Transport_Call t c r) (p, bs, w)"
  using assms
  by (simp add: Transport_Call_def transport_call_def placed_def at_bridge_def split: prod.split option.split sum.split)

text \<open>The network has one server, at one URL.\<close>

definition only_at :: "bytes \<Rightarrow> (ctx \<Rightarrow> bytes \<Rightarrow> bytes \<Rightarrow> 'w \<Rightarrow> (go_error + http_answer) \<times> 'w)
    \<Rightarrow> ctx \<Rightarrow> bytes \<Rightarrow> bytes \<Rightarrow> 'w \<Rightarrow> (go_error + http_answer) \<times> 'w" where
  "only_at u post c url buf w = (if url = u then post c url buf w else (Inl (OtherErr ''no such host''), w))"

lemma only_at_call:
  assumes "hb_url br = u"
  shows "Transport_Call (bridge_transport newReq (only_at u post)) c r (br, w) =
    Transport_Call (bridge_transport newReq post) c r (br, w)"
proof -
  have "Bridge_Encode newReq (only_at u post) marshal_outgoing br c v w = Bridge_Encode newReq post marshal_outgoing br c v w" for v
    using assms by (simp add: Bridge_Encode_def only_at_def Let_def split: sum.split option.split)
  then show ?thesis
    by (simp add: Transport_Call_def transport_call_def bridge_transport_def NewTransportClient_def
        split: prod.split option.split sum.split)
qed

definition bridge_dial :: "(bytes \<Rightarrow> go_error option) \<Rightarrow> (ctx \<Rightarrow> bytes \<Rightarrow> bytes \<Rightarrow> 'w \<Rightarrow> (go_error + http_answer) \<times> 'w)
    \<Rightarrow> ('p \<times> HTTPBridge list \<times> 'w, unit) dial_ops" where
  "bridge_dial newReq post = \<lparr>dial_Context = (\<lambda>c n a w. (Inl (Sentinel NetErrClosed), w)),
     dial_TLS = (\<lambda>c n a w. (Inl (Sentinel NetErrClosed), w)),
     client_io = (\<lambda>_. placed 0 (bridge_transport newReq post)),
     client_bridge = (\<lambda>br (p, bs, w). (placed (length bs) (bridge_transport newReq post), (p, bs @ [br], w)))\<rparr>"

lemma bridge_dialled:
  assumes "parse u = Inr uri" "url_Scheme uri = ''http''"
  shows "DialTransport parse (bridge_dial newReq post) c u (p, bs, w) = (case ctx_err c of
      Some e \<Rightarrow> (Inl e, (p, bs, w))
    | None \<Rightarrow> (Inr (placed (length bs) (bridge_transport newReq post)), (p, bs @ [NewHTTPBridge u], w)))"
  using assms by (simp add: DialTransport_def dialHTTP_def bridge_dial_def Let_def split: option.split)

text \<open>What is asked of the package puddle, for a pool of \<open>n\<close> resources whose constructor does not touch the pool's
  own state \<open>'p\<close>. \<open>closed\<close>, \<open>idle\<close> and \<open>taken\<close> read that state, \<open>ok\<close> holds of the states of the pool. While its
  context is alive \<^verbatim>\<open>Acquire\<close> gives an open pool's idle resource if there is one and makes one with the
  constructor if there is none and there is room; a closed pool refuses; nothing is asked of a pool that is
  exhausted, where it blocks, nor under a cancelled context. \<^verbatim>\<open>Release\<close> makes a taken resource idle.\<close>

definition acquires_idle :: "('p \<Rightarrow> bool) \<Rightarrow> ('p \<Rightarrow> bool) \<Rightarrow> ('p \<Rightarrow> ('p \<times> 'w) Resource list) \<Rightarrow> ('p \<Rightarrow> ('p \<times> 'w) Resource list)
    \<Rightarrow> ('p \<times> 'w) Puddle \<Rightarrow> bool" where
  "acquires_idle ok closed idle taken P \<longleftrightarrow>
     (\<forall>c p x. ok p \<longrightarrow> \<not> closed p \<longrightarrow> idle p \<noteq> [] \<longrightarrow> ctx_err c = None \<longrightarrow>
        (\<exists>r p'. r \<in> set (idle p) \<and> pu_Acquire P c (p, x) = (Inr r, (p', x)) \<and> ok p' \<and> \<not> closed p'
          \<and> mset (idle p) = add_mset r (mset (idle p')) \<and> mset (taken p') = add_mset r (mset (taken p))))"

definition acquires_new :: "('p \<Rightarrow> bool) \<Rightarrow> ('p \<Rightarrow> bool) \<Rightarrow> ('p \<Rightarrow> ('p \<times> 'w) Resource list) \<Rightarrow> ('p \<Rightarrow> ('p \<times> 'w) Resource list)
    \<Rightarrow> int \<Rightarrow> (ctx \<Rightarrow> 'p \<times> 'w \<Rightarrow> (go_error + ('p \<times> 'w) TransportClient) \<times> ('p \<times> 'w)) \<Rightarrow> ('p \<times> 'w) Puddle \<Rightarrow> bool" where
  "acquires_new ok closed idle taken n ctor P \<longleftrightarrow>
     (\<forall>c p x t x'. ok p \<longrightarrow> \<not> closed p \<longrightarrow> idle p = [] \<longrightarrow> int (length (taken p)) < n \<longrightarrow> ctx_err c = None \<longrightarrow>
        ctor c (p, x) = (Inr t, (p, x')) \<longrightarrow>
        (\<exists>k p'. pu_Acquire P c (p, x) = (Inr \<lparr>res_key = k, res_value = t\<rparr>, (p', x')) \<and> ok p' \<and> \<not> closed p'
          \<and> idle p' = [] \<and> mset (taken p') = add_mset \<lparr>res_key = k, res_value = t\<rparr> (mset (taken p))))"

definition refuses_closed :: "('p \<Rightarrow> bool) \<Rightarrow> ('p \<Rightarrow> bool) \<Rightarrow> ('p \<times> 'w) Puddle \<Rightarrow> bool" where
  "refuses_closed ok closed P \<longleftrightarrow> (\<forall>c p x. ok p \<longrightarrow> closed p \<longrightarrow> (\<exists>e p'. pu_Acquire P c (p, x) = (Inl e, (p', x)) \<and> closed p'))"

definition releases :: "('p \<Rightarrow> bool) \<Rightarrow> ('p \<Rightarrow> bool) \<Rightarrow> ('p \<Rightarrow> ('p \<times> 'w) Resource list) \<Rightarrow> ('p \<Rightarrow> ('p \<times> 'w) Resource list)
    \<Rightarrow> ('p \<times> 'w) Puddle \<Rightarrow> bool" where
  "releases ok closed idle taken P \<longleftrightarrow>
     (\<forall>r p x. ok p \<longrightarrow> \<not> closed p \<longrightarrow> r \<in> set (taken p) \<longrightarrow>
        (\<exists>p'. pu_Release P r (p, x) = (p', x) \<and> ok p' \<and> \<not> closed p'
          \<and> mset (idle p') = add_mset r (mset (idle p)) \<and> mset (taken p) = add_mset r (mset (taken p'))))"

definition puddle_works :: "'p \<Rightarrow> ('p \<times> 'w) new_pool \<Rightarrow> bool" where
  "puddle_works p0 newPool \<longleftrightarrow>
     (\<forall>ctor dtor n d. 0 < n \<longrightarrow> (\<forall>c p x. ctor c (p, x) = (case d c x of (r, x') \<Rightarrow> (r, (p, x')))) \<longrightarrow>
        (\<exists>P ok closed idle taken. newPool ctor dtor n = Inr P \<and> ok p0 \<and> \<not> closed p0 \<and> idle p0 = [] \<and> taken p0 = []
          \<and> acquires_idle ok closed idle taken P \<and> acquires_new ok closed idle taken n ctor P
          \<and> refuses_closed ok closed P \<and> releases ok closed idle taken P))"

text \<open>A pool whose resource is in use by no one, which is the client \<open>t\<close>: it gives \<open>t\<close>, takes it back, and changes
  no other state in doing so.\<close>

definition ready_with :: "('p \<times> 'w) Puddle \<Rightarrow> ('p \<times> 'w) TransportClient \<Rightarrow> 'p \<Rightarrow> bool" where
  "ready_with P t p \<longleftrightarrow> (\<forall>c x. ctx_err c = None \<longrightarrow> (\<exists>k p1. pu_Acquire P c (p, x) = (Inr \<lparr>res_key = k, res_value = t\<rparr>, (p1, x))
     \<and> (\<forall>x'. \<exists>p2. pu_Release P \<lparr>res_key = k, res_value = t\<rparr> (p1, x') = (p2, x'))))"

lemma first_acquire:
  assumes "puddle_works p0 newPool" "0 < n" "\<And>c p x. ctor c (p, x) = (case d c x of (r, x') \<Rightarrow> (r, (p, x')))"
    and "ctx_err c = None" "d c x = (Inr t, x')"
  shows "\<exists>P k p1 p2. newPool ctor dtor n = Inr P \<and> pu_Acquire P c (p0, x) = (Inr \<lparr>res_key = k, res_value = t\<rparr>, (p1, x'))
    \<and> pu_Release P \<lparr>res_key = k, res_value = t\<rparr> (p1, x') = (p2, x') \<and> ready_with P t p2"
proof -
  obtain P ok closed idle taken where P: "newPool ctor dtor n = Inr P" "ok p0" "\<not> closed p0" "idle p0 = []" "taken p0 = []"
    and laws: "acquires_idle ok closed idle taken P" "acquires_new ok closed idle taken n ctor P" "releases ok closed idle taken P"
    using assms(1) [unfolded puddle_works_def, rule_format, OF assms(2), where ctor = ctor and d = d and dtor = dtor] assms(3)
    by blast
  have "ctor c (p0, x) = (Inr t, (p0, x'))" using assms(3,5) by simp
  moreover have "int (length (taken p0)) < n" using assms(2) P(5) by simp
  ultimately have "\<exists>k p1. pu_Acquire P c (p0, x) = (Inr \<lparr>res_key = k, res_value = t\<rparr>, (p1, x')) \<and> ok p1 \<and> \<not> closed p1
      \<and> idle p1 = [] \<and> mset (taken p1) = add_mset \<lparr>res_key = k, res_value = t\<rparr> (mset (taken p0))"
    using laws(2) P(2-4) assms(4) unfolding acquires_new_def by blast
  then obtain k p1 where p1: "pu_Acquire P c (p0, x) = (Inr \<lparr>res_key = k, res_value = t\<rparr>, (p1, x'))" "ok p1" "\<not> closed p1"
    "idle p1 = []" "taken p1 = [\<lparr>res_key = k, res_value = t\<rparr>]"
    using P(5) by auto
  let ?r = "\<lparr>res_key = k, res_value = t\<rparr>"
  have rel: "\<exists>p'. pu_Release P ?r (p, y) = (p', y) \<and> ok p' \<and> \<not> closed p' \<and> mset (idle p') = add_mset ?r (mset (idle p))"
    if "ok p" "\<not> closed p" "?r \<in> set (taken p)" for p y
    using laws(3) that unfolding releases_def by blast
  have "?r \<in> set (taken p1)" using p1(5) by simp
  from rel [OF p1(2,3) this, of x'] obtain p2 where p2: "pu_Release P ?r (p1, x') = (p2, x')" "ok p2" "\<not> closed p2" "idle p2 = [?r]"
    using p1(4) by auto
  have "ready_with P t p2"
    unfolding ready_with_def
  proof (intro allI impI)
    fix c2 :: ctx and y assume "ctx_err c2 = None"
    moreover have "idle p2 \<noteq> []" using p2(4) by auto
    ultimately obtain r p3 where p3: "r \<in> set (idle p2)" "pu_Acquire P c2 (p2, y) = (Inr r, (p3, y))" "ok p3" "\<not> closed p3"
      "mset (taken p3) = add_mset r (mset (taken p2))"
      using laws(1) p2(2,3) unfolding acquires_idle_def by blast
    have "r = ?r" using p3(1) p2(4) by simp
    moreover have "r \<in> set (taken p3)" using p3(5) by (metis set_mset_mset union_single_eq_member)
    ultimately have "\<exists>p4. pu_Release P ?r (p3, y') = (p4, y')" for y'
      using rel [OF p3(3,4), of y'] by auto
    with p3(2) \<open>r = ?r\<close> show "\<exists>k p1. pu_Acquire P c2 (p2, y) = (Inr \<lparr>res_key = k, res_value = t\<rparr>, (p1, y))
        \<and> (\<forall>x'. \<exists>p2. pu_Release P \<lparr>res_key = k, res_value = t\<rparr> (p1, x') = (p2, x'))"
      by (intro exI [of _ k] exI [of _ p3]) simp
  qed
  with P(1) p1(1) p2(1) show ?thesis by blast
qed

text \<open>\<^verbatim>\<open>Dial\<close> as the program calls it.\<close>

definition dial_client :: "int \<Rightarrow> int \<Rightarrow> int \<Rightarrow> 'w new_pool \<Rightarrow> (bytes \<Rightarrow> go_error + url) \<Rightarrow> ('w, 'c) dial_ops
    \<Rightarrow> ('w \<Rightarrow> go_error option) \<Rightarrow> 'w timed_err \<Rightarrow> 32 word \<Rightarrow> ctx \<Rightarrow> bytes \<Rightarrow> 'w \<Rightarrow> (go_error + 'w Client) \<times> 'w" where
  "dial_client now numCPU maxProcs newPool parse ops cerr tcerr rnd c destURI w =
     (case Dial now numCPU maxProcs newPool (DialTransport parse ops) rnd c destURI w of
        (Inl err, evs, w') \<Rightarrow> (Inl err, w')
      | (Inr d, evs, w') \<Rightarrow> (Inr (dialled_client (\<lambda>cp. pool_client cp cerr tcerr now) d), w'))"

lemma with_timeout_alive: "ctx_err c = None \<Longrightarrow> 0 < d \<Longrightarrow> ctx_err (with_timeout now c d) = None"
  by (simp add: with_timeout_def split: option.split)

lemma pool_size:
  assumes "0 < n" "n < 2 ^ 30"
  shows "0 < wrap_signed 32 (n * 2)"
  using assms by (simp add: wrap_signed_id)

lemma dialled_pool:
  assumes "puddle_works p0 newPool" "\<And>c p x. dialT c uri (p, x) = (case d c x of (r, x') \<Rightarrow> (r, (p, x')))"
    and "\<And>c. ctx_err c = None \<Longrightarrow> d c x = (Inr t, x')"
    and "ctx_err c = None" "0 < min numCPU maxProcs" "min numCPU maxProcs < 2 ^ 30"
  shows "\<exists>pool evs p'. Dial now numCPU maxProcs newPool dialT rnd c uri (p0, x) = (Inr (pool, rnd), evs, (p', x'))
    \<and> ready_with (cp_pool pool) t p' \<and> cp_retries pool = 2 \<and> \<not> cp_closed pool"
proof -
  let ?cfg = "effective_config numCPU maxProcs \<lparr>cfg_URI = uri, cfg_IdleTimeout = 0, cfg_DialTimeout = 0,
    cfg_Retries = 0, cfg_MaxSize = 0, cfg_AcquireOnCreate = True\<rparr>"
  let ?d = "\<lambda>c. d (with_timeout now c (cfg_DialTimeout ?cfg))"
  have "pool_constructor now ?cfg dialT c (p, x) = (case ?d c x of (r, x') \<Rightarrow> (r, (p, x')))" for c p x
    using assms(2) by (simp add: pool_constructor_def go_simps)
  moreover have "?d c x = (Inr t, x')"
    using assms(3) with_timeout_alive [OF assms(4)] by (simp add: go_simps Second_def)
  moreover have "0 < cfg_MaxSize ?cfg"
    using pool_size [OF assms(5,6)] by (simp add: go_simps)
  ultimately obtain P k p1 p2 where P: "newPool (pool_constructor now ?cfg dialT) pool_destructor (cfg_MaxSize ?cfg) = Inr P"
    "pu_Acquire P c (p0, x) = (Inr \<lparr>res_key = k, res_value = t\<rparr>, (p1, x'))"
    "pu_Release P \<lparr>res_key = k, res_value = t\<rparr> (p1, x') = (p2, x')" "ready_with P t p2"
    using first_acquire [where n = "cfg_MaxSize ?cfg" and ctor = "pool_constructor now ?cfg dialT" and d = ?d and c = c
        and dtor = pool_destructor, OF assms(1) _ _ assms(4)] by metis
  have "attempts_of ?cfg = 2"
    using attempts_of_eq [of ?cfg] by (simp add: go_simps)
  with P show ?thesis
    by (auto simp: Dial_def DialWithConfig_def NewClientPool_def NewClientPoolWithDialer_def Let_def go_simps)
qed

lemma pool_call_once:
  assumes "ready_with (cp_pool cp) t p" "cp_retries cp = 2" "\<And>w. cerr w = None" "ctx_err c = None"
    and "\<And>p. Transport_Call t c r (p, x) = (Inr resp, (p, x'))"
  shows "\<exists>evs p'. Pool_Call cp cerr c r (p, x) = ((Inr resp, evs), (p', x'))"
proof -
  obtain k p1 where acq: "pu_Acquire (cp_pool cp) c (p, x) = (Inr \<lparr>res_key = k, res_value = t\<rparr>, (p1, x))"
    and given: "\<forall>x'. \<exists>p2. pu_Release (cp_pool cp) \<lparr>res_key = k, res_value = t\<rparr> (p1, x') = (p2, x')"
    using assms(1,4) unfolding ready_with_def by blast
  obtain p2 where rel: "pu_Release (cp_pool cp) \<lparr>res_key = k, res_value = t\<rparr> (p1, x') = (p2, x')"
    using given by blast
  have "c\<lparr>ctx_err := cerr (p1, x)\<rparr> = c"
    using assms(3,4) by simp
  then have call: "Transport_Call (res_value \<lparr>res_key = k, res_value = t\<rparr>) (c\<lparr>ctx_err := cerr (p1, x)\<rparr>) r (p1, x) = (Inr resp, (p1, x'))"
    using assms(5) by simp
  have "Pool_Call cp cerr c r (p, x) = attempts (cp_pool cp) cerr c (\<lambda>t c w. Transport_Call t c r w) (Suc (Suc 0)) None (p, x)"
    using assms(2) by (simp add: Pool_Call_def pool_do_def numeral_2_eq_2)
  then show ?thesis
    using attempts_Suc [where f = "\<lambda>t c w. Transport_Call t c r w" and n = "Suc 0" and err = None and cerr = cerr
        and w = "(p, x)" and P = "cp_pool cp" and c = c and ?w1.0 = "(p1, x)" and r = "Inr resp" and ?w2.0 = "(p1, x')"
        and res = "\<lparr>res_key = k, res_value = t\<rparr>"] assms(3) acq call rel
    by simp
qed

text \<open>What the server's handler makes of a request for a method, and what the client gets.\<close>

definition ping_outcome :: "bytes \<Rightarrow> houtcome" where
  "ping_outcome m = (if m = ''ping'' then HReturn (ResValue (GStr ''pong'')) None
     else HReturn (ResValue GNil) (Some (RpcErr ErrMethodNotFound)))"

definition ping_req :: "32 word \<Rightarrow> bytes \<Rightarrow> Request" where
  "ping_req i m = NewRequestWithParams (IdInt (uint i)) m zero_params"

lemma uint_int64: "in_int64 (uint (i :: 32 word))"
  using uint_lt2p [of i] uint_ge_0 [of i] unfolding in_int64_def by (simp, linarith)

lemma ping_sendable:
  assumes "valid_utf8 m"
  shows "sendable_request (ping_req i m)"
  using assms
  by (simp add: sendable_request_def ping_req_def NewRequestWithParams_def NewID_def Params_IsZero_def zero_params_def uint_int64)

lemma ping_handled:
  "Handle (hh_handler (NewHTTPHandler (FuncHandler ping_handle))) (http_ctx\<lparr>ctx_rpc_server := True\<rparr>)
     (received_request (ping_req i m)) u = (ping_outcome m, u)"
  by (simp add: NewHTTPHandler_def ping_handle_def http_ctx_def background_def received_request_def ping_req_def
      NewRequestWithParams_def ping_outcome_def)

lemma pong_wire: "sendable (Inr (quote ''pong''))" "valid_utf8 ''Method not found''" "valid_utf8 ''ping''"
  "Data_MarshalJSON (NewResult (GStr ''pong'')) = Inr (quote ''pong'')" "text_of (Inr (quote ''pong'')) = quote ''pong''"
  by code_simp+

lemma ping_reply_sendable: "sendable_response (reply_of (received_request (ping_req i m)) (ping_outcome m))"
proof -
  have "wf_idval (IdInt (uint i))"
    by (simp add: uint_int64)
  then have "wf_idval (id_value (req_id (received_request (ping_req i m))))"
    using received_wf [of "NewID (IdInt (uint i))"]
    by (simp add: received_request_def ping_req_def NewRequestWithParams_def NewID_def ID_IsZero_def)
  then show ?thesis
    by (auto simp: sendable_response_def ping_outcome_def Request_ResponseWithResult_def Request_ResponseWithError_def
        zero_Response_def zero_error_def Error_IsZero_def asError_def ErrMethodNotFound_def NewError_def sendable_error_def
        in_int64_def Data_IsZero_def zero_data_def pong_wire)
qed

text \<open>C3: The client program that calls a method of the ping server over HTTP, through a new pool that puddle
  makes of the bridge to its URL, where the server listens, logs what the server's handler said and exits with
  its code: it got pong for the method ping, and exits with -3 and the message of the error Method not found for
  every other one.\<close>

theorem ping_pong:
  assumes "puddle_works p0 newPool" "parse uri = Inr u" "url_Scheme u = ''http''" "newReq uri = None"
    and "0 < min numCPU maxProcs" "min numCPU maxProcs < 2 ^ 30" "valid_utf8 m"
    and "\<And>w. cerr w = None" "\<And>w. scerr w = None" "ctx_err c = None" "unm (quote ''pong'') = Inr v"
  shows "fst (client_run (dial_client now numCPU maxProcs newPool parse
        (bridge_dial newReq (only_at uri (http_network slog (NewHTTPHandler (FuncHandler ping_handle)) stop scerr))) cerr tcerr rnd)
      unm fmt tn c m uri (p0, bs, us)) =
    (if m = ''ping'' then (0, [''Got: '' @ fmt v @ ''!'']) else (- 3, [''Method not found'']))"
proof -
  let ?net = "http_network slog (NewHTTPHandler (FuncHandler ping_handle)) stop scerr"
  let ?bt = "bridge_transport newReq (only_at uri ?net)"
  let ?t = "placed (length bs) ?bt"
  let ?x = "(bs @ [NewHTTPBridge uri], us)" and ?i = "rnd + 1"
  let ?resp = "received_response (reply_of (received_request (ping_req ?i m)) (ping_outcome m))"
  let ?d = "\<lambda>c (bs, w). (case ctx_err c of
      Some e \<Rightarrow> (Inl e, (bs, w)) | None \<Rightarrow> (Inr (placed (length bs) ?bt), (bs @ [NewHTTPBridge uri], w)))"
  have "DialTransport parse (bridge_dial newReq (only_at uri ?net)) c uri (p, x) = (case ?d c x of (r, x') \<Rightarrow> (r, (p, x')))" for c p x
    by (cases x) (simp add: bridge_dialled [where parse = parse and u = uri and uri = u, OF assms(2,3)] split: option.split)
  then obtain pool evs p1 where dial: "Dial now numCPU maxProcs newPool (DialTransport parse (bridge_dial newReq (only_at uri ?net)))
      rnd c uri (p0, bs, us) = (Inr (pool, rnd), evs, (p1, ?x))" and pool: "ready_with (cp_pool pool) ?t p1" "cp_retries pool = 2"
    using dialled_pool [where newPool = newPool and dialT = "DialTransport parse (bridge_dial newReq (only_at uri ?net))" and uri = uri
        and t = ?t and c = c and x = "(bs, us)" and x' = ?x and d = ?d, OF assms(1) _ _ assms(10,5,6)] by fastforce
  have served: "plain_request (NewHTTPHandler (FuncHandler ping_handle)) scerr \<lparr>hr_content_type = ''application/json'', hr_body = []\<rparr>"
    using assms(9) by (simp add: plain_request_def NewHTTPHandler_def only_data_def)
  have call: "\<not> Request_IsNotification (ping_req ?i m)"
    by (simp add: Request_IsNotification_def ping_req_def NewRequestWithParams_def NewID_def ID_IsZero_def)
  have bridge: "\<not> hb_closed (NewHTTPBridge uri)" "newReq (hb_url (NewHTTPBridge uri)) = None" "hb_url (NewHTTPBridge uri) = uri"
    using assms(4) by (simp_all add: NewHTTPBridge_def)
  have outcome: "plain_outcome (ping_outcome m)"
    by (simp add: ping_outcome_def)
  have "\<exists>br. Transport_Call (bridge_transport newReq ?net) c (ping_req ?i m) (NewHTTPBridge uri, us) = (Inr ?resp, (br, us))"
    by (rule http_call [where newReq = newReq, OF ping_sendable [OF assms(7)] call served bridge(1,2) assms(10) ping_handled outcome ping_reply_sendable])
  then obtain br where "Transport_Call ?bt c (ping_req ?i m) (NewHTTPBridge uri, us) = (Inr ?resp, (br, us))"
    using only_at_call [OF bridge(3)] by metis
  then have "Transport_Call ?t c (ping_req ?i m) (q, ?x) = (Inr ?resp, (q, (bs @ [br], us)))" for q
    by (simp add: placed_call at_bridge_def)
  then have "\<exists>evs2 p2. Pool_Call pool cerr c (ping_req ?i m) (p1, ?x) = ((Inr ?resp, evs2), (p2, (bs @ [br], us)))"
    by (rule pool_call_once [where cerr = cerr, OF pool assms(8,10)])
  then obtain evs2 p2 where
    call: "Pool_Call pool cerr c (ping_req ?i m) (p1, ?x) = ((Inr ?resp, evs2), (p2, (bs @ [br], us)))" by blast
  have "Response_IsError ?resp \<longleftrightarrow> m \<noteq> ''ping''" "m \<noteq> ''ping'' \<Longrightarrow> err_message (resp_error ?resp) = ''Method not found''"
    "m = ''ping'' \<Longrightarrow> Data_Unmarshal unm (resp_result ?resp) = Inr v"
    using assms(11)
    by (simp_all add: Response_IsError_def received_response_def ping_outcome_def Request_ResponseWithResult_def
        Request_ResponseWithError_def zero_Response_def zero_error_def Error_IsZero_def asError_def ErrMethodNotFound_def
        NewError_def received_error_def Data_Unmarshal_def NewResult_def Data_IsZero_def pong_wire [unfolded NewResult_def])
  then show ?thesis
    using dial call
    by (simp add: client_run_def dial_client_def dialled_client_def Client_Call_def makeParamsFromAny_def nextID_def
        pool_client_def without_events_def ping_req_def)
qed

text \<open>A pool as puddle makes it: whether it is closed, its idle and its taken resources, and the next key. A
  resource is the state and the context its constructor was called with, which give its client.\<close>

record 'w pool_state =
  pl_closed :: bool
  pl_idle :: "(nat \<times> ctx \<times> 'w) list"
  pl_taken :: "(nat \<times> ctx \<times> 'w) list"
  pl_next :: nat

definition new_state :: "'w pool_state" where
  "new_state = \<lparr>pl_closed = False, pl_idle = [], pl_taken = [], pl_next = 0\<rparr>"

type_synonym 'w pool_ctor = "ctx \<Rightarrow> 'w pool_state \<times> 'w \<Rightarrow> (go_error + ('w pool_state \<times> 'w) TransportClient) \<times> ('w pool_state \<times> 'w)"

definition res_of :: "'w pool_ctor \<Rightarrow> nat \<times> ctx \<times> 'w \<Rightarrow> ('w pool_state \<times> 'w) Resource" where
  "res_of ctor e = (case e of (k, c, x) \<Rightarrow> \<lparr>res_key = k, res_value = projr (fst (ctor c (new_state, x)))\<rparr>)"

text \<open>Instead of blocking when it is exhausted, it gives up.\<close>

definition pool_acquire :: "'w pool_ctor \<Rightarrow> int \<Rightarrow> ctx \<Rightarrow> 'w pool_state \<times> 'w
    \<Rightarrow> (go_error + ('w pool_state \<times> 'w) Resource) \<times> ('w pool_state \<times> 'w)" where
  "pool_acquire ctor n c s = (case s of (p, x) \<Rightarrow>
     if pl_closed p then (Inl (OtherErr ''closed pool''), (p, x))
     else (case pl_idle p of
         e # es \<Rightarrow> (Inr (res_of ctor e), (p\<lparr>pl_idle := es, pl_taken := e # pl_taken p\<rparr>, x))
       | [] \<Rightarrow>
         if int (length (pl_taken p)) < n then
           (case ctor c (p, x) of
              (Inl e, (_, x')) \<Rightarrow> (Inl e, (p, x'))
            | (Inr t, (_, x')) \<Rightarrow> (Inr \<lparr>res_key = pl_next p, res_value = t\<rparr>,
                (p\<lparr>pl_taken := (pl_next p, c, x) # pl_taken p, pl_next := Suc (pl_next p)\<rparr>, x')))
         else (Inl (Sentinel DeadlineExceeded), (p, x))))"

definition pool_release :: "('w pool_state \<times> 'w) Resource \<Rightarrow> 'w pool_state \<times> 'w \<Rightarrow> 'w pool_state \<times> 'w" where
  "pool_release r s = (case s of (p, x) \<Rightarrow>
     (case find (\<lambda>e. fst e = res_key r) (pl_taken p) of
        Some e \<Rightarrow> (p\<lparr>pl_idle := e # pl_idle p, pl_taken := remove1 e (pl_taken p)\<rparr>, x)
      | None \<Rightarrow> (p, x)))"

definition stateful_pool :: "('w pool_state \<times> 'w) new_pool" where
  "stateful_pool ctor dtor n = Inr \<lparr>
     pu_Acquire = pool_acquire ctor n, pu_AcquireAllIdle = (\<lambda>w. ([], w)), pu_IdleDuration = (\<lambda>r w. 0),
     pu_Release = pool_release, pu_ReleaseUnused = pool_release,
     pu_Destroy = (\<lambda>r (p, x). (p\<lparr>pl_taken := filter (\<lambda>e. fst e \<noteq> res_key r) (pl_taken p)\<rparr>, x)),
     pu_Close = (\<lambda>(p, x). (p\<lparr>pl_closed := True, pl_idle := []\<rparr>, x)), pu_Reset = (\<lambda>(p, x). (p\<lparr>pl_idle := []\<rparr>, x))\<rparr>"

definition keyed :: "'w pool_state \<Rightarrow> bool" where
  "keyed p \<longleftrightarrow> distinct (map fst (pl_idle p @ pl_taken p)) \<and> (\<forall>e \<in> set (pl_idle p @ pl_taken p). fst e < pl_next p)"

lemma find_keyed:
  assumes "distinct (map fst es)" "e \<in> set es"
  shows "find (\<lambda>e'. fst e' = fst e) es = Some e"
  using assms by (induction es) (auto simp: image_iff)

lemma res_key_of: "res_key (res_of ctor e) = fst e"
  by (simp add: res_of_def split: prod.split)

lemma pool_releases:
  assumes "keyed p" "e \<in> set (pl_taken p)"
  shows "pool_release (res_of ctor e) (p, x) = (p\<lparr>pl_idle := e # pl_idle p, pl_taken := remove1 e (pl_taken p)\<rparr>, x)"
    "keyed (p\<lparr>pl_idle := e # pl_idle p, pl_taken := remove1 e (pl_taken p)\<rparr>)"
proof -
  show "pool_release (res_of ctor e) (p, x) = (p\<lparr>pl_idle := e # pl_idle p, pl_taken := remove1 e (pl_taken p)\<rparr>, x)"
    using assms find_keyed [of "pl_taken p" e] by (simp add: pool_release_def res_key_of keyed_def)
  obtain as bs where split: "pl_taken p = as @ e # bs" "e \<notin> set as"
    using assms(2) by (meson split_list_first)
  then have "remove1 e (pl_taken p) = as @ bs"
    by (simp add: remove1_append)
  with assms(1) split show "keyed (p\<lparr>pl_idle := e # pl_idle p, pl_taken := remove1 e (pl_taken p)\<rparr>)"
    by (auto simp: keyed_def)
qed

lemma stateful_pool_works: "puddle_works new_state stateful_pool"
  unfolding puddle_works_def
proof (intro allI impI)
  fix ctor :: "'w pool_ctor" and dtor n and d :: "ctx \<Rightarrow> 'w \<Rightarrow> (go_error + ('w pool_state \<times> 'w) TransportClient) \<times> 'w"
  assume "(0 :: int) < n" and ctor: "\<forall>c p x. ctor c (p, x) = (case d c x of (r, x') \<Rightarrow> (r, (p, x')))"
  let ?idle = "\<lambda>p. map (res_of ctor) (pl_idle p)" and ?taken = "\<lambda>p. map (res_of ctor) (pl_taken p)"
  obtain P where P: "stateful_pool ctor dtor n = Inr P" "pu_Acquire P = pool_acquire ctor n" "pu_Release P = pool_release"
    by (simp add: stateful_pool_def)
  have "acquires_idle keyed pl_closed ?idle ?taken P"
    unfolding acquires_idle_def P(2)
  proof (intro allI impI)
    fix c :: ctx and p and x :: 'w
    assume "keyed p" "\<not> pl_closed p" "?idle p \<noteq> []"
    then obtain e es where "pl_idle p = e # es" by (cases "pl_idle p") auto
    with \<open>keyed p\<close> \<open>\<not> pl_closed p\<close> show "\<exists>r p'. r \<in> set (?idle p) \<and> pool_acquire ctor n c (p, x) = (Inr r, (p', x)) \<and> keyed p'
        \<and> \<not> pl_closed p' \<and> mset (?idle p) = add_mset r (mset (?idle p')) \<and> mset (?taken p') = add_mset r (mset (?taken p))"
      by (intro exI [of _ "res_of ctor e"] exI [of _ "p\<lparr>pl_idle := es, pl_taken := e # pl_taken p\<rparr>"])
         (auto simp: pool_acquire_def keyed_def)
  qed
  moreover have "acquires_new keyed pl_closed ?idle ?taken n ctor P"
    unfolding acquires_new_def P(2)
  proof (intro allI impI)
    fix c p x t x'
    assume asm: "keyed p" "\<not> pl_closed p" "?idle p = []" "int (length (?taken p)) < n" "ctor c (p, x) = (Inr t, (p, x'))"
    then have "res_of ctor (pl_next p, c, x) = \<lparr>res_key = pl_next p, res_value = t\<rparr>"
      using ctor by (auto simp: res_of_def split: prod.splits)
    with asm show "\<exists>k p'. pool_acquire ctor n c (p, x) = (Inr \<lparr>res_key = k, res_value = t\<rparr>, (p', x')) \<and> keyed p'
        \<and> \<not> pl_closed p' \<and> ?idle p' = [] \<and> mset (?taken p') = add_mset \<lparr>res_key = k, res_value = t\<rparr> (mset (?taken p))"
      by (intro exI [of _ "pl_next p"] exI [of _ "p\<lparr>pl_taken := (pl_next p, c, x) # pl_taken p, pl_next := Suc (pl_next p)\<rparr>"])
         (auto simp: pool_acquire_def keyed_def less_Suc_eq)
  qed
  moreover have "refuses_closed keyed pl_closed P"
    by (simp add: refuses_closed_def P(2) pool_acquire_def)
  moreover have "releases keyed pl_closed ?idle ?taken P"
    unfolding releases_def P(3)
  proof (intro allI impI)
    fix r p and x :: 'w
    assume "keyed p" "\<not> pl_closed p" "r \<in> set (?taken p)"
    then obtain e where e: "e \<in> set (pl_taken p)" "r = res_of ctor e" by auto
    have "mset (pl_taken p) = add_mset e (mset (remove1 e (pl_taken p)))" using e(1) by simp
    then have "mset (?taken p) = add_mset r (mset (map (res_of ctor) (remove1 e (pl_taken p))))"
      by (metis e(2) image_mset_add_mset mset_map)
    with pool_releases(1) [OF \<open>keyed p\<close> e(1), of ctor x] pool_releases(2) [OF \<open>keyed p\<close> e(1)] \<open>\<not> pl_closed p\<close> e(2)
    show "\<exists>p'. pool_release r (p, x) = (p', x) \<and> keyed p' \<and> \<not> pl_closed p' \<and> mset (?idle p') = add_mset r (mset (?idle p))
        \<and> mset (?taken p) = add_mset r (mset (?taken p'))"
      by (intro exI [of _ "p\<lparr>pl_idle := e # pl_idle p, pl_taken := remove1 e (pl_taken p)\<rparr>"]) simp
  qed
  moreover have "keyed new_state" "\<not> pl_closed new_state" "?idle new_state = []" "?taken new_state = []"
    by (simp_all add: keyed_def new_state_def)
  ultimately show "\<exists>P ok closed idle taken. stateful_pool ctor dtor n = Inr P \<and> ok new_state \<and> \<not> closed new_state
      \<and> idle new_state = [] \<and> taken new_state = [] \<and> acquires_idle ok closed idle taken P
      \<and> acquires_new ok closed idle taken n ctor P \<and> refuses_closed ok closed P \<and> releases ok closed idle taken P"
    using P(1) by (intro exI [of _ P] exI [of _ keyed] exI [of _ pl_closed] exI [of _ ?idle] exI [of _ ?taken]) simp
qed

theorem ping_pong_witness:
  "fst (client_run (dial_client 0 8 4 stateful_pool (\<lambda>u. Inr \<lparr>url_Scheme = ''http'', url_Host = ''h'', url_Path = []\<rparr>)
        (bridge_dial (\<lambda>_. None) (only_at ''http://h''
          (http_network (\<lambda>_ _ _ w. w) (NewHTTPHandler (FuncHandler ping_handle)) (\<lambda>_ w. w) (\<lambda>_. None))))
        (\<lambda>_. None) (\<lambda>_ _ _ _. None) (- 1 :: 32 word))
      Inr id (\<lambda>_. []) background client_method ''http://h'' (new_state, [NewHTTPBridge ''http://other''], ()))
    = (0 :: int, [''Got: '' @ quote ''pong'' @ ''!''])"
  by (subst ping_pong [where v = "quote ''pong''" and u = "\<lparr>url_Scheme = ''http'', url_Host = ''h'', url_Path = []\<rparr>"])
    (simp_all add: stateful_pool_works client_method_def background_def pong_wire)

end
