(* ===== verification/Spec2Isabelle.thy ===== *)
theory Spec2Isabelle
  imports ConcurrencyProps PoolProps ServerProps InterruptProps SharedMux Examples
begin

text \<open>
  A model of the Go package jsonrpc2 (JSON-RPC 2.0 over streams, packets and HTTP), with the
  theorems that make it correct.

  \<^bold>\<open>The program.\<close> A server reads raw JSON messages through a decoder, tells a request from a
  batch by the first byte, runs a handler for each request and writes the responses through an
  encoder (rpcserver.go). Decoders and encoders are the stream codecs (decoder.go, encoder.go),
  the packet codecs (packetdecoder.go, packetencoder.go), the buffer of one HTTP request
  (httphandler.go), or, at the client, the HTTP bridge (httpbridge.go). A transport client writes a
  request and reads its response under a lock (transportclient.go), a pool keeps transport clients
  and retries (clientpool.go), and a client numbers the requests (client.go, batchbuilder.go).
  server.go and dial.go open connections by the scheme of a URI; a binder (binder.go) may configure the
  server of each connection. examples/ has a ping server and its client.

  \<^bold>\<open>Conventions.\<close> Bytes and strings are lists of characters. The state of everything a component
  does not own (the handler's state, a connection) is a type variable passed through. An interface is a
  record of functions on that state; an optional method, callback or field is an option. An error is a
  value of \<open>go_error\<close>, with the wrapping that \<^verbatim>\<open>errors.Is\<close> and \<^verbatim>\<open>errors.As\<close> look through; a call that can
  fail returns a sum or an option. Names are those of the code, methods with the type as a prefix.

  \<^bold>\<open>Theories.\<close>
  \<^item> Prelude: lemma collections, string functions, the locales \<open>draining_within\<close> and \<open>draining\<close> of step
    relations with a weight, which end, and how soon.
  \<^item> JsonScan, JsonString, Json, JsonValid, JsonObject: what encoding/json does that the package relies on:
    the scanner automaton and the syntax it accepts, strings with their escapes, decoding into structs with
    tags, the first byte of a valid text, and the objects and arrays a marshaller writes.
    GoErrors: errors.
  \<^item> TypeHints (typehint.go), Ids (id.go), Payload (data.go, result.go, errordata.go, params.go,
    version.go, error.go), Messages (request.go, notification.go, response.go), Batches (batch.go). Wire:
    what a message becomes on the wire; \<open>sendable_request\<close> and \<open>sendable_response\<close> are the messages that
    can be sent, \<open>received_request\<close> and \<open>received_response\<close> what their text decodes to.
  \<^item> Handlers (handler.go, callbacks.go): handlers are a datatype, a function or a mux that holds
    handlers in an association list; the mux refines a map.
  \<^item> RpcServer and ServerLoop (rpcserver.go, shims.go): \<open>handleRequest\<close>, \<open>runRequests\<close> and \<open>run\<close> are
    functions; the goroutines of a batch are the relation \<open>batch_step\<close>; \<^verbatim>\<open>Run\<close> is the relation
    \<open>srv_step\<close>, with its phases. With \<^verbatim>\<open>NoRoutines\<close> it is also the function \<open>Run_sync\<close>, with its loop
    \<open>run_loop\<close>, which has no value for a server that starts goroutines; \<open>Run_sync_steps\<close> shows that what it gives is
    an outcome of the relation. \<open>srv_trace\<close> says what a run did to the state, as a sequence of reads and of
    messages run.
  \<^item> StreamCodec, Framing, Codecs: the stream decoder over the incremental reader of
    \<^verbatim>\<open>json.Decoder\<close>, the frames it finds however the input is cut, the encoders and the packet codecs.
  \<^item> Deadlines and Interrupts: the same four codecs step by step. \<open>call_step\<close> interleaves a call with its
    peer, the end of its context and the goroutine of \<^verbatim>\<open>context.AfterFunc\<close> that sets the deadline; the locale
    \<open>interruptible\<close> shows that a call whose context has ended returns, \<open>io_contract\<close> that what it returns is
    made of the reads or writes it made. Each codec interprets both, and refines its function in
    StreamCodec or Codecs. SharedReads: \<open>shared_step\<close>, the calls of all routines of a packet connection on the one
    read deadline they share.
  \<^item> Mutex: goroutines under one mutex, \<open>mutex_step\<close>; the locale \<open>critical_section\<close> shows that their sections
    took effect one after another, \<open>ending_section\<close> that all of them return. SharedClient interprets both on the
    \<^verbatim>\<open>call\<close> and \<^verbatim>\<open>Close\<close> of a transport client, SharedEncoder the first on \<^verbatim>\<open>Encode\<close> and \<^verbatim>\<open>Close\<close> of a stream
    encoder, whose steps are those of \<open>call_step\<close>. SharedMux: \<open>mux_step\<close>, a mux that is changed while it dispatches.
  \<^item> Goroutines: \<open>go_step\<close>, the steps of \<^verbatim>\<open>run\<close>, \<^verbatim>\<open>runRequest\<close> and \<^verbatim>\<open>runRequests\<close> in one goroutine.
    ConcurrentServer: \<open>fine_step\<close>, \<^verbatim>\<open>Run\<close> with such goroutines beside each other, which can do what \<open>srv_step\<close>
    does; the locale \<open>waiting_side\<close> extends \<open>stream_side\<close> with a session under every interleaving.
  \<^item> Binder (binder.go, and the context keys of server.go).
  \<^item> StreamSide: the locale \<open>stream_side\<close> of servers whose codecs are the stream codecs, with a session
    of requests proved once; Http and StreamServer interpret it.
  \<^item> Transport (transportclient.go), ClientPool (clientpool.go), Clients (client.go, batchbuilder.go),
    Http (httphandler.go, httpbridge.go), Net (server.go, dial.go).
  \<^item> Hosting: what several servers on one state have in common, and that servers which heed a cancelled context end.
    ConnServe: \<^verbatim>\<open>Serve\<close> as the relation \<open>serve_step\<close>, the accept loop and the goroutines of its connections, each
    with the \<open>srv_step\<close> of its server; \<open>serve_trace\<close> says what a run did to the state. PacketServe:
    \<^verbatim>\<open>ServePacket\<close> as the relation \<open>packet_step\<close>, which interleaves its routines in the same way, and the caller, who may
    cancel the context at any time; the locale \<open>packet_conn\<close>, interpreted on the servers of a socket, shows that the group ends.
  \<^item> Examples (dial.go, examples/): the client a pool gives, what is asked of puddle (\<open>puddle_works\<close>, which a pool with
    idle and taken resources is shown to satisfy), and both programs.
  \<^item> EndToEnd: the client of a bridge against the HTTP handler, and the client of a connection.
    StreamServer: the servers rpcserver.go makes from a stream and from a packet connection.
  \<^item> MessageProps (round trips, identifiers, batches), SessionProps (whole sessions), ClientProps (calls,
    the client of a connection), PoolProps (the pool and the identifiers), ServerProps (the mux,
    responses, the accept loop, packet servers, addresses), InterruptProps (interrupted calls), ConcurrencyProps
    (goroutines on one connection), SharedMux, Examples (the programs) and this theory (HTTP, the server loop, stream codecs) hold
    the properties, with concrete messages and handlers they are applied to.

  \<^bold>\<open>What is shown.\<close> Messages survive the wire. A call or a batch over HTTP, and a session of requests
  on a stream or a packet connection whose server has \<^verbatim>\<open>NoRoutines\<close> set, gets from end to end exactly the responses the server builds from
  what the handler did, with the identifiers of the requests, and nothing for notifications. A batch is
  answered the same under every schedule of its goroutines; whatever a run of the server loop did to the state, it
  processed each message it accepted once, after it was accepted, its shutdown ends, and it honours
  \<^verbatim>\<open>WaitOnClose\<close>; the accept loop gives each connection it accepted one session and waits for it. The HTTP handler always answers, and the status and body of its answers are given for
  requests, malformed and truncated bodies. Stream codecs round-trip and bound what they hold; after a
  failed read no late answer is taken for another. The pool gives back what it borrows, destroys what failed, and
  retries, reports the last error and closes idle connections as configured; identifiers are distinct though their
  counter wraps; correlation of batches, the mux and lookups agree with their references. Interrupted
  calls return, with what the function models say for the reads and writes they made, and never
  disturb a later call; routines that share a read deadline all leave once their context is
  cancelled, but their idle timeouts interfere. \<^verbatim>\<open>ServePacket\<close> joins its routines and returns all their errors in order, and ends once
  its context is cancelled, if no binder replaces its decoders. Requests that a stream server handles in goroutines of their own are each handled once and
  answered in whole lines, whatever the interleaving, if the server waits on close; goroutines that share a
  transport client get each its own answer, and those that share an encoder never mix their lines; a mux that is
  changed while it dispatches calls a handler of one moment, as long as its default is not changed. The client program, run against the ping server over HTTP, logs pong.

  \<^bold>\<open>Recursion and bounds.\<close> No definition takes fuel. The scanner and the reader recurse on the bytes and the
  pending reads. The sequential loop of \<^verbatim>\<open>Run\<close> is a partial function, \<open>None\<close> when it never
  ends; the HTTP handler's loop and sessions are shown to end. The goroutine relations are shown to end
  by the weights of their states. Machine integers wrap where the code computes with them: the
  32-bit counter of identifiers and the sizes of the pool.

  \<^bold>\<open>Parameters.\<close> The package puddle, \<^verbatim>\<open>url.Parse\<close>, the dialers, listeners and the HTTP client are
  arguments. A Go value given to or made by a handler is a \<open>gval\<close>: a raw message, or a value whose JSON
  text the model of \<^verbatim>\<open>json.Marshal\<close> computes.

  \<^bold>\<open>Not modelled.\<close> How long anything takes: the end of a context is a step that may happen at any
  time, and a timeout an error. Slice capacity, and the aliasing of batches. Handlers do not change the
  request they are given; a panic is modelled in handlers, not in callbacks or binders. A handler
  takes effect in one step, as its shared state is behind locks of the user, and so does an encoding of the server, which
  SharedEncoder takes apart; the session with goroutines has single requests, on a server that waits on close, as
  without it the end of the input cancels the context of the goroutines that are still at work. In \<open>packet_step\<close>
  and \<open>serve_step\<close> a message is processed in one step, and a binder that clears \<^verbatim>\<open>NoRoutines\<close> on the server of an
  HTTP request is not modelled. In \<open>packet_step\<close> a call of a packet codec is one step (SharedReads has its steps, without what the server does with the message; the write deadline is shared in the same way and not modelled so). The texts of JSON type errors
  inside nested values are approximate. The variables that let an application replace encoding/json keep their
  defaults (jsonrpc2.go). The functions of net, crypto/tls, net/http, flag and os/signal.
\<close>

section \<open>A request over HTTP\<close>

text \<open>Concrete messages and handlers the examples below evaluate.\<close>

definition ping_text :: bytes where
  "ping_text = ''{'' @ quote ''method'' @ '':'' @ quote ''ping'' @ '','' @ quote ''id'' @ '':1}''"

definition ping_request :: Request where
  "ping_request = NewRequest (IdNum ''1'') ''ping''"

definition pong :: "'w handle_fn" where
  "pong c req w = (HReturn (ResValue (GStr ''pong'')) None, w)"

definition crash :: "'w handle_fn" where
  "crash c req w = (HPanic (GStr ''boom''), w)"

definition null_slog :: "'w slog" where
  "null_slog c m attrs w = w"

definition post_of :: "bytes \<Rightarrow> http_request" where
  "post_of b = \<lparr>hr_content_type = ''application/json'', hr_body = [RData b]\<rparr>"

lemma plain_post:
  "plain_request (NewHTTPHandler h) (\<lambda>_. None) (post_of b)"
  by (simp add: plain_request_def NewHTTPHandler_def post_of_def only_data_def)

lemma ping_text_framed: "framed ping_text"
  by code_simp

lemma ping_text_hint: "HintType ping_text = TypeObject"
  by code_simp

lemma ping_text_request: "unmarshal_request ping_text = Inr ping_request"
  by code_simp

lemma pong_marshalled: "\<exists>b. marshal_response (Request_ResponseWithResult ping_request (GStr ''pong'')) = Inr b"
proof -
  have "case marshal_response (Request_ResponseWithResult ping_request (GStr ''pong'')) of Inr b \<Rightarrow> True | Inl e \<Rightarrow> False"
    by code_simp
  then show ?thesis by (auto split: sum.splits)
qed

lemma object_opened: "value_end sc_reset (CHR ''{'' # xs) n = value_end (StBeginStringOrEmpty, [ParseObjectKey]) xs (Suc n)"
  by (simp add: first_step)

lemma object_refused: "sc_step (StBeginStringOrEmpty, [ParseObjectKey]) CHR ''p'' =
    serror [ParseObjectKey] CHR ''p'' ''looking for beginning of object key string''"
  by (simp add: begin_string_def is_space_def)

lemma value_end_refused:
  "\<exists>m. value_end (StBeginStringOrEmpty, [ParseObjectKey]) (CHR ''p'' # xs) n = VErr m"
  by (simp add: object_refused serror_def del: sc_step.simps)

lemma malformed_next: "\<exists>m. next_value ''{ping}'' = Inl (SyntaxErr m)"
proof -
  obtain m where "value_end sc_reset ''{ping}'' 0 = VErr m"
    using value_end_refused [of "''ing}''" "Suc 0"] by (simp only: object_opened) blast
  then show ?thesis by (simp only: next_value_finish finish_value.simps) blast
qed

lemma truncated_next: "next_value ''{'' = Inl (Sentinel ErrUnexpectedEOF)"
  by (simp add: next_value_finish first_step at_eof_def is_space_def)

lemma post_data [simp]: "data_of (hr_body (post_of b)) = b"
  by (simp add: post_of_def)

lemma parse_error_marshalled:
  "\<exists>b. marshal_response (NewResponseError (RpcErr ErrParseError)) = Inr b \<and> b \<noteq> []"
  by (simp add: marshal_response_def NewResponseError_def asError_def marshal_fields_def Let_def
      via_marshaler_def [of _ "Inr ''null''"] ID_MarshalJSON_def NewNullID_def map_filter_simps
      marshal_error_def ErrParseError_def NewError_def Error_IsZero_def json_object_def
      Data_IsZero_def zero_data_def)

text \<open>C9: A POST whose body is one request object, in any chunks and with trailing white space, to
  a handler that returns a value or an error, is answered with status 200, and the body is exactly the
  JSON text of the response that carries the request's ID and the handler's result or error, and a
  newline.\<close>

theorem http_single_request:
  assumes "plain_request h cerr req" "data_of (hr_body req) = v @ sp" "framed v" "list_all is_space sp"
    and "HintType v = TypeObject" "unmarshal_request v = Inr q" "\<not> Request_IsNotification q"
    and "Handle (hh_handler h) (http_ctx\<lparr>ctx_rpc_server := True\<rparr>) q u = (out, u')" "plain_outcome out"
    and "marshal_response (reply_of q out) = Inr b"
  shows "ServeHTTP slog h stop cerr req u =
    Some (\<lparr>ht_status = 200, ht_content_type = ''application/json'', ht_body = b @ [CHR 0x0A]\<rparr>, u')"
  using single_request [OF assms] by (simp add: http_flush_def)

theorem http_single_request_witness:
  "\<exists>b. ServeHTTP null_slog (NewHTTPHandler (NewFuncHandler pong)) (\<lambda>_ w. w) (\<lambda>_. None) (post_of (ping_text @ '' '')) (0::nat) =
    Some (\<lparr>ht_status = 200, ht_content_type = ''application/json'', ht_body = b @ [CHR 0x0A]\<rparr>, 0)"
proof -
  obtain b where b: "marshal_response (Request_ResponseWithResult ping_request (GStr ''pong'')) = Inr b"
    using pong_marshalled by blast
  show ?thesis
    by (rule exI, rule http_single_request [OF plain_post _ ping_text_framed _ ping_text_hint ping_text_request
          _ _ _, where sp = "'' ''" and out = "HReturn (ResValue (GStr ''pong'')) None"])
       (use b in \<open>simp_all add: post_of_def is_space_def NewHTTPHandler_def NewFuncHandler_def pong_def
         Request_IsNotification_def ping_request_def NewRequest_def\<close>)
qed

text \<open>C20: Whatever the body, however it is cut, and whatever the handler does, the HTTP handler
  answers: the loop over the body ends, for every body whose read errors, and every context whose
  errors, are not JSON type errors.\<close>

theorem http_always_answers:
  assumes "hh_Binder h = None" "fails_sat not_type_error (hr_body req)"
    and "\<And>w e. cerr w = Some e \<Longrightarrow> \<not> is_type_error e"
  shows "\<exists>reply u'. ServeHTTP slog h stop cerr req u = Some (reply, u')"
proof (cases "hr_content_type req = ''application/json''")
  case True
  let ?c = "http_ctx\<lparr>ctx_err := cerr (http_start h req u)\<rparr>"
  obtain e w where "run_loop (http_server slog h) (handle_all (http_server slog h)) cerr ?c (http_start h req u) = Some (e, w)"
    using http_loop_returns [where cerr = cerr and slog = slog and h = h and c = ?c and u = u, OF assms(2)] assms(3) by blast
  then show ?thesis
    using True assms(1) by (simp add: ServeHTTP_def Run_sync_def Let_def split_beta)
qed (simp add: ServeHTTP_def)

theorem http_always_answers_witness:
  "\<exists>reply u'. ServeHTTP null_slog (NewHTTPHandler (NewFuncHandler crash)) (\<lambda>_ w. w) (\<lambda>_. None)
     \<lparr>hr_content_type = ''application/json'', hr_body = [RData ''[1,'', RFail (Sentinel ErrUnexpectedEOF), RData ''x'']\<rparr>
     (0::nat) = Some (reply, u')"
  by (rule http_always_answers) (auto simp: NewHTTPHandler_def fails_sat_def not_type_error_def)

text \<open>C38: A body that is not JSON text (a syntax error before its first value ends) is answered
  with status 500 and an empty body: the Parse error the server encoded into the buffer is dropped, although
  the body of a truncated value is answered with one.\<close>

theorem http_malformed_body:
  assumes "plain_request h cerr req" "next_value (data_of (hr_body req)) = Inl (SyntaxErr m)"
  shows "ServeHTTP slog h stop cerr req u =
    Some (\<lparr>ht_status = 500, ht_content_type = ''application/json'', ht_body = []\<rparr>, u)"
  using malformed_body [OF assms] by (simp add: http_status_def)

theorem http_malformed_body_witness:
  "ServeHTTP null_slog (NewHTTPHandler (NewFuncHandler pong)) (\<lambda>_ w. w) (\<lambda>_. None) (post_of ''{ping}'') (0::nat) =
    Some (\<lparr>ht_status = 500, ht_content_type = ''application/json'', ht_body = []\<rparr>, 0)"
  using malformed_next http_malformed_body [OF plain_post, of "''{ping}''"] by (metis post_data)

text \<open>A body that ends inside a value is answered with status 200 and the JSON text of a Parse
  error response with a null ID.\<close>

theorem http_truncated_body:
  assumes "plain_request h cerr req" "next_value (data_of (hr_body req)) = Inl (Sentinel ErrUnexpectedEOF)"
    and "marshal_response (NewResponseError (RpcErr ErrParseError)) = Inr b" "b \<noteq> []"
  shows "ServeHTTP slog h stop cerr req u =
    Some (\<lparr>ht_status = 200, ht_content_type = ''application/json'', ht_body = b\<rparr>, u)"
  using ended_body [OF assms(1,2)] assms(3,4)
  by (simp add: http_reply_of_def http_flush_def is_maxbytes_error_def)

theorem http_truncated_body_witness:
  "\<exists>b. ServeHTTP null_slog (NewHTTPHandler (NewFuncHandler pong)) (\<lambda>_ w. w) (\<lambda>_. None) (post_of ''{'') (0::nat) =
    Some (\<lparr>ht_status = 200, ht_content_type = ''application/json'', ht_body = b\<rparr>, 0) \<and> b \<noteq> []"
proof -
  have 1: "next_value (data_of (hr_body (post_of ''{''))) = Inl (Sentinel ErrUnexpectedEOF)"
    by (simp add: truncated_next)
  obtain b where b: "marshal_response (NewResponseError (RpcErr ErrParseError)) = Inr b" "b \<noteq> []"
    using parse_error_marshalled by blast
  show ?thesis
    by (intro exI conjI, rule http_truncated_body [OF plain_post 1 b], rule b(2))
qed

section \<open>The server\<close>

text \<open>An example server: the one the HTTP handler builds, with its state.\<close>

definition example_server :: "'u Handler \<Rightarrow> ('u http_conn) RPCServer" where
  "example_server h = http_server null_slog (NewHTTPHandler h)"

definition example_state :: "bytes \<Rightarrow> nat http_conn" where
  "example_state b = http_start (NewHTTPHandler (NewFuncHandler pong)) (post_of b) 0"

lemma example_server_simps [simp]:
  "pd_request (rp_decoder (example_server h)) = unmarshal_request"
  "rp_Handler (example_server h) = lift_handler h"
  by (simp_all add: example_server_def NewHTTPHandler_def)

lemma pong_plain: "plain_handler (rp_Handler (example_server (NewFuncHandler pong)))"
  by (simp add: plain_handler_def lift_handler_def NewFuncHandler_def pong_def)

text \<open>C10: The goroutines that handle the members of a batch can end with the responses \<open>rs\<close> in
  the state \<open>w'\<close> exactly when the sequential loop, run on some permutation of the members, ends in
  \<open>w'\<close> with a permutation of \<open>rs\<close>: no schedule loses, repeats or invents a response.\<close>

theorem batch_schedules:
  "gathers rp c objs w rs w' \<longleftrightarrow>
     (\<exists>ps res. mset ps = mset objs \<and> handle_all rp c ps w = (res, w') \<and> mset rs = mset res)"
  by (rule gathers_iff)

text \<open>C11: Under every schedule, a batch whose members decode, given to a handler that neither
  panics nor builds its own responses, is answered with exactly one response for each member with an
  ID, carrying that ID, and with nothing for a notification.\<close>

theorem batch_answered:
  assumes "plain_handler (rp_Handler rp)"
    and "list_all2 (\<lambda>jr req. pd_request (rp_decoder rp) jr = Inr req) objs reqs"
    and "gathers rp c objs w rs w'"
  shows "image_mset reply_id (mset rs) =
    image_mset (\<lambda>req. Some (req_id req)) (filter_mset (\<lambda>req. \<not> Request_IsNotification req) (mset reqs))"
proof -
  obtain ps res where ps: "mset ps = mset objs" and run: "handle_all rp c ps w = (res, w')"
    and res: "mset rs = mset res"
    using assms(3) by (auto simp: gathers_iff)
  obtain qs where qs: "list_all2 (\<lambda>jr req. pd_request (rp_decoder rp) jr = Inr req) ps qs" "mset qs = mset reqs"
    using list_all2_reorder_left_invariance [OF assms(2) ps] by blast
  have "mset (map reply_id res) =
      mset (map (\<lambda>req. Some (req_id req)) (filter (\<lambda>req. \<not> Request_IsNotification req) qs))"
    using handle_all_plain [OF assms(1) qs(1), of c w] run by simp
  then show ?thesis
    using res qs(2) by simp
qed

theorem batch_answered_witness:
  "\<exists>rs w'. gathers (example_server (NewFuncHandler pong)) background [ping_text, ping_text] (example_state []) rs w'
    \<and> image_mset reply_id (mset rs) = {#Some (NewID (IdNum ''1'')), Some (NewID (IdNum ''1''))#}"
proof -
  obtain rs w' where run: "handle_all (example_server (NewFuncHandler pong)) background [ping_text, ping_text]
      (example_state []) = (rs, w')"
    by fastforce
  have "gathers (example_server (NewFuncHandler pong)) background [ping_text, ping_text] (example_state []) rs w'"
    using run by (rule gathers_serial)
  from batch_answered [OF pong_plain _ this, of "[ping_request, ping_request]"] this
  show ?thesis
    by (intro exI conjI)
       (simp_all add: ping_text_request Request_IsNotification_def ping_request_def NewRequest_def)
qed

text \<open>The wait for the goroutines of a batch ends: no run takes more than two steps for each
  member, and a run that cannot go on has handled every member and appended every response.\<close>

theorem batch_wait_ends:
  assumes "(batch_step rp c ^^ n) (objs, [], [], w) t"
  shows "n \<le> 2 * length objs \<and> ((\<nexists>u. batch_step rp c t u) \<longleftrightarrow> (\<exists>rs w'. t = ([], [], rs, w')))"
proof -
  have "(\<nexists>u. batch_step rp c t u) \<longleftrightarrow> batch_weight t = 0"
    by (rule batch_goroutines.stuck_iff)
  then show ?thesis
    using batch_goroutines.run_bounded [OF assms] by (cases t) auto
qed

theorem batch_wait_ends_witness:
  "(batch_step (example_server (NewFuncHandler pong)) background ^^ 0)
     ([ping_text], [], [], example_state []) ([ping_text], [], [], example_state [])
   \<and> (\<exists>u. batch_step (example_server (NewFuncHandler pong)) background ([ping_text], [], [], example_state []) u)"
  using batch_wait_ends [of 0 "example_server (NewFuncHandler pong)" background "[ping_text]" "example_state []"
      "([ping_text], [], [], example_state [])"] by simp

text \<open>C33: A decoded notification is answered exactly when its handler panics: a handler's result and
  error are dropped, as documented, but a panic produces an Internal error response without an ID.\<close>

theorem notification_answered_iff_panic:
  assumes "pd_request (rp_decoder rp) jr = Inr req" "Request_IsNotification req"
  shows "fst (handleRequest rp c jr w) \<noteq> None \<longleftrightarrow> (\<exists>p. fst (Handle (rp_Handler rp) c req w) = HPanic p)"
  using assms
  by (cases "Handle (rp_Handler rp) c req w"; cases "fst (Handle (rp_Handler rp) c req w)")
     (simp_all add: handleRequest_def)

theorem notification_answered_iff_panic_witness:
  "fst (handleRequest (example_server (NewFuncHandler crash)) background ''{}'' (example_state [])) \<noteq> None"
proof -
  have "pd_request (rp_decoder (example_server (NewFuncHandler crash))) ''{}'' = Inr zero_Request"
    by (simp, code_simp)
  from notification_answered_iff_panic [OF this, of background "example_state []"] show ?thesis
    by (simp add: Request_IsNotification_def lift_handler_def NewFuncHandler_def crash_def)
qed

text \<open>C15: When \<^verbatim>\<open>Run\<close> has returned, what it did to the state is a sequence of events: it read
  messages until the loop failed once, it processed every message it accepted exactly once, with goroutines or
  without, none before it was accepted, and then it closed the connection, called \<^verbatim>\<open>OnExit\<close> and
  returned what \<open>finish\<close> makes of the loop's error. With \<^verbatim>\<open>NoRoutines\<close> a message is processed
  before the next is read; while the loop goes on, and with \<^verbatim>\<open>WaitOnClose\<close> always, messages are
  processed under a context the server has not cancelled.\<close>

theorem run_processes_all:
  assumes "(srv_step rp cerr c)\<^sup>*\<^sup>* (srv_start w) s" "srv_phase s = Returned r"
  shows "srv_jobs s = [] \<and> (\<exists>es e w1. srv_effects rp cerr c w es w1 \<and> finish rp cerr c e w1 = (r, srv_world s)
    \<and> fails_once es e \<and> mset (processed_by es) = mset (accepted_by es) \<and> orderly rp es)"
proof -
  have jobs: "srv_jobs s = []"
    using srv_inv_reachable [OF assms(1)] assms(2) by (simp add: srv_inv_def srv_joined_def)
  obtain es where es: "srv_trace rp cerr c w es s" using srv_trace_reachable [OF assms(1)] ..
  then obtain e w1 where "fails_once es e" "srv_effects rp cerr c w es w1" "finish rp cerr c e w1 = (r, srv_world s)"
    using assms(2) by (auto simp: srv_trace_def)
  with es jobs show ?thesis
    by (intro conjI exI [of _ es] exI [of _ e] exI [of _ w1]) (simp_all add: srv_trace_def)
qed

text \<open>C16: Once the loop has ended, the shutdown completes: from every state after the loop,
  \<^verbatim>\<open>Run\<close> can return, and no run of the shutdown is longer than the number of goroutines left and three.\<close>

theorem run_shutdown_ends:
  assumes "srv_phase s \<noteq> Looping"
  shows "(\<exists>t r. (srv_step rp cerr c)\<^sup>*\<^sup>* s t \<and> srv_phase t = Returned r) \<and>
    (\<forall>n t. (closing_step rp cerr c ^^ n) s t \<longrightarrow> n \<le> length (srv_jobs s) + 3)"
proof
  obtain t where t: "(closing_step rp cerr c)\<^sup>*\<^sup>* s t" "closing_weight t = 0"
    using shutdown.drains [of rp cerr c s] by blast
  then have "srv_phase t \<noteq> Looping" using closing_run_phase assms by blast
  with t(2) have "\<exists>r. srv_phase t = Returned r"
    by (auto simp: closing_weight_def split: phase.splits)
  then show "\<exists>t r. (srv_step rp cerr c)\<^sup>*\<^sup>* s t \<and> srv_phase t = Returned r"
    using closing_run_steps [OF t(1)] by blast
  have "closing_weight s \<le> length (srv_jobs s) + 3"
    by (simp add: closing_weight_def split: phase.split)
  then show "\<forall>n t. (closing_step rp cerr c ^^ n) s t \<longrightarrow> n \<le> length (srv_jobs s) + 3"
    using shutdown.run_bounded [of _ rp cerr c s] by fastforce
qed

lemma ping_accepted:
  "\<exists>w. read_message (example_server (NewFuncHandler pong)) (internal_ctx (\<lambda>_. None) False background (example_state ping_text))
     (example_state ping_text) = NMessage ping_text None w"
proof -
  let ?h = "NewHTTPHandler (NewFuncHandler pong) :: nat HTTPHandler"
  note start = http_start_healthy [OF plain_post, of "NewFuncHandler pong" ping_text "0 :: nat"]
  show ?thesis
    using http_read_message [OF start(1,3) ping_text_framed, of "[]" "\<lambda>_. None" null_slog ?h background] start(2)
    by (auto simp: example_server_def example_state_def)
qed

lemma ping_returns:
  "\<exists>s r. (srv_step (example_server (NewFuncHandler pong)) (\<lambda>_. None) background)\<^sup>*\<^sup>* (srv_start (example_state ping_text)) s
     \<and> srv_phase s = Returned r"
proof -
  let ?rp = "example_server (NewFuncHandler pong) :: nat http_conn RPCServer"
  have "fails_sat not_type_error (hr_body (post_of ping_text))"
    by (simp add: post_of_def fails_sat_def)
  then obtain e w where "run_loop ?rp (handle_all ?rp) (\<lambda>_. None) background (example_state ping_text) = Some (e, w)"
    using http_loop_returns [where cerr = "\<lambda>_. None" and slog = null_slog and h = "NewHTTPHandler (NewFuncHandler pong)"
        and c = background and u = "0 :: nat" and req = "post_of ping_text"]
    by (auto simp: example_server_def example_state_def)
  moreover have "NoRoutines ?rp" by (simp add: example_server_def http_server_def)
  ultimately obtain r w' where "Run_sync ?rp (handle_all ?rp) (\<lambda>_. None) background (example_state ping_text) = Some (r, w')"
    by (simp add: Run_sync_def) (metis surj_pair)
  from Run_sync_steps [OF this schedule_serial] show ?thesis by blast
qed

theorem run_processes_all_witness:
  "\<exists>s r es e w1. (srv_step (example_server (NewFuncHandler pong)) (\<lambda>_. None) background)\<^sup>*\<^sup>* (srv_start (example_state ping_text)) s
    \<and> srv_phase s = Returned r \<and> (ping_text, None) \<in> set (processed_by es)
    \<and> srv_effects (example_server (NewFuncHandler pong)) (\<lambda>_. None) background (example_state ping_text) es w1
    \<and> finish (example_server (NewFuncHandler pong)) (\<lambda>_. None) background e w1 = (r, srv_world s)"
proof -
  obtain s r where s: "(srv_step (example_server (NewFuncHandler pong)) (\<lambda>_. None) background)\<^sup>*\<^sup>*
      (srv_start (example_state ping_text)) s" "srv_phase s = Returned r"
    using ping_returns by (elim exE conjE)
  obtain es e w1 where es: "srv_effects (example_server (NewFuncHandler pong)) (\<lambda>_. None) background (example_state ping_text) es w1"
    "finish (example_server (NewFuncHandler pong)) (\<lambda>_. None) background e w1 = (r, srv_world s)" "fails_once es e"
    "mset (processed_by es) = mset (accepted_by es)"
    "orderly (example_server (NewFuncHandler pong) :: nat http_conn RPCServer) es"
    using run_processes_all [OF s] by blast
  have "es \<noteq> []" "after_acceptance es"
    using es(3,5) by (auto simp: fails_once_def orderly_def)
  then have "(ping_text, None) \<in> set (accepted_by es)"
    using ping_accepted first_accepted [OF es(1)] by blast
  then have "(ping_text, None) \<in> set (processed_by es)"
    using es(4) by (metis set_mset_mset)
  with s es(1,2) show ?thesis by (intro exI conjI)
qed

theorem run_shutdown_ends_witness:
  "\<exists>t r. (srv_step (example_server (NewFuncHandler pong)) (\<lambda>_. None) background)\<^sup>*\<^sup>*
     (srv_start (example_state [])\<lparr>srv_phase := Exiting (Sentinel EOF), srv_jobs := [(ping_text, None)]\<rparr>) t
     \<and> srv_phase t = Returned r"
  using run_shutdown_ends [of "srv_start (example_state [])\<lparr>srv_phase := Exiting (Sentinel EOF),
      srv_jobs := [(ping_text, None)]\<rparr>"] by simp

text \<open>With \<^verbatim>\<open>WaitOnClose\<close> the server never cancels its context while a goroutine is left,
  so no handler is started or still running under a context the shutdown cancelled.\<close>

theorem wait_on_close:
  assumes "(srv_step rp cerr c)\<^sup>*\<^sup>* (srv_start w) s" "WaitOnClose rp" "srv_jobs s \<noteq> []"
  shows "\<not> stopped (srv_phase s)"
  using srv_inv_reachable [OF assms(1)] assms(2,3)
  by (cases "srv_phase s") (auto simp: srv_inv_def srv_joined_def srv_patient_def)

theorem wait_on_close_witness:
  "\<exists>s. (srv_step (example_server (NewFuncHandler pong)\<lparr>NoRoutines := False\<rparr>) (\<lambda>_. None) background)\<^sup>*\<^sup>*
     (srv_start (example_state ping_text)) s \<and> srv_jobs s \<noteq> [] \<and> \<not> stopped (srv_phase s)"
proof -
  let ?h = "NewHTTPHandler (NewFuncHandler pong) :: nat HTTPHandler"
  let ?rp = "example_server (NewFuncHandler pong)\<lparr>NoRoutines := False\<rparr> :: nat http_conn RPCServer"
  let ?s = "srv_start (example_state ping_text)"
  note start = http_start_healthy [OF plain_post, of "NewFuncHandler pong" ping_text "0 :: nat"]
  obtain d where d: "read_message (http_server null_slog ?h) (internal_ctx (\<lambda>_. None) False background
      (http_start ?h (post_of ping_text) 0)) (http_start ?h (post_of ping_text) 0) =
      NMessage ping_text None (http_start ?h (post_of ping_text) 0\<lparr>hc_dec := d\<rparr>)"
    using http_read_message [OF start(1,3) ping_text_framed, of "[]" "\<lambda>_. None" null_slog ?h background] start(2)
    by auto
  let ?t = "?s\<lparr>srv_jobs := srv_jobs ?s @ [(ping_text, None)],
    srv_world := http_start ?h (post_of ping_text) 0\<lparr>hc_dec := d\<rparr>\<rparr>"
  have "srv_step ?rp (\<lambda>_. None) background ?s ?t"
    by (rule srv_step.loop_spawn)
       (use d in \<open>simp_all add: srv_start_def example_state_def example_server_def read_message_NoRoutines\<close>)
  then have reach: "(srv_step ?rp (\<lambda>_. None) background)\<^sup>*\<^sup>* ?s ?t" by (rule r_into_rtranclp)
  have "\<not> stopped (srv_phase ?t)"
    by (rule wait_on_close [OF reach]) (simp_all add: example_server_def http_server_def)
  then show ?thesis
    by (intro exI [of _ ?t] conjI reach) simp_all
qed

text \<open>The error \<^verbatim>\<open>Run\<close> returns contains the error its loop ended with, whatever the context
  and the closing of the connection add to it.\<close>

theorem run_returns_loop_error:
  assumes "(srv_step rp cerr c)\<^sup>*\<^sup>* s t" "srv_phase s = Exiting e" "srv_phase t = Returned r"
    and "is_err (Some e) x"
  shows "is_err r x"
proof -
  obtain w where "srv_phase t = Returned (fst (finish rp cerr c e w))"
    using exit_error_kept [OF assms(1), of e] assms(2,3) by (auto simp: exit_error_def)
  with assms(3) have "r = fst (finish rp cerr c e w)" by simp
  with assms(4) show ?thesis by (simp only: finish_error simp_thms)
qed

theorem run_returns_loop_error_witness:
  "\<exists>t r. (srv_step (example_server (NewFuncHandler pong)) (\<lambda>_. Some (Sentinel Canceled)) background)\<^sup>*\<^sup>*
     (srv_start (example_state [])\<lparr>srv_phase := Exiting (Sentinel EOF)\<rparr>) t
     \<and> srv_phase t = Returned r \<and> is_err r EOF"
proof -
  let ?rp = "example_server (NewFuncHandler pong) :: nat http_conn RPCServer"
  let ?s = "srv_start (example_state [])\<lparr>srv_phase := Exiting (Sentinel EOF)\<rparr>"
  obtain t where t: "(closing_step ?rp (\<lambda>_. Some (Sentinel Canceled)) background)\<^sup>*\<^sup>* ?s t" "closing_weight t = 0"
    using shutdown.drains by blast
  have "srv_phase t \<noteq> Looping" using closing_run_phase [OF t(1)] by simp
  then obtain r where r: "srv_phase t = Returned r"
    using t(2) by (cases "srv_phase t") (simp_all add: closing_weight_def)
  have "is_err r EOF"
    by (rule run_returns_loop_error [where e = "Sentinel EOF", OF closing_run_steps [OF t(1)] _ r]) (simp_all add: is_err_def)
  then show ?thesis using closing_run_steps [OF t(1)] r by (intro exI [of _ t] exI [of _ r]) simp
qed

section \<open>The stream transport\<close>

text \<open>C21: What stream encoders write, a stream decoder without a limit reads back: if every value
  marshals to a JSON object or array, the decoder gives the same texts in the same order, however the
  reader cuts the bytes, and whether or not the two ends support closing or deadlines.\<close>

theorem stream_roundtrip:
  assumes "se_err i = None" "\<forall>(env, v) \<in> set evs. env_clear_err env = None"
    and "\<forall>(env, v) \<in> set evs. \<exists>b. mar v = Inr b \<and> framed b"
    and "healthy d" "sd_pending d = snd (encode_seq evs mar i [])"
    and "\<forall>env \<in> set envs. env_clear_err env = None" "length envs = length evs"
  shows "fst (decode_seq envs d) = map (\<lambda>(env, v). mar v) evs"
proof -
  define bs where "bs = concat (map (written mar \<circ> snd) evs)"
  have one: "written mar v = [projr (mar v)] \<and> mar v = Inr (projr (mar v)) \<and> framed (projr (mar v))"
    if "(env, v) \<in> set evs" for env v
    using assms(3) that by (auto simp: written_def)
  have bs: "bs = map (\<lambda>(env, v). projr (mar v)) evs"
    using one unfolding bs_def by (induction evs) fastforce+
  have "sd_pending d = [] @ concat (map (\<lambda>b. b @ [CHR 0x0A]) bs) @ []"
    using encode_seq_written [OF assms(1,2), of mar "[]"] assms(5) by (simp add: bs_def)
  moreover have "\<forall>v \<in> set bs. framed v" "length envs = length bs"
    using one assms(7) by (auto simp: bs)
  ultimately have "fst (decode_seq envs d) = map Inr bs"
    using decode_seq_framed [OF assms(4,6), of bs "[]" "[]"] by simp
  then show ?thesis
    using one by (auto simp: bs)
qed

definition calm :: decode_env where
  "calm = \<lparr>env_clear_err = None, env_ctx_err = None\<rparr>"

lemma data_of_bytes: "data_of (map (\<lambda>x. RData [x]) xs) = xs \<and> only_data (map (\<lambda>x. RData [x]) xs)"
  by (induction xs) (auto simp: only_data_def)

lemma empty_object_framed: "framed ''{}''"
  by code_simp

theorem stream_roundtrip_witness:
  "let sent = snd (encode_seq [(calm, ping_text), (calm, ''{}'')] Inr (NewStreamEncoder DeadlineWriter) []);
       d = NewStreamDecoder DeadlineReader (map (\<lambda>x. RData [x]) sent)
   in fst (decode_seq [calm, calm] d) = [Inr ping_text, Inr ''{}'']"
  unfolding Let_def
  by (subst stream_roundtrip [where evs = "[(calm, ping_text), (calm, ''{}'')]" and mar = Inr
        and i = "NewStreamEncoder DeadlineWriter"])
     (simp_all add: NewStreamEncoder_def calm_def healthy_def NewStreamDecoder_def NewJSONDecoder_def
       sd_pending_def data_of_bytes ping_text_framed empty_object_framed)

text \<open>C36: With a read limit, one \<^verbatim>\<open>Decode\<close> call adds at most the limit to what the decoder
  holds: its memory grows by no more than that, whatever the peer sends.\<close>

theorem decode_limit_bounds:
  assumes "sd_lr i \<noteq> None" "0 \<le> sd_n i" "Decoder_Decode env i = (r, i')"
  shows "int (length (jd_buf (sd_d i'))) \<le> int (length (jd_buf (sd_d i))) + sd_n i"
proof -
  define j where "j = i\<lparr>sd_lr := Some (sd_n i)\<rparr>"
  obtain x jd lim evs where jd: "jd_decode (sd_d j) (Some (sd_n i)) (sd_r j) = (x, jd, lim, evs)"
    by (metis surj_pair)
  have plain: "sd_d (snd (plain_decode j)) = jd"
    using jd by (simp add: plain_decode_def j_def Let_def)
  have "sd_d i' = jd \<or> sd_d i' = sd_d i"
  proof (cases "plain_decode j")
    case (Pair a b)
    then show ?thesis
      using assms(1,3) plain
      by (auto simp: Decoder_Decode_def cancelDecode_def Let_def j_def split: if_splits option.splits sum.splits)
  qed
  then show ?thesis
    using jd_decode_limit [OF jd assms(2)] assms(2) by (auto simp: j_def)
qed

theorem decode_limit_bounds_witness:
  "\<exists>r i'. Decoder_Decode calm (Decoder_SetLimit (NewStreamDecoder ReadCloser [RData (replicate 100 CHR ''['')]) 8) = (r, i')
    \<and> length (jd_buf (sd_d i')) \<le> 8"
proof -
  let ?i = "Decoder_SetLimit (NewStreamDecoder ReadCloser [RData (replicate 100 CHR ''['')]) 8"
  obtain r i' where d: "Decoder_Decode calm ?i = (r, i')" by fastforce
  have "int (length (jd_buf (sd_d i'))) \<le> int (length (jd_buf (sd_d ?i))) + sd_n ?i"
    by (rule decode_limit_bounds [OF _ _ d]) (simp_all add: Decoder_SetLimit_def)
  then have "length (jd_buf (sd_d i')) \<le> 8"
    by (simp add: Decoder_SetLimit_def NewJSONDecoder_def)
  with d show ?thesis by (intro exI conjI)
qed

end
